(* ===== verification/Prelude.thy ===== *)
theory Prelude
  imports Main "HOL-Library.Word" "HOL-Library.Char_ord" "HOL-Library.List_Lexorder"
begin

section \<open>Prelude: Rust values, programs with effects, shared lemmas\<close>

text \<open>
  What every theory of the library shares: the fixed width integers of the source, the
  arithmetic of Rust under its two build profiles, little-endian encodings, lookups in byte
  slices, and programs that fail and change a state. Nothing here models a function of the
  repository by itself; it models the part of the language and of its standard library that
  the repository uses.
\<close>

named_theorems prog_simps \<open>unfolding rules of the effectful programs\<close>
named_theorems rust_arith \<open>definitions of the Rust arithmetic operations\<close>

subsection \<open>Fixed width integers\<close>

type_synonym u8 = "8 word"
type_synonym u32 = "32 word"
type_synonym u64 = "64 word"
type_synonym u128 = "128 word"
type_synonym bytes = "u8 list"
type_synonym pubkey = bytes \<comment> \<open>a Solana \<open>Pubkey\<close>: 32 bytes\<close>

text \<open>
  A signed 64 bit value (\<open>i64\<close>, and the \<open>BIGINT\<close> of the database) is an \<open>int\<close>; the operations
  below keep it in range the way the build profile does: a checked build panics on overflow,
  a release build wraps around.
\<close>

datatype profile = Debug | Release

definition in_i64 :: "int \<Rightarrow> bool" where
  "in_i64 x \<longleftrightarrow> - (2 ^ 63) \<le> x \<and> x < 2 ^ 63"

definition wrap_i64 :: "int \<Rightarrow> int" where
  "wrap_i64 x = (x + 2 ^ 63) mod 2 ^ 64 - 2 ^ 63"

definition i64_result :: "profile \<Rightarrow> int \<Rightarrow> int option" where
  \<comment> \<open>\<open>None\<close> is the panic of an overflow check\<close>
  "i64_result p x =
     (if in_i64 x then Some x else if p = Debug then None else Some (wrap_i64 x))"

definition u64_max :: nat where
  "u64_max = 2 ^ 64 - 1"

definition checked_add_u64 :: "u64 \<Rightarrow> u64 \<Rightarrow> u64 option" where
  "checked_add_u64 a b = (if unat a + unat b < 2 ^ 64 then Some (a + b) else None)"

definition saturating_add_u64 :: "u64 \<Rightarrow> u64 \<Rightarrow> u64" where
  "saturating_add_u64 a b = (if unat a + unat b < 2 ^ 64 then a + b else - 1)"

definition plus_u64 :: "profile \<Rightarrow> u64 \<Rightarrow> u64 \<Rightarrow> u64 option" where
  \<comment> \<open>the plain \<open>+\<close> of Rust\<close>
  "plus_u64 p a b =
     (if unat a + unat b < 2 ^ 64 then Some (a + b)
      else if p = Debug then None else Some (a + b))"

definition i64_as_u64 :: "int \<Rightarrow> u64" where
  "i64_as_u64 x = word_of_int x"

definition u64_as_i64 :: "u64 \<Rightarrow> int" where
  "u64_as_i64 w = wrap_i64 (uint w)"

lemmas [rust_arith] =
  checked_add_u64_def saturating_add_u64_def plus_u64_def i64_result_def
  i64_as_u64_def u64_as_i64_def

lemma wrap_i64_in_range [simp]: "in_i64 (wrap_i64 x)"
  using pos_mod_bound [of "2 ^ 64" "x + 2 ^ 63"] pos_mod_sign [of "2 ^ 64" "x + 2 ^ 63"]
  unfolding in_i64_def wrap_i64_def by simp

lemma wrap_i64_id [simp]: "in_i64 x \<Longrightarrow> wrap_i64 x = x"
  unfolding in_i64_def wrap_i64_def by simp

lemma i64_result_cases:
  assumes "i64_result p x = Some y"
  obtains "in_i64 x" "y = x" | "\<not> in_i64 x" "p = Release" "y = wrap_i64 x"
  using assms unfolding i64_result_def by (cases p) (auto split: if_splits)

lemma checked_add_u64_Some:
  "checked_add_u64 a b = Some c \<longleftrightarrow> unat a + unat b < 2 ^ 64 \<and> c = a + b"
  by (auto simp: checked_add_u64_def)

lemma checked_add_u64_unat:
  "checked_add_u64 a b = Some c \<Longrightarrow> unat c = unat a + unat b"
  by (auto simp: checked_add_u64_Some unat_word_ariths)

lemma unat_saturating_add_u64:
  "unat (saturating_add_u64 a b) = min (unat a + unat b) (2 ^ 64 - 1)"
  by (auto simp: saturating_add_u64_def unat_word_ariths unsigned_minus_1_eq_mask mask_eq_exp_minus_1)

lemma unat_i64_as_u64:
  "0 \<le> x \<Longrightarrow> in_i64 x \<Longrightarrow> unat (i64_as_u64 x) = nat x"
  unfolding i64_as_u64_def in_i64_def
  by (simp add: unsigned_of_int take_bit_int_eq_self)

lemma uint_i64_as_u64:
  "0 \<le> x \<Longrightarrow> in_i64 x \<Longrightarrow> uint (i64_as_u64 x) = x"
  unfolding i64_as_u64_def in_i64_def by (simp add: unsigned_of_int take_bit_int_eq_self)

lemma uint_i64_as_u64_neg:
  assumes "x < 0" "in_i64 x"
  shows "uint (i64_as_u64 x) = x + 2 ^ 64"
proof -
  have "uint (i64_as_u64 x) = (x + 2 ^ 64) mod 2 ^ 64"
    by (simp add: i64_as_u64_def uint_word_of_int)
  also have "\<dots> = x + 2 ^ 64"
    using assms by (intro mod_pos_pos_trivial) (auto simp: in_i64_def)
  finally show ?thesis .
qed

lemma u64_as_i64_in_range [simp]: "in_i64 (u64_as_i64 w)"
  by (simp add: u64_as_i64_def)

lemma u64_as_i64_id:
  assumes "unat w < 2 ^ 63"
  shows "u64_as_i64 w = int (unat w)"
proof -
  have eq: "uint w = int (unat w)" by simp
  have "in_i64 (int (unat w))"
    using assms by (simp add: in_i64_def del: of_nat_unat)
  then show ?thesis
    by (simp only: u64_as_i64_def eq wrap_i64_id)
qed

lemma i64_as_u64_as_i64: "in_i64 x \<Longrightarrow> 0 \<le> x \<Longrightarrow> u64_as_i64 (i64_as_u64 x) = x"
  by (subst u64_as_i64_id) (auto simp: unat_i64_as_u64 in_i64_def)

subsection \<open>Little-endian encodings\<close>

text \<open>\<open>to_le_bytes\<close> and \<open>from_le_bytes\<close> of the standard library, for \<open>k\<close> bytes.\<close>

fun le_bytes :: "nat \<Rightarrow> nat \<Rightarrow> bytes" where
  "le_bytes 0 n = []"
| "le_bytes (Suc k) n = word_of_nat (n mod 256) # le_bytes k (n div 256)"

fun of_le_bytes :: "bytes \<Rightarrow> nat" where
  "of_le_bytes [] = 0"
| "of_le_bytes (b # bs) = unat b + 256 * of_le_bytes bs"

definition u64_le :: "u64 \<Rightarrow> bytes" where
  "u64_le w = le_bytes 8 (unat w)"

definition u128_le :: "u128 \<Rightarrow> bytes" where
  "u128_le w = le_bytes 16 (unat w)"

lemma unat_less [simp]: "unat (w :: 'a::len word) < 2 ^ LENGTH('a)"
  by (rule unsigned_less)

lemma length_le_bytes [simp]: "length (le_bytes k n) = k"
  by (induction k arbitrary: n) auto

lemma length_u64_le [simp]: "length (u64_le w) = 8"
  by (simp add: u64_le_def)

lemma length_u128_le [simp]: "length (u128_le w) = 16"
  by (simp add: u128_le_def)

lemma unat_word_of_nat_mod_256 [simp]: "unat (word_of_nat (n mod 256) :: u8) = n mod 256"
  by (simp add: unsigned_of_nat take_bit_nat_eq_self_iff)

lemma of_le_bytes_le_bytes: "of_le_bytes (le_bytes k n) = n mod 256 ^ k"
proof (induction k arbitrary: n)
  case 0
  then show ?case by simp
next
  case (Suc k)
  then show ?case by (simp add: mod_mult2_eq mult.commute)
qed

lemma of_le_bytes_u64_le [simp]: "of_le_bytes (u64_le w) = unat w"
  using unat_less [of w] by (simp add: u64_le_def of_le_bytes_le_bytes)

lemma of_le_bytes_u128_le [simp]: "of_le_bytes (u128_le w) = unat w"
  using unat_less [of w] by (simp add: u128_le_def of_le_bytes_le_bytes)

lemma u64_le_inject [simp]: "u64_le a = u64_le b \<longleftrightarrow> a = b"
  by (metis of_le_bytes_u64_le unsigned_word_eqI)

lemma of_le_bytes_bound: "of_le_bytes bs < 256 ^ length bs"
proof (induction bs)
  case Nil
  then show ?case by simp
next
  case (Cons b bs)
  have "unat b < 256" using unat_less [of b] by simp
  with Cons show ?case by simp
qed

subsection \<open>Byte slices\<close>

text \<open>\<open>data.get(off..off + len)\<close>: \<open>None\<close> when the range runs past the slice.\<close>

definition slice :: "bytes \<Rightarrow> nat \<Rightarrow> nat \<Rightarrow> bytes option" where
  "slice data off len =
     (if off + len \<le> length data then Some (take len (drop off data)) else None)"

definition read_u64_at :: "bytes \<Rightarrow> nat \<Rightarrow> u64 option" where
  "read_u64_at data off = map_option (\<lambda>b. word_of_nat (of_le_bytes b)) (slice data off 8)"

lemma slice_length: "slice data off len = Some b \<Longrightarrow> length b = len"
  by (auto simp: slice_def split: if_splits)

lemma slice_append:
  "length xs = off \<Longrightarrow> length ys = len \<Longrightarrow> slice (xs @ ys @ zs) off len = Some ys"
  by (simp add: slice_def)

subsection \<open>Programs with effects\<close>

text \<open>
  A function returning \<open>Result<T, Box<dyn Error>>\<close> that talks to the outside is a function of
  the state. A \<open>Fault\<close> is the \<open>Err\<close> that \<open>?\<close> passes on; a \<open>Panic\<close> unwinds the task and is
  not caught by \<open>match\<close> or \<open>if let\<close>.
\<close>

datatype fault = Fault string | Panic string

type_synonym ('s, 'a) prog = "'s \<Rightarrow> (fault + 'a) \<times> 's"

definition ret :: "'a \<Rightarrow> ('s, 'a) prog" where
  "ret x s = (Inr x, s)"

definition throw :: "string \<Rightarrow> ('s, 'a) prog" where
  "throw e s = (Inl (Fault e), s)"

definition panic :: "string \<Rightarrow> ('s, 'a) prog" where
  "panic e s = (Inl (Panic e), s)"

definition andThen :: "('s, 'a) prog \<Rightarrow> ('a \<Rightarrow> ('s, 'b) prog) \<Rightarrow> ('s, 'b) prog" where
  \<comment> \<open>the \<open>?\<close> operator: the first failure ends the function\<close>
  "andThen m k s = (case m s of (Inl e, s') \<Rightarrow> (Inl e, s') | (Inr x, s') \<Rightarrow> k x s')"

definition attempt :: "('s, 'a) prog \<Rightarrow> ('s, string + 'a) prog" where
  \<comment> \<open>a \<open>match\<close> on the result: the \<open>Err\<close> becomes a value, a panic goes on\<close>
  "attempt m s =
     (case m s of
        (Inl (Fault e), s') \<Rightarrow> (Inr (Inl e), s')
      | (Inl (Panic e), s') \<Rightarrow> (Inl (Panic e), s')
      | (Inr x, s') \<Rightarrow> (Inr (Inr x), s'))"

definition or_throw :: "string \<Rightarrow> 'a option \<Rightarrow> ('s, 'a) prog" where
  "or_throw e r = (case r of Some x \<Rightarrow> ret x | None \<Rightarrow> throw e)"

definition or_panic :: "string \<Rightarrow> 'a option \<Rightarrow> ('s, 'a) prog" where
  "or_panic e r = (case r of Some x \<Rightarrow> ret x | None \<Rightarrow> panic e)"

lemmas [prog_simps] = ret_def throw_def panic_def andThen_def attempt_def
  or_throw_def or_panic_def

lemma andThen_ret [simp]: "andThen (ret x) k = k x"
  by (simp add: fun_eq_iff prog_simps)

lemma andThen_throw [simp]: "andThen (throw e) k = throw e"
  by (simp add: fun_eq_iff prog_simps)

lemma andThen_panic [simp]: "andThen (panic e) k = panic e"
  by (simp add: fun_eq_iff prog_simps)

lemma andThen_assoc: "andThen (andThen m k) h = andThen m (\<lambda>x. andThen (k x) h)"
  by (auto simp: fun_eq_iff andThen_def split: prod.splits sum.splits)

lemma andThen_Inr:
  assumes "andThen m k s = (Inr y, s')"
  obtains x t where "m s = (Inr x, t)" "k x t = (Inr y, s')"
  using assms by (auto simp: andThen_def split: prod.splits sum.splits)

text \<open>
  What a program keeps: an invariant over the state before and after, whatever the result.
\<close>

definition keeps :: "('s \<Rightarrow> 's \<Rightarrow> bool) \<Rightarrow> ('s, 'a) prog \<Rightarrow> bool" where
  "keeps R m \<longleftrightarrow> (\<forall>s. R s (snd (m s)))"

lemma keepsD: "keeps R m \<Longrightarrow> m s = (r, s') \<Longrightarrow> R s s'"
  unfolding keeps_def by (metis snd_conv)

subsection \<open>Lists\<close>

definition option_list :: "'a option \<Rightarrow> 'a list" where
  "option_list x = (case x of Some a \<Rightarrow> [a] | None \<Rightarrow> [])"

fun filter_map :: "('a \<Rightarrow> 'b option) \<Rightarrow> 'a list \<Rightarrow> 'b list" where
  \<comment> \<open>\<open>Iterator::filter_map\<close>\<close>
  "filter_map f [] = []"
| "filter_map f (x # xs) = (case f x of Some y \<Rightarrow> y # filter_map f xs | None \<Rightarrow> filter_map f xs)"

lemma set_filter_map: "set (filter_map f xs) = {y. \<exists>x \<in> set xs. f x = Some y}"
  by (induction xs) (auto split: option.splits)

lemma length_filter_map_le: "length (filter_map f xs) \<le> length xs"
  by (induction xs) (auto split: option.splits)

lemma filter_map_all_Some: "(\<And>x. x \<in> set xs \<Longrightarrow> f x = Some (g x)) \<Longrightarrow> filter_map f xs = map g xs"
  by (induction xs) auto

lemma distinct_filter_map:
  assumes "distinct (map k xs)" and "\<And>x y. f x = Some y \<Longrightarrow> h (j y) = k x"
  shows "distinct (map j (filter_map f xs))"
  using assms(1)
proof (induction xs)
  case Nil
  then show ?case by simp
next
  case (Cons x xs)
  show ?case
  proof (cases "f x")
    case None
    with Cons show ?thesis by simp
  next
    case (Some y)
    have "j y \<notin> j ` set (filter_map f xs)"
    proof
      assume "j y \<in> j ` set (filter_map f xs)"
      then obtain x' y' where "x' \<in> set xs" "f x' = Some y'" "j y = j y'"
        by (auto simp: set_filter_map)
      with assms(2) Some have "k x = k x'" by metis
      with Cons.prems \<open>x' \<in> set xs\<close> show False by auto
    qed
    with Cons Some show ?thesis by simp
  qed
qed

lemma find_only:
  assumes "x \<in> set xs" "P x" and "\<And>y. y \<in> set xs \<Longrightarrow> P y \<Longrightarrow> y = x"
  shows "find P xs = Some x"
proof (cases "find P xs")
  case None
  with assms(1,2) show ?thesis by (auto simp: find_None_iff)
next
  case (Some y)
  then have "y \<in> set xs" "P y" by (auto simp: find_Some_iff)
  with Some assms(3) show ?thesis by simp
qed

lemma find_first:
  assumes "find P xs = Some x"
  shows "x \<in> set xs" and "P x"
  using assms by (induction xs) (auto split: if_splits)

subsection \<open>Invariants of a step relation\<close>

locale invariant_system =
  fixes step :: "'s \<Rightarrow> 's \<Rightarrow> bool" and inv :: "'s \<Rightarrow> bool"
  assumes step_preserves: "inv s \<Longrightarrow> step s t \<Longrightarrow> inv t"
begin

lemma reachable_inv: "step\<^sup>*\<^sup>* s t \<Longrightarrow> inv s \<Longrightarrow> inv t"
  by (induction rule: rtranclp_induct) (auto intro: step_preserves)

end

locale ordered_system = invariant_system +
  fixes grows :: "'s \<Rightarrow> 's \<Rightarrow> bool"
  assumes step_grows: "inv s \<Longrightarrow> step s t \<Longrightarrow> grows s t"
    and grows_refl: "grows s s"
    and grows_trans: "grows s t \<Longrightarrow> grows t u \<Longrightarrow> grows s u"
begin

lemma reachable_grows:
  assumes "step\<^sup>*\<^sup>* s t" "inv s"
  shows "grows s t"
  using assms
proof (induction rule: rtranclp_induct)
  case base
  show ?case by (rule grows_refl)
next
  case (step t u)
  then show ?case using grows_trans step_grows reachable_inv by metis
qed

end

end
