(* ===== verification/Hex.thy ===== *)
theory Hex
  imports Prelude
begin

section \<open>hex.rs: lowercase hex encoding\<close>

text \<open>
  The one function of \<^verbatim>\<open>src/src/hex.rs\<close>: two lowercase digits per byte, no prefix. The
  decoder below is not in the repository; it is what a reader of the encoding does, and the
  round trip shows that the encoding loses nothing, so that two roots or two proof elements
  that differ are never written alike.
\<close>

definition hex_digit :: "nat \<Rightarrow> char" where
  "hex_digit n = ''0123456789abcdef'' ! n"

definition hex_byte :: "u8 \<Rightarrow> string" where
  \<comment> \<open>\<open>{b:02x}\<close>\<close>
  "hex_byte b = [hex_digit (unat b div 16), hex_digit (unat b mod 16)]"

definition hex_encode :: "bytes \<Rightarrow> string" where
  "hex_encode bs = concat (map hex_byte bs)"

fun hex_value :: "char \<Rightarrow> nat option" where
  "hex_value c =
     (if CHR ''0'' \<le> c \<and> c \<le> CHR ''9'' then Some (of_char c - 48)
      else if CHR ''a'' \<le> c \<and> c \<le> CHR ''f'' then Some (of_char c - 87)
      else None)"

fun hex_decode :: "string \<Rightarrow> bytes option" where
  "hex_decode [] = Some []"
| "hex_decode [c] = None"
| "hex_decode (c # d # cs) =
     (case (hex_value c, hex_value d, hex_decode cs) of
        (Some h, Some l, Some bs) \<Rightarrow> Some (word_of_nat (16 * h + l) # bs)
      | _ \<Rightarrow> None)"

declare hex_value.simps [simp del]

lemma hex_value_digit: "n < 16 \<Longrightarrow> hex_value (hex_digit n) = Some n"
proof -
  assume "n < 16"
  then have "n \<in> set [0..<16]" by simp
  moreover have "\<forall>n \<in> set [0..<16]. hex_value (hex_digit n) = Some n" by code_simp
  ultimately show ?thesis by blast
qed

lemma length_hex_encode: "length (hex_encode bs) = 2 * length bs"
  by (induction bs) (auto simp: hex_encode_def hex_byte_def)

lemma hex_digit_lower: "n < 16 \<Longrightarrow> hex_digit n \<in> set ''0123456789abcdef''"
  by (simp add: hex_digit_def del: set_simps)

lemma hex_decode_encode: "hex_decode (hex_encode bs) = Some bs"
proof (induction bs)
  case Nil
  then show ?case by (simp add: hex_encode_def)
next
  case (Cons b bs)
  have "unat b < 256" using unat_less [of b] by simp
  then have "hex_value (hex_digit (unat b div 16)) = Some (unat b div 16)"
    by (intro hex_value_digit) simp
  moreover have "hex_value (hex_digit (unat b mod 16)) = Some (unat b mod 16)"
    by (intro hex_value_digit) simp
  moreover have "hex_decode (concat (map hex_byte bs)) = Some bs"
    using Cons by (simp add: hex_encode_def)
  ultimately show ?case by (simp add: hex_encode_def hex_byte_def)
qed

text \<open>
  Hex encoding is injective: it has a left inverse, uses two characters a byte and only
  lowercase digits, so the \<open>TEXT\<close> column and the JSON field determine the bytes.
\<close>

theorem hex_roundtrip:
  "hex_decode (hex_encode bs) = Some bs \<and> length (hex_encode bs) = 2 * length bs
    \<and> set (hex_encode bs) \<subseteq> set ''0123456789abcdef''"
proof -
  have "set (hex_byte b) \<subseteq> set ''0123456789abcdef''" for b
  proof -
    have "unat b < 256" using unat_less [of b] by simp
    then have "hex_digit (unat b div 16) \<in> set ''0123456789abcdef''"
      and "hex_digit (unat b mod 16) \<in> set ''0123456789abcdef''"
      by (auto intro!: hex_digit_lower simp del: set_simps)
    then show ?thesis by (simp add: hex_byte_def)
  qed
  then have "set (hex_encode bs) \<subseteq> set ''0123456789abcdef''"
    unfolding hex_encode_def by fastforce
  then show ?thesis by (simp add: hex_decode_encode length_hex_encode del: set_simps)
qed

end
