(* ===== verification/Merkle.thy ===== *)
theory Merkle
  imports Prelude
begin

section \<open>merkle.rs: the Merkle tree of the point rail\<close>

text \<open>
  The tree library of \<^verbatim>\<open>src/src/merkle.rs\<close>. The Keccak256 of the \<^verbatim>\<open>sha3\<close> crate is the parameter
  \<open>keccak\<close>; a hasher that is updated twice and finalised hashes the concatenation. An
  array \<^verbatim>\<open>[u8; 32]\<close> is a byte list, compared lexicographically as Rust compares arrays. The
  loops keep the source's indices. The general facts about trees over any commutative pair
  function are in the locale \<open>pair_hash\<close>, interpreted on \<open>hash_pair\<close>.
\<close>

subsection \<open>Hashing\<close>

record merkle_tree =
  mt_root :: bytes
  mt_proofs :: "pubkey \<rightharpoonup> bytes list"

definition leaf_input :: "bytes \<Rightarrow> u64 \<Rightarrow> bytes" where
  "leaf_input authority points = authority @ u64_le points"

definition hash_leaf :: "(bytes \<Rightarrow> bytes) \<Rightarrow> bytes \<Rightarrow> u64 \<Rightarrow> bytes" where
  "hash_leaf keccak authority points = keccak (leaf_input authority points)"

definition pair_input :: "bytes \<Rightarrow> bytes \<Rightarrow> bytes" where
  "pair_input a b = (if a \<le> b then a @ b else b @ a)"

definition hash_pair :: "(bytes \<Rightarrow> bytes) \<Rightarrow> bytes \<Rightarrow> bytes \<Rightarrow> bytes" where
  "hash_pair keccak a b = keccak (pair_input a b)"

subsection \<open>Levels\<close>

function pair_up :: "('h \<Rightarrow> 'h \<Rightarrow> 'h) \<Rightarrow> 'h list \<Rightarrow> nat \<Rightarrow> 'h list" where
  \<comment> \<open>the inner \<open>while i < len\<close> loop, from index \<open>i\<close> on\<close>
  "pair_up pair prev i =
     (if i < length prev then
        (if i + 1 < length prev then pair (prev ! i) (prev ! (i + 1)) else prev ! i)
          # pair_up pair prev (i + 2)
      else [])"
  by pat_completeness auto
termination
  by (relation "measure (\<lambda>(pair, prev, i). length prev - i)") auto

declare pair_up.simps [simp del]

partial_function (option) level_loop ::
    "('h \<Rightarrow> 'h \<Rightarrow> 'h) \<Rightarrow> 'h list list \<Rightarrow> 'h list list option" where
  \<comment> \<open>the outer \<open>loop\<close>; \<open>None\<close> would be a loop that never breaks\<close>
  "level_loop pair levels =
     (let prev = last levels in
      if length prev = 1 then Some levels
      else level_loop pair (levels @ [pair_up pair prev 0]))"

subsection \<open>Proofs\<close>

fun proof_walk :: "'h list list \<Rightarrow> nat \<Rightarrow> 'h list" where
  \<comment> \<open>\<open>for level in &levels[..levels.len() - 1]\<close>\<close>
  "proof_walk [] idx = []"
| "proof_walk (level # levels) idx =
     (let sibling = (if idx mod 2 = 0 then idx + 1 else idx - 1) in
      (if sibling < length level then [level ! sibling] else [])
        @ proof_walk levels (idx div 2))"

fun insert_proofs ::
    "'h list list \<Rightarrow> nat \<Rightarrow> ('k \<times> 'a) list \<Rightarrow> ('k \<rightharpoonup> 'h list) \<Rightarrow> ('k \<rightharpoonup> 'h list)" where
  "insert_proofs levels i [] m = m"
| "insert_proofs levels i ((pk, _) # es) m =
     insert_proofs levels (Suc i) es (m(pk \<mapsto> proof_walk levels i))"

definition build_merkle_tree ::
    "(bytes \<Rightarrow> bytes) \<Rightarrow> (pubkey \<times> u64) list \<Rightarrow> merkle_tree option" where
  \<comment> \<open>the inner \<open>None\<close> case is the loop that never breaks: \<open>level_loop_returns\<close> excludes it\<close>
  "build_merkle_tree keccak entries =
     (if entries = [] then None
      else
        let leaves = map (\<lambda>(pk, pts). hash_leaf keccak pk pts) entries in
        if length leaves = 1 then
          Some \<lparr>mt_root = leaves ! 0, mt_proofs = [fst (entries ! 0) \<mapsto> []]\<rparr>
        else
          (case level_loop (hash_pair keccak) [leaves] of
             None \<Rightarrow> None
           | Some levels \<Rightarrow>
               Some \<lparr>mt_root = last levels ! 0,
                     mt_proofs = insert_proofs (butlast levels) 0 entries Map.empty\<rparr>))"

fun climb :: "('h \<Rightarrow> 'h \<Rightarrow> 'h) \<Rightarrow> 'h \<Rightarrow> 'h list \<Rightarrow> 'h" where
  "climb pair current [] = current"
| "climb pair current (element # pf) = climb pair (pair current element) pf"

definition verify_proof :: "(bytes \<Rightarrow> bytes) \<Rightarrow> bytes \<Rightarrow> bytes list \<Rightarrow> bytes \<Rightarrow> bool" where
  "verify_proof keccak leaf pf root \<longleftrightarrow> climb (hash_pair keccak) leaf pf = root"

subsection \<open>What a level holds\<close>

lemma length_pair_up: "length (pair_up pair prev i) = (length prev - i + 1) div 2"
proof (induction pair prev i rule: pair_up.induct)
  case (1 pair prev i)
  show ?case
  proof (cases "i < length prev")
    case True
    then have "length prev - i + 1 = (length prev - (i + 2) + 1) + 2 \<or> length prev - i = 1"
      by arith
    with True "1.IH" show ?thesis by (auto simp: pair_up.simps [of pair prev i])
  next
    case False
    then show ?thesis by (simp add: pair_up.simps [of pair prev i])
  qed
qed

lemma nth_pair_up:
  "k < length (pair_up pair prev i) \<Longrightarrow>
   pair_up pair prev i ! k =
     (if i + 2 * k + 1 < length prev then pair (prev ! (i + 2 * k)) (prev ! (i + 2 * k + 1))
      else prev ! (i + 2 * k))"
proof (induction pair prev i arbitrary: k rule: pair_up.induct)
  case (1 pair prev i)
  show ?case
  proof (cases "i < length prev")
    case False
    with "1.prems" show ?thesis by (simp add: pair_up.simps [of pair prev i])
  next
    case True
    show ?thesis
    proof (cases k)
      case 0
      with True show ?thesis by (simp add: pair_up.simps [of pair prev i])
    next
      case (Suc k')
      with True "1.prems" have "k' < length (pair_up pair prev (i + 2))"
        by (simp add: pair_up.simps [of pair prev i])
      with "1.IH" True Suc show ?thesis by (simp add: pair_up.simps [of pair prev i])
    qed
  qed
qed

text \<open>The levels as a total function of a nonempty bottom level.\<close>

function tower :: "('h \<Rightarrow> 'h \<Rightarrow> 'h) \<Rightarrow> 'h list \<Rightarrow> 'h list list" where
  "tower pair L = (if length L \<le> 1 then [L] else L # tower pair (pair_up pair L 0))"
  by pat_completeness auto
termination
  by (relation "measure (\<lambda>(pair, L). length L)") (auto simp: length_pair_up)

declare tower.simps [simp del]

lemma tower_nonempty [simp]: "tower pair L \<noteq> []"
  by (subst tower.simps) auto

lemma hd_tower [simp]: "hd (tower pair L) = L"
  by (subst tower.simps) auto

lemma level_loop_returns:
  "L \<noteq> [] \<Longrightarrow> level_loop pair (acc @ [L]) = Some (acc @ tower pair L)"
proof (induction pair L arbitrary: acc rule: tower.induct)
  case (1 pair L)
  show ?case
  proof (cases "length L \<le> 1")
    case True
    with "1.prems" have "length L = 1" by (cases L) auto
    then show ?thesis
      by (simp add: level_loop.simps [of pair "acc @ [L]"] tower.simps [of pair L])
  next
    case False
    then have "length (pair_up pair L 0) \<noteq> 0" by (simp add: length_pair_up)
    then have "pair_up pair L 0 \<noteq> []" by auto
    from "1.IH" [OF False this, of "acc @ [L]"] False show ?thesis
      by (simp add: level_loop.simps [of pair "acc @ [L]"] tower.simps [of pair L])
  qed
qed

lemma length_last_tower: "L \<noteq> [] \<Longrightarrow> length (last (tower pair L)) = 1"
proof (induction pair L rule: tower.induct)
  case (1 pair L)
  show ?case
  proof (cases "length L \<le> 1")
    case True
    then have "tower pair L = [L]" by (simp add: tower.simps [of pair L])
    with True "1.prems" show ?thesis by (cases L) auto
  next
    case False
    then have "length (pair_up pair L 0) \<noteq> 0" by (simp add: length_pair_up)
    then have "pair_up pair L 0 \<noteq> []" by auto
    from "1.IH" [OF False this] False show ?thesis by (simp add: tower.simps [of pair L])
  qed
qed

lemma length_tower_ge2: "2 \<le> length L \<Longrightarrow> 2 \<le> length (tower pair L)"
  using tower_nonempty [of pair "pair_up pair L 0"]
  by (subst tower.simps) (cases "tower pair (pair_up pair L 0)", auto)

lemma length_tower_bound: "L \<noteq> [] \<Longrightarrow> 2 ^ length (tower pair L) < 4 * length L"
proof (induction pair L rule: tower.induct)
  case (1 pair L)
  show ?case
  proof (cases "length L \<le> 1")
    case True
    then have "tower pair L = [L]" by (simp add: tower.simps [of pair L])
    with True "1.prems" show ?thesis by (cases L) auto
  next
    case False
    then have "length (pair_up pair L 0) \<noteq> 0" by (simp add: length_pair_up)
    then have "pair_up pair L 0 \<noteq> []" by auto
    from "1.IH" [OF False this] False
    have "2 ^ length (tower pair (pair_up pair L 0)) < 4 * ((length L + 1) div 2)"
      by (simp add: length_pair_up)
    moreover have "4 dvd (2 ^ length (tower pair (pair_up pair L 0)) :: nat) \<or> length L = 2"
      using length_tower_ge2 [of "pair_up pair L 0" pair] False
      by (auto simp: length_pair_up le_imp_power_dvd [of 2 _ "2::nat", simplified])
    ultimately have "2 * 2 ^ length (tower pair (pair_up pair L 0)) < 4 * length L"
      using False by (auto elim!: dvdE)
    with False show ?thesis by (simp add: tower.simps [of pair L])
  qed
qed

lemma length_proof_walk_le: "length (proof_walk levels i) \<le> length levels"
  by (induction levels i rule: proof_walk.induct) (auto simp: Let_def)

subsection \<open>Trees over a commutative pair function\<close>

locale pair_hash =
  fixes pair :: "'h \<Rightarrow> 'h \<Rightarrow> 'h"
  assumes pair_comm: "pair a b = pair b a"
begin

text \<open>One level: the node with its sibling, when it has one, gives the node above.\<close>

lemma step_up:
  assumes "i < length L" and "1 < length L"
  shows "climb pair (L ! i)
     (let sibling = (if i mod 2 = 0 then i + 1 else i - 1) in
      if sibling < length L then [L ! sibling] else []) = pair_up pair L 0 ! (i div 2)"
proof -
  have k: "i div 2 < length (pair_up pair L 0)" using assms by (simp add: length_pair_up)
  show ?thesis
  proof (cases "even i")
    case True
    then obtain j where "i = 2 * j" by (elim evenE)
    with assms k show ?thesis by (auto simp: nth_pair_up Let_def)
  next
    case False
    then obtain j where "i = 2 * j + 1" by (elim oddE)
    with assms k show ?thesis by (auto simp: nth_pair_up Let_def pair_comm)
  qed
qed

lemma climb_append: "climb pair x (p @ q) = climb pair (climb pair x p) q"
  by (induction p arbitrary: x) auto

text \<open>The walk from any leaf of the tower ends at its top.\<close>

lemma climb_tower:
  "i < length L \<Longrightarrow>
   climb pair (L ! i) (proof_walk (butlast (tower pair L)) i) = last (tower pair L) ! 0"
proof (induction "length L" arbitrary: L i rule: less_induct)
  case less
  show ?case
  proof (cases "length L \<le> 1")
    case True
    with less.prems have "i = 0" by simp
    with True show ?thesis by (simp add: tower.simps [of pair L])
  next
    case False
    let ?U = "pair_up pair L 0"
    have t: "tower pair L = L # tower pair ?U" using False by (simp add: tower.simps [of pair L])
    have "length ?U < length L" and "i div 2 < length ?U"
      using False less.prems by (auto simp: length_pair_up)
    then have up: "climb pair (?U ! (i div 2)) (proof_walk (butlast (tower pair ?U)) (i div 2))
        = last (tower pair ?U) ! 0"
      by (rule less.hyps)
    have "climb pair (L ! i) (proof_walk (L # butlast (tower pair ?U)) i)
        = climb pair (?U ! (i div 2)) (proof_walk (butlast (tower pair ?U)) (i div 2))"
      using step_up [OF less.prems] False by (simp add: climb_append Let_def)
    with up t show ?thesis by simp
  qed
qed

end

lemma pair_input_comm: "pair_input a b = pair_input b a"
  by (auto simp: pair_input_def)

lemma hash_pair_comm: "hash_pair keccak a b = hash_pair keccak b a"
  by (simp add: hash_pair_def pair_input_comm)

interpretation mk: pair_hash "hash_pair keccak" for keccak
  by unfold_locales (rule hash_pair_comm)

subsection \<open>What \<open>build_merkle_tree\<close> returns\<close>

abbreviation leaves_of :: "(bytes \<Rightarrow> bytes) \<Rightarrow> (pubkey \<times> u64) list \<Rightarrow> bytes list" where
  "leaves_of keccak entries \<equiv> map (\<lambda>(pk, pts). hash_leaf keccak pk pts) entries"

abbreviation tower_of :: "(bytes \<Rightarrow> bytes) \<Rightarrow> (pubkey \<times> u64) list \<Rightarrow> bytes list list" where
  "tower_of keccak entries \<equiv> tower (hash_pair keccak) (leaves_of keccak entries)"

lemma build_merkle_tree_empty [simp]: "build_merkle_tree keccak [] = None"
  by (simp add: build_merkle_tree_def)

text \<open>The single leaf shortcut agrees with the general path, so one equation covers both.\<close>

lemma build_merkle_tree_eq:
  assumes "entries \<noteq> []"
  shows "build_merkle_tree keccak entries =
    Some \<lparr>mt_root = last (tower_of keccak entries) ! 0,
          mt_proofs = insert_proofs (butlast (tower_of keccak entries)) 0 entries Map.empty\<rparr>"
proof (cases "length entries = 1")
  case True
  then obtain pk pts where e: "entries = [(pk, pts)]"
    by (cases entries) (auto simp: length_Suc_conv)
  show ?thesis
    by (simp add: build_merkle_tree_def e tower.simps [of _ "[hash_leaf keccak pk pts]"])
next
  case False
  with assms level_loop_returns [of "leaves_of keccak entries" "hash_pair keccak" "[]"]
  show ?thesis by (simp add: build_merkle_tree_def Let_def)
qed

lemma build_merkle_tree_None_iff [simp]: "build_merkle_tree keccak entries = None \<longleftrightarrow> entries = []"
  by (cases "entries = []") (auto simp: build_merkle_tree_eq)

lemma insert_proofs_notin:
  "pk \<notin> fst ` set es \<Longrightarrow> insert_proofs levels i es m pk = m pk"
  by (induction levels i es m rule: insert_proofs.induct) auto

lemma dom_insert_proofs: "dom (insert_proofs levels i es m) = dom m \<union> fst ` set es"
proof (induction es arbitrary: i m)
  case Nil
  then show ?case by simp
next
  case (Cons e es)
  then show ?case by (cases e) auto
qed

lemma insert_proofs_nth:
  "distinct (map fst es) \<Longrightarrow> k < length es \<Longrightarrow>
   insert_proofs levels i es m (fst (es ! k)) = Some (proof_walk levels (i + k))"
proof (induction es arbitrary: i m k)
  case Nil
  then show ?case by simp
next
  case (Cons e es)
  obtain pk v where e: "e = (pk, v)" by (cases e)
  show ?case
  proof (cases k)
    case 0
    with Cons.prems e show ?thesis by (simp add: insert_proofs_notin)
  next
    case (Suc k')
    with Cons.prems e show ?thesis by (simp add: Cons.IH)
  qed
qed

text \<open>Repeated keys: the last occurrence wins.\<close>

lemma insert_proofs_walk:
  "insert_proofs levels i es m pk = Some p \<Longrightarrow> m pk = Some p \<or> (\<exists>j. p = proof_walk levels j)"
proof (induction es arbitrary: i m)
  case Nil
  then show ?case by simp
next
  case (Cons e es)
  then show ?case by (cases e) (fastforce split: if_splits)
qed

lemma insert_proofs_append:
  "insert_proofs levels i (es @ es') m =
     insert_proofs levels (i + length es) es' (insert_proofs levels i es m)"
proof (induction es arbitrary: i m)
  case Nil
  then show ?case by simp
next
  case (Cons e es)
  then show ?case by (cases e) (simp del: fun_upd_apply)
qed

lemma insert_proofs_last:
  "pk \<notin> fst ` set es' \<Longrightarrow>
   insert_proofs levels i (es @ (pk, v) # es') m pk = Some (proof_walk levels (i + length es))"
  by (simp add: insert_proofs_append insert_proofs_notin)

lemma build_merkle_tree_Some:
  assumes "build_merkle_tree keccak entries = Some t"
  shows "entries \<noteq> []" and "mt_root t = last (tower_of keccak entries) ! 0"
    and "mt_proofs t = insert_proofs (butlast (tower_of keccak entries)) 0 entries Map.empty"
proof -
  show ne: "entries \<noteq> []" using assms by (cases entries) auto
  from assms build_merkle_tree_eq [OF ne, of keccak]
  have t: "t = \<lparr>mt_root = last (tower_of keccak entries) ! 0,
    mt_proofs = insert_proofs (butlast (tower_of keccak entries)) 0 entries Map.empty\<rparr>"
    by simp
  show "mt_root t = last (tower_of keccak entries) ! 0"
    and "mt_proofs t = insert_proofs (butlast (tower_of keccak entries)) 0 entries Map.empty"
    unfolding t by simp_all
qed

lemma build_merkle_tree_entry:
  assumes "distinct (map fst entries)" and "k < length entries"
    and "build_merkle_tree keccak entries = Some t"
  shows "mt_proofs t (fst (entries ! k)) =
      Some (proof_walk (butlast (tower_of keccak entries)) k)"
  unfolding build_merkle_tree_Some [OF assms(3)]
  using insert_proofs_nth [OF assms(1,2), of _ 0 Map.empty] by simp

lemma build_merkle_tree_keys:
  "build_merkle_tree keccak entries = Some t \<Longrightarrow> dom (mt_proofs t) = fst ` set entries"
  by (simp add: build_merkle_tree_Some dom_insert_proofs)

lemma proof_verifies_nth:
  assumes "k < length entries"
  shows "verify_proof keccak (hash_leaf keccak (fst (entries ! k)) (snd (entries ! k)))
     (proof_walk (butlast (tower_of keccak entries)) k) (last (tower_of keccak entries) ! 0)"
  using mk.climb_tower [of k "leaves_of keccak entries" keccak] assms
  by (simp add: verify_proof_def split_beta)

lemma entry_proof_verifies:
  assumes "distinct (map fst entries)" and "(pk, pts) \<in> set entries"
    and "build_merkle_tree keccak entries = Some t"
  obtains pf where "mt_proofs t pk = Some pf"
    and "verify_proof keccak (hash_leaf keccak pk pts) pf (mt_root t)"
proof -
  from assms(2) obtain k where k: "k < length entries" "entries ! k = (pk, pts)"
    by (auto simp: in_set_conv_nth)
  with proof_verifies_nth [OF k(1)] build_merkle_tree_entry [OF assms(1) k(1) assms(3)]
    build_merkle_tree_Some(2) [OF assms(3)] that
  show ?thesis by simp
qed

text \<open>
  C7: for entries with pairwise distinct authorities, the tree holds for every entry a proof
  that \<open>verify_proof\<close> accepts against the root, starting from the leaf of exactly that
  authority and those points. This is what makes every published amount claimable.
\<close>

theorem merkle_proofs_verify:
  assumes "distinct (map fst entries)" and "(pk, pts) \<in> set entries"
    and "build_merkle_tree keccak entries = Some t"
  shows "\<exists>pf. mt_proofs t pk = Some pf
    \<and> verify_proof keccak (hash_leaf keccak pk pts) pf (mt_root t)"
  using entry_proof_verifies [OF assms] by blast

subsection \<open>Soundness: what an accepted proof shows\<close>

text \<open>
  The strings hashed when the tree is built and when a proof is checked. Soundness is stated
  under the hypothesis that Keccak256 has no collision among these finitely many strings.
\<close>

definition level_inputs :: "bytes list \<Rightarrow> bytes list" where
  "level_inputs L = map (\<lambda>j. pair_input (L ! (2 * j)) (L ! (2 * j + 1))) [0..<length L div 2]"

definition tree_inputs :: "(bytes \<Rightarrow> bytes) \<Rightarrow> (pubkey \<times> u64) list \<Rightarrow> bytes list" where
  "tree_inputs keccak entries =
     map (\<lambda>(pk, pts). leaf_input pk pts) entries
       @ concat (map level_inputs (butlast (tower_of keccak entries)))"

fun proof_inputs :: "(bytes \<Rightarrow> bytes) \<Rightarrow> bytes \<Rightarrow> bytes list \<Rightarrow> bytes list" where
  "proof_inputs keccak current [] = []"
| "proof_inputs keccak current (element # pf) =
     pair_input current element # proof_inputs keccak (hash_pair keccak current element) pf"

text \<open>A node above the leaves is the hash of two nodes of the level below, or one of them.\<close>

lemma pair_up_node:
  assumes "x \<in> set (pair_up (hash_pair keccak) L 0)"
  shows "x \<in> set L \<or> (\<exists>a \<in> set L. \<exists>b \<in> set L. x = keccak (pair_input a b)
     \<and> pair_input a b \<in> set (level_inputs L))"
proof -
  from assms obtain k where k: "k < length (pair_up (hash_pair keccak) L 0)"
    and x: "x = pair_up (hash_pair keccak) L 0 ! k" by (auto simp: in_set_conv_nth)
  from k have "2 * k < length L" by (simp add: length_pair_up)
  moreover have "k \<in> {0..<length L div 2}" if "2 * k + 1 < length L" using that by auto
  ultimately show ?thesis
    using nth_pair_up [OF k] x
    by (cases "2 * k + 1 < length L") (fastforce simp: hash_pair_def level_inputs_def)+
qed

lemma tower_node:
  assumes "x \<in> set L'" and "L' \<in> set (tower (hash_pair keccak) L)"
  shows "x \<in> set L \<or> (\<exists>a b. a \<in> \<Union> (set ` set (tower (hash_pair keccak) L))
     \<and> b \<in> \<Union> (set ` set (tower (hash_pair keccak) L)) \<and> x = keccak (pair_input a b)
     \<and> pair_input a b \<in> set (concat (map level_inputs (butlast (tower (hash_pair keccak) L)))))"
  using assms
proof (induction "length L" arbitrary: L rule: less_induct)
  case less
  show ?case
  proof (cases "length L \<le> 1 \<or> L' = L")
    case True
    with less.prems show ?thesis by (auto simp: tower.simps [of _ L] split: if_splits)
  next
    case False
    let ?U = "pair_up (hash_pair keccak) L 0"
    have t: "tower (hash_pair keccak) L = L # tower (hash_pair keccak) ?U"
      using False by (simp add: tower.simps [of _ L])
    have "length ?U < length L" using False by (auto simp: length_pair_up)
    from less.hyps [OF this less.prems(1)] False less.prems(2) t
    have "x \<in> set ?U \<or> (\<exists>a b. a \<in> \<Union> (set ` set (tower (hash_pair keccak) ?U))
     \<and> b \<in> \<Union> (set ` set (tower (hash_pair keccak) ?U)) \<and> x = keccak (pair_input a b)
     \<and> pair_input a b \<in> set (concat (map level_inputs (butlast (tower (hash_pair keccak) ?U)))))"
      by auto
    with pair_up_node [of x keccak L] t show ?thesis by simp blast
  qed
qed

lemma length_pair_input: "length (pair_input a b) = length a + length b"
  by (simp add: pair_input_def)

lemma length_leaf_input: "length (leaf_input pk pts) = length pk + 8"
  by (simp add: leaf_input_def)

lemma leaf_input_inject:
  "length pk = length pk' \<Longrightarrow> leaf_input pk pts = leaf_input pk' pts' \<longleftrightarrow> pk = pk' \<and> pts = pts'"
  by (simp add: leaf_input_def)

lemma pair_input_member:
  assumes "length a = n" "length b = n" "length c = n" "length d = n"
    and "pair_input a b = pair_input c d"
  shows "a = c \<or> a = d"
  using assms by (auto simp: pair_input_def split: if_splits)

text \<open>The nodes of the tree over \<open>entries\<close>, and where each comes from.\<close>

definition tree_nodes :: "(bytes \<Rightarrow> bytes) \<Rightarrow> (pubkey \<times> u64) list \<Rightarrow> bytes set" where
  "tree_nodes keccak entries = \<Union> (set ` set (tower_of keccak entries))"

lemma tree_node_cases:
  assumes "x \<in> tree_nodes keccak entries"
  obtains (leaf) pk pts where "(pk, pts) \<in> set entries" "x = keccak (leaf_input pk pts)"
    | (pair) a b where "a \<in> tree_nodes keccak entries" "b \<in> tree_nodes keccak entries"
      "x = keccak (pair_input a b)" "pair_input a b \<in> set (tree_inputs keccak entries)"
proof -
  from assms obtain L' where "x \<in> set L'" "L' \<in> set (tower_of keccak entries)"
    by (auto simp: tree_nodes_def)
  from tower_node [OF this] leaf pair show ?thesis
    unfolding tree_nodes_def tree_inputs_def hash_leaf_def by fastforce
qed

lemma length_tree_node:
  assumes "\<And>x. length (keccak x) = 32" and "x \<in> tree_nodes keccak entries"
  shows "length x = 32"
  using assms(2) by (cases rule: tree_node_cases) (auto simp: assms(1))

text \<open>Walking a proof backwards never leaves the tree.\<close>

lemma climb_from_node:
  assumes len: "\<And>x. length (keccak x) = 32" and keys: "\<forall>e \<in> set entries. length (fst e) = 32"
    and inj: "inj_on keccak (set (tree_inputs keccak entries) \<union> S)"
  shows "set (proof_inputs keccak current pf) \<subseteq> S \<Longrightarrow> length current = 32 \<Longrightarrow>
    \<forall>e \<in> set pf. length e = 32 \<Longrightarrow>
    climb (hash_pair keccak) current pf \<in> tree_nodes keccak entries \<Longrightarrow>
    current \<in> tree_nodes keccak entries"
proof (induction pf arbitrary: current)
  case Nil
  then show ?case by simp
next
  case (Cons e pf)
  from Cons have up: "hash_pair keccak current e \<in> tree_nodes keccak entries"
    by (simp add: len hash_pair_def)
  have sub: "pair_input current e \<in> set (tree_inputs keccak entries) \<union> S"
    using Cons.prems by simp
  from up show ?case
  proof (cases rule: tree_node_cases)
    case (leaf pk pts)
    then have "leaf_input pk pts \<in> set (tree_inputs keccak entries) \<union> S"
      by (force simp: tree_inputs_def)
    with leaf sub inj have "pair_input current e = leaf_input pk pts"
      by (auto simp: hash_pair_def dest: inj_onD)
    then have "length (pair_input current e) = length (leaf_input pk pts)" by simp
    with Cons.prems keys leaf show ?thesis by (auto simp: length_pair_input length_leaf_input)
  next
    case (pair a b)
    with sub inj have "pair_input current e = pair_input a b"
      by (auto simp: hash_pair_def dest: inj_onD)
    with pair_input_member [of current 32 e a b] length_tree_node [OF len] pair Cons.prems
    have "current = a \<or> current = b" by simp
    with pair show ?thesis by auto
  qed
qed

lemma root_in_tree:
  assumes "build_merkle_tree keccak entries = Some t"
  shows "mt_root t \<in> tree_nodes keccak entries"
proof -
  note ne = build_merkle_tree_Some(1) [OF assms]
  have "mt_root t = last (tower_of keccak entries) ! 0" by (rule build_merkle_tree_Some(2) [OF assms])
  moreover have "length (last (tower_of keccak entries)) = 1"
    using ne by (intro length_last_tower) simp
  ultimately have "mt_root t \<in> set (last (tower_of keccak entries))" by simp
  moreover have "last (tower_of keccak entries) \<in> set (tower_of keccak entries)" by simp
  ultimately show ?thesis by (auto simp: tree_nodes_def)
qed

text \<open>A concrete digest and a concrete tree, to instantiate the parameters in witnesses.\<close>

definition checksum32 :: "bytes \<Rightarrow> bytes" where
  "checksum32 x = replicate 31 0 @ [sum_list x]"

definition sample_entries :: "(pubkey \<times> u64) list" where
  "sample_entries = [(replicate 32 1, 100), (replicate 32 2, 200), (replicate 32 3, 77)]"

lemma length_checksum32: "length (checksum32 x) = 32"
  by (simp add: checksum32_def)

lemma sample_entries_distinct: "distinct (map fst sample_entries)"
  by code_simp

theorem merkle_proofs_verify_witness:
  "\<exists>t pf. build_merkle_tree checksum32 sample_entries = Some t
    \<and> mt_proofs t (replicate 32 2) = Some pf
    \<and> verify_proof checksum32 (hash_leaf checksum32 (replicate 32 2) 200) pf (mt_root t)"
proof -
  obtain t where t: "build_merkle_tree checksum32 sample_entries = Some t"
    by (cases "build_merkle_tree checksum32 sample_entries") (auto simp: sample_entries_def)
  have "(replicate 32 2, 200) \<in> set sample_entries" by (simp add: sample_entries_def)
  from merkle_proofs_verify [OF sample_entries_distinct this t] t show ?thesis by blast
qed

text \<open>
  C8: an accepted proof shows membership. When Keccak256 has 32 byte digests and no collision
  among the strings hashed by the build and by the check, a proof of 32 byte elements that is
  accepted against the root, from the leaf of a 32 byte authority and some points, exists only
  for an entry of the tree: no other amount and no other authority can be claimed.
\<close>

theorem merkle_proof_sound:
  assumes "\<And>x. length (keccak x) = 32"
    and "inj_on keccak (set (tree_inputs keccak entries) \<union>
           insert (leaf_input pk pts) (set (proof_inputs keccak (hash_leaf keccak pk pts) pf)))"
    and "build_merkle_tree keccak entries = Some t"
    and "verify_proof keccak (hash_leaf keccak pk pts) pf (mt_root t)"
    and "length pk = 32" and "\<forall>e \<in> set entries. length (fst e) = 32"
    and "\<forall>e \<in> set pf. length e = 32"
  shows "(pk, pts) \<in> set entries"
proof -
  let ?leaf = "hash_leaf keccak pk pts"
  have node: "?leaf \<in> tree_nodes keccak entries"
    using root_in_tree [OF assms(3)] assms(4,7)
    by (intro climb_from_node [OF assms(1,6,2), of ?leaf pf])
      (auto simp: verify_proof_def hash_leaf_def assms(1))
  from node show ?thesis
  proof (cases rule: tree_node_cases)
    case (leaf pk' pts')
    then have "leaf_input pk' pts' \<in> set (tree_inputs keccak entries)"
      by (force simp: tree_inputs_def)
    with leaf assms(2) have "leaf_input pk pts = leaf_input pk' pts'"
      by (auto simp: hash_leaf_def dest: inj_onD)
    with leaf assms(5,6) show ?thesis by (auto simp: leaf_input_inject)
  next
    case (pair a b)
    with assms(2) have "leaf_input pk pts = pair_input a b"
      by (auto simp: hash_leaf_def dest: inj_onD)
    then have "length (leaf_input pk pts) = length (pair_input a b)" by simp
    with pair length_tree_node [OF assms(1)] assms(5) show ?thesis
      by (simp add: length_pair_input length_leaf_input)
  qed
qed

lemma sample_inputs:
  "distinct (map checksum32 (tree_inputs checksum32 sample_entries))"
  "set (leaf_input (replicate 32 3) 77 # proof_inputs checksum32
      (hash_leaf checksum32 (replicate 32 3) 77)
      [hash_pair checksum32 (hash_leaf checksum32 (replicate 32 1) 100)
         (hash_leaf checksum32 (replicate 32 2) 200)])
    \<subseteq> set (tree_inputs checksum32 sample_entries)"
  "verify_proof checksum32 (hash_leaf checksum32 (replicate 32 3) 77)
      [hash_pair checksum32 (hash_leaf checksum32 (replicate 32 1) 100)
         (hash_leaf checksum32 (replicate 32 2) 200)]
      (last (tower_of checksum32 sample_entries) ! 0)"
  by code_simp+

theorem merkle_proof_sound_witness: "(replicate 32 3, 77) \<in> set sample_entries"
proof -
  obtain t where t: "build_merkle_tree checksum32 sample_entries = Some t"
    by (cases "build_merkle_tree checksum32 sample_entries") (auto simp: sample_entries_def)
  have "inj_on checksum32 (set (tree_inputs checksum32 sample_entries))"
    using sample_inputs(1) by (simp add: distinct_map)
  then have inj: "inj_on checksum32 (set (tree_inputs checksum32 sample_entries) \<union>
      insert (leaf_input (replicate 32 3) 77) (set (proof_inputs checksum32
      (hash_leaf checksum32 (replicate 32 3) 77)
      [hash_pair checksum32 (hash_leaf checksum32 (replicate 32 1) 100)
         (hash_leaf checksum32 (replicate 32 2) 200)])))"
    by (rule inj_on_subset) (use sample_inputs(2) in auto)
  show ?thesis
    by (rule merkle_proof_sound [OF length_checksum32 inj t])
      (use sample_inputs(3) build_merkle_tree_Some(2) [OF t] in
        \<open>auto simp: sample_entries_def length_checksum32 hash_pair_def\<close>)
qed

text \<open>
  C33: the level loop returns for every nonempty list, and its proofs are logarithmic: a proof
  of a tree over \<open>n\<close> entries has fewer than \<open>1 + log2 n\<close> elements.
\<close>

theorem merkle_tree_total_logarithmic:
  assumes "entries \<noteq> []"
  shows "\<exists>levels t. level_loop (hash_pair keccak) [leaves_of keccak entries] = Some levels
    \<and> build_merkle_tree keccak entries = Some t \<and> dom (mt_proofs t) = fst ` set entries
    \<and> (\<forall>pk pf. mt_proofs t pk = Some pf \<longrightarrow> 2 ^ length pf < 2 * length entries)"
proof -
  let ?T = "tower_of keccak entries"
  have loop: "level_loop (hash_pair keccak) [leaves_of keccak entries] = Some ?T"
    using level_loop_returns [of "leaves_of keccak entries" "hash_pair keccak" "[]"] assms by simp
  obtain t where t: "build_merkle_tree keccak entries = Some t"
    using assms by (simp add: build_merkle_tree_eq)
  have bound: "2 ^ length pf < 2 * length entries" if "mt_proofs t pk = Some pf" for pk pf
  proof -
    from that have "insert_proofs (butlast ?T) 0 entries Map.empty pk = Some pf"
      by (simp add: build_merkle_tree_Some [OF t])
    then obtain i where "pf = proof_walk (butlast ?T) i"
      by (auto dest: insert_proofs_walk)
    then have "length pf \<le> length ?T - 1" using length_proof_walk_le [of "butlast ?T" i] by simp
    then have "(2::nat) ^ length pf \<le> 2 ^ (length ?T - 1)" by (simp add: power_increasing)
    moreover have "(2::nat) ^ length ?T < 4 * length entries"
      using length_tower_bound [of "leaves_of keccak entries" "hash_pair keccak"] assms by simp
    moreover have "(2::nat) ^ length ?T = 2 * 2 ^ (length ?T - 1)"
      using tower_nonempty [of "hash_pair keccak" "leaves_of keccak entries"]
      by (cases ?T) simp_all
    ultimately show ?thesis by linarith
  qed
  from loop t build_merkle_tree_keys [OF t] bound show ?thesis by blast
qed

theorem merkle_tree_total_logarithmic_witness:
  "sample_entries \<noteq> [] \<and> (\<exists>t. build_merkle_tree checksum32 sample_entries = Some t)"
proof -
  have ne: "sample_entries \<noteq> []" by (simp add: sample_entries_def)
  from merkle_tree_total_logarithmic [OF ne, of checksum32] ne show ?thesis by blast
qed

text \<open>
  An odd node is promoted as it is. The top of a three entry tree pairs the first two
  leaves and then that node with the bare third leaf; the third leaf is never hashed with
  itself, so its proof has a single element.
\<close>

theorem odd_node_promoted_unhashed:
  "map_option mt_root (build_merkle_tree keccak [(a, x), (b, y), (c, z)]) =
     Some (hash_pair keccak (hash_pair keccak (hash_leaf keccak a x) (hash_leaf keccak b y))
       (hash_leaf keccak c z))
   \<and> Option.bind (build_merkle_tree keccak [(a, x), (b, y), (c, z)]) (\<lambda>t. mt_proofs t c) =
     Some [hash_pair keccak (hash_leaf keccak a x) (hash_leaf keccak b y)]"
  by (simp add: build_merkle_tree_eq tower.simps pair_up.simps Let_def)

end
