(* ===== verification/Rewardz_Merkle.thy ===== *)
theory Rewardz_Merkle
  imports Merkle
begin

section \<open>rewardz\_merkle.rs: the Merkle tree of the settlement rail\<close>

text \<open>
  \<^verbatim>\<open>src/src/rewardz_merkle.rs\<close>: the same tree under its own type, with two assertions on the
  input that only a debug build checks. A failed \<open>debug_assert!\<close> is the \<open>Panic\<close> of the result.
\<close>

record rewardz_merkle_tree =
  rt_root :: bytes
  rt_proofs :: "pubkey \<rightharpoonup> bytes list"

definition hash_rewardz_leaf :: "(bytes \<Rightarrow> bytes) \<Rightarrow> bytes \<Rightarrow> u64 \<Rightarrow> bytes" where
  "hash_rewardz_leaf keccak authority cumulative_amount = hash_leaf keccak authority cumulative_amount"

fun all_new :: "pubkey list \<Rightarrow> pubkey set \<Rightarrow> bool" where
  \<comment> \<open>\<open>entries.iter().all(|(pk, _)| seen.insert(*pk))\<close>\<close>
  "all_new [] seen = True"
| "all_new (pk # pks) seen = (pk \<notin> seen \<and> all_new pks (insert pk seen))"

definition windows_sorted :: "pubkey list \<Rightarrow> bool" where
  \<comment> \<open>\<open>entries.windows(2).all(|w| w[0].0.to_bytes() <= w[1].0.to_bytes())\<close>\<close>
  "windows_sorted pks = list_all (\<lambda>(a, b). a \<le> b) (zip pks (tl pks))"

definition build_rewardz_tree ::
    "profile \<Rightarrow> (bytes \<Rightarrow> bytes) \<Rightarrow> (pubkey \<times> u64) list \<Rightarrow> fault + rewardz_merkle_tree option" where
  "build_rewardz_tree p keccak entries =
     (if entries = [] then Inr None
      else if p = Debug \<and> \<not> all_new (map fst entries) {} then
        Inl (Panic ''build_rewardz_tree: duplicate authorities in input'')
      else if p = Debug \<and> \<not> windows_sorted (map fst entries) then
        Inl (Panic ''build_rewardz_tree: input not sorted by authority bytes'')
      else
        let leaves = map (\<lambda>(pk, amount). hash_rewardz_leaf keccak pk amount) entries in
        if length leaves = 1 then
          Inr (Some \<lparr>rt_root = leaves ! 0, rt_proofs = [fst (entries ! 0) \<mapsto> []]\<rparr>)
        else
          (case level_loop (hash_pair keccak) [leaves] of
             None \<Rightarrow> Inr None
           | Some levels \<Rightarrow>
               Inr (Some \<lparr>rt_root = last levels ! 0,
                          rt_proofs = insert_proofs (butlast levels) 0 entries Map.empty\<rparr>)))"

definition verify_rewardz_proof :: "(bytes \<Rightarrow> bytes) \<Rightarrow> bytes \<Rightarrow> bytes list \<Rightarrow> bytes \<Rightarrow> bool" where
  "verify_rewardz_proof keccak leaf pf root = verify_proof keccak leaf pf root"

lemma hash_rewardz_leaf_eq [simp]: "hash_rewardz_leaf = hash_leaf"
  by (simp add: fun_eq_iff hash_rewardz_leaf_def)

lemma all_new_distinct: "all_new pks seen \<longleftrightarrow> distinct pks \<and> set pks \<inter> seen = {}"
  by (induction pks seen rule: all_new.induct) auto

lemma windows_sorted_iff: "windows_sorted pks \<longleftrightarrow> sorted pks"
proof (induction pks)
  case Nil
  then show ?case by (simp add: windows_sorted_def)
next
  case (Cons a pks)
  then show ?case
    by (cases pks) (auto simp: windows_sorted_def dest: order_trans)
qed

definition rewardz_tree_of :: "merkle_tree \<Rightarrow> rewardz_merkle_tree" where
  "rewardz_tree_of t = \<lparr>rt_root = mt_root t, rt_proofs = mt_proofs t\<rparr>"

lemma build_rewardz_tree_eq:
  "p = Debug \<longrightarrow> entries = [] \<or> distinct (map fst entries) \<and> sorted (map fst entries) \<Longrightarrow>
   build_rewardz_tree p keccak entries =
     Inr (map_option rewardz_tree_of (build_merkle_tree keccak entries))"
  by (auto simp: build_rewardz_tree_def build_merkle_tree_def rewardz_tree_of_def Let_def
      all_new_distinct windows_sorted_iff split: option.splits)

lemma build_rewardz_tree_Some:
  assumes "build_rewardz_tree p keccak entries = Inr (Some t)"
  obtains t' where "build_merkle_tree keccak entries = Some t'"
    and "rt_root t = mt_root t'" and "rt_proofs t = mt_proofs t'"
  using assms
  by (auto simp: build_rewardz_tree_def build_merkle_tree_def Let_def
      split: option.splits if_splits)

lemma build_rewardz_tree_None:
  "build_rewardz_tree p keccak entries = Inr None \<longleftrightarrow> entries = []"
proof (cases "entries = []")
  case False
  then have "build_merkle_tree keccak entries \<noteq> None" by simp
  with False show ?thesis
    by (auto simp: build_rewardz_tree_def build_merkle_tree_def Let_def
        split: option.splits if_splits)
qed (simp add: build_rewardz_tree_def)

lemma build_rewardz_tree_panics_iff:
  "(\<exists>msg. build_rewardz_tree p keccak entries = Inl msg) \<longleftrightarrow>
     p = Debug \<and> (\<not> distinct (map fst entries) \<or> \<not> sorted (map fst entries))"
  by (cases "entries = []")
    (auto simp: build_rewardz_tree_def Let_def all_new_distinct windows_sorted_iff split: option.splits)

text \<open>
  C32: the settlement rail builds the tree of the point rail. It returns a result exactly when
  the build is a release build or the authorities are distinct and sorted by their bytes, and
  the result is then the point tree over the same entries; in every other case the debug
  build panics.
\<close>

theorem rewardz_tree_is_point_tree:
  "build_rewardz_tree p keccak entries = Inr r \<longleftrightarrow>
     r = map_option rewardz_tree_of (build_merkle_tree keccak entries)
       \<and> (p = Release \<or> distinct (map fst entries) \<and> sorted (map fst entries))"
proof -
  have "p = Release \<longleftrightarrow> p \<noteq> Debug" by (cases p) auto
  then show ?thesis
    using build_rewardz_tree_eq [of p entries keccak] build_rewardz_tree_panics_iff [of p keccak entries]
    by (cases "build_rewardz_tree p keccak entries") auto
qed

end
