(* ===== verification/Chain.thy ===== *)
theory Chain
  imports Prelude
begin

section \<open>Chain: what the keeper uses of Solana and of the shared crate\<close>

text \<open>
  Instructions and transactions as the source builds them, and the code outside the
  repository as parameters: the record \<open>sdk\<close> for \<^verbatim>\<open>solana-sdk\<close>, \<^verbatim>\<open>sha3\<close> and \<^verbatim>\<open>bs58\<close>, the record
  \<open>mvp_api\<close> for the crate \<^verbatim>\<open>rewardz-mvp-api\<close>, and the record \<open>rpc\<close> for \<^verbatim>\<open>solana-client\<close>. An
  RPC call reads and may change a world of any type, so two calls in a row may answer
  differently. The keeper's own state is that world and the list of the transactions it
  handed to \<^verbatim>\<open>send_and_confirm_transaction\<close>, newest last, whatever came of them.
\<close>

subsection \<open>Instructions and transactions\<close>

record account_meta =
  am_pubkey :: pubkey
  am_is_signer :: bool
  am_is_writable :: bool

definition meta_new :: "pubkey \<Rightarrow> bool \<Rightarrow> account_meta" where
  "meta_new k signer = \<lparr>am_pubkey = k, am_is_signer = signer, am_is_writable = True\<rparr>"

definition meta_new_readonly :: "pubkey \<Rightarrow> bool \<Rightarrow> account_meta" where
  "meta_new_readonly k signer = \<lparr>am_pubkey = k, am_is_signer = signer, am_is_writable = False\<rparr>"

record instruction =
  ix_program_id :: pubkey
  ix_accounts :: "account_meta list"
  ix_data :: bytes

record transaction =
  tx_instructions :: "instruction list"
  tx_payer :: pubkey
  tx_blockhash :: bytes

subsection \<open>The crates outside the repository\<close>

record sdk =
  sdk_keccak :: "bytes \<Rightarrow> bytes"
  sdk_find_program_address :: "bytes list \<Rightarrow> pubkey \<Rightarrow> pubkey"
  sdk_pubkey_from_str :: "string \<Rightarrow> pubkey option"
  sdk_pubkey_to_string :: "pubkey \<Rightarrow> string"
  sdk_slot_hashes_id :: pubkey
  sdk_system_program_id :: pubkey
  sdk_bs58_encode :: "bytes \<Rightarrow> string"
  sdk_bs58_decode :: "string \<Rightarrow> bytes option"
  sdk_sign :: "pubkey \<Rightarrow> bytes \<Rightarrow> bytes"
    \<comment> \<open>the signature by the secret key of a public key\<close>
  sdk_verify :: "bytes \<Rightarrow> pubkey \<Rightarrow> bytes \<Rightarrow> bool"

record mvp_api =
  api_game_config_seed :: bytes
  api_game_round_seed :: bytes
  api_round_vault_seed :: bytes
  api_config_seed :: bytes
  api_rewardz_root_seed :: bytes
  api_ix_start_round :: u8
  api_ix_settle_round :: u8
  api_ix_set_rewardz_root :: u8
  api_min_game_players :: u32
  api_validate_account :: "bytes \<Rightarrow> u8 \<Rightarrow> nat \<Rightarrow> bool"
  api_parse_u64 :: "bytes \<Rightarrow> nat \<Rightarrow> u64 option"
  api_parse_pubkey :: "bytes \<Rightarrow> nat \<Rightarrow> pubkey option"
  api_gc_discriminator :: u8
  api_gc_len :: nat
  api_gc_off_current_round_id :: nat
  api_gc_off_intermission_slots :: nat
  api_gc_off_reward_mint :: nat
  api_gr_discriminator :: u8
  api_gr_len :: nat
  api_gr_off_round_id :: nat
  api_gr_off_end_slot :: nat
  api_gr_off_player_count :: nat
  api_gr_off_settled :: nat
  api_pd_discriminator :: u8
  api_pd_off_round_id :: nat
  api_rroot_len :: nat
  api_rroot_off_epoch :: nat
  api_rroot_read_u64 :: "bytes \<Rightarrow> nat \<Rightarrow> u64"
  api_rroot_read_root :: "bytes \<Rightarrow> bytes"
  api_rroot_read_deny_list_len :: "bytes \<Rightarrow> nat"
  api_rroot_read_deny_entry :: "bytes \<Rightarrow> u8 \<Rightarrow> bytes option"
  api_rewardz_deny_list_max :: nat

record 'w rpc =
  rpc_get_account :: "pubkey \<Rightarrow> 'w \<Rightarrow> (string + bytes) \<times> 'w"
    \<comment> \<open>an absent account is an error of this call\<close>
  rpc_get_account_opt :: "pubkey \<Rightarrow> 'w \<Rightarrow> (string + bytes option) \<times> 'w"
    \<comment> \<open>\<open>get_account_with_commitment\<close>: an absent account is \<open>None\<close>\<close>
  rpc_get_slot :: "'w \<Rightarrow> (string + u64) \<times> 'w"
  rpc_get_program_accounts :: "pubkey \<Rightarrow> (nat \<times> bytes) list \<Rightarrow> 'w \<Rightarrow> (string + pubkey list) \<times> 'w"
  rpc_get_latest_blockhash :: "'w \<Rightarrow> (string + bytes) \<times> 'w"
  rpc_send_and_confirm :: "transaction \<Rightarrow> 'w \<Rightarrow> (string + bytes) \<times> 'w"

subsection \<open>Calls\<close>

record 'w keeper =
  world :: 'w
  sent :: "transaction list"

definition call :: "('w \<Rightarrow> (string + 'a) \<times> 'w) \<Rightarrow> (('w, 'z) keeper_scheme, 'a) prog" where
  "call f s =
     (case f (world s) of
        (Inl e, w) \<Rightarrow> (Inl (Fault e), s\<lparr>world := w\<rparr>)
      | (Inr x, w) \<Rightarrow> (Inr x, s\<lparr>world := w\<rparr>))"

definition submit :: "'w rpc \<Rightarrow> transaction \<Rightarrow> (('w, 'z) keeper_scheme, bytes) prog" where
  "submit r tx s = call (rpc_send_and_confirm r tx) (s\<lparr>sent := sent s @ [tx]\<rparr>)"

definition send_instruction ::
    "'w rpc \<Rightarrow> pubkey \<Rightarrow> instruction \<Rightarrow> (('w, 'z) keeper_scheme, bytes) prog" where
  \<comment> \<open>the block that every publisher and settler repeats around its instruction\<close>
  "send_instruction r signer ix =
     andThen (call (rpc_get_latest_blockhash r)) (\<lambda>recent_blockhash.
       submit r \<lparr>tx_instructions = [ix], tx_payer = signer, tx_blockhash = recent_blockhash\<rparr>)"

subsection \<open>What a program may send\<close>

text \<open>
  \<open>sends_only P n m\<close>: the program hands at most \<open>n\<close> transactions over, every one with the
  property \<open>P\<close>, and keeps those sent before; \<open>sends n m\<close> counts only.
\<close>

definition sends_only ::
    "(transaction \<Rightarrow> bool) \<Rightarrow> nat \<Rightarrow> (('w, 'z) keeper_scheme, 'a) prog \<Rightarrow> bool" where
  "sends_only P n m \<longleftrightarrow>
     (\<forall>s. \<exists>txs. length txs \<le> n \<and> (\<forall>tx \<in> set txs. P tx) \<and> sent (snd (m s)) = sent s @ txs)"

abbreviation sends :: "nat \<Rightarrow> (('w, 'z) keeper_scheme, 'a) prog \<Rightarrow> bool" where
  "sends \<equiv> sends_only (\<lambda>_. True)"

named_theorems sends_intros \<open>how many transactions a program sends\<close>

lemmas [sends_intros] = TrueI

lemma sends_silent: "(\<And>s. sent (snd (m s)) = sent s) \<Longrightarrow> sends_only P n m"
  by (simp add: sends_only_def exI [of _ "[]"])

lemma sends_ret [sends_intros]: "sends_only P n (ret x)"
  by (rule sends_silent) (simp add: ret_def)

lemma sends_throw [sends_intros]: "sends_only P n (throw e)"
  by (rule sends_silent) (simp add: throw_def)

lemma sends_panic [sends_intros]: "sends_only P n (panic e)"
  by (rule sends_silent) (simp add: panic_def)

lemma sends_or_throw [sends_intros]: "sends_only P n (or_throw e r)"
  by (simp add: or_throw_def sends_intros split: option.splits)

lemma sends_or_panic [sends_intros]: "sends_only P n (or_panic e r)"
  by (simp add: or_panic_def sends_intros split: option.splits)

lemma sent_call [simp]: "sent (snd (call f s)) = sent s"
  by (auto simp: call_def split: prod.splits sum.splits)

lemma sends_call [sends_intros]: "sends_only P n (call f)"
  by (rule sends_silent) simp

lemma sent_attempt [simp]: "sent (snd (attempt m s)) = sent (snd (m s))"
  by (simp add: attempt_def split: prod.splits sum.splits fault.splits)

lemma sends_attempt [sends_intros]: "sends_only P n m \<Longrightarrow> sends_only P n (attempt m)"
  by (simp add: sends_only_def)

lemma sends_andThen:
  assumes "sends_only P a m" and "\<And>x. sends_only P b (k x)" and "a + b \<le> n"
  shows "sends_only P n (andThen m k)"
  unfolding sends_only_def
proof
  fix s
  obtain r t where m: "m s = (r, t)" by (cases "m s")
  obtain txs where 1: "length txs \<le> a" "\<forall>tx \<in> set txs. P tx" "sent t = sent s @ txs"
    using assms(1) m unfolding sends_only_def by (metis snd_conv)
  show "\<exists>txs. length txs \<le> n \<and> (\<forall>tx \<in> set txs. P tx) \<and> sent (snd (andThen m k s)) = sent s @ txs"
  proof (cases r)
    case (Inl e)
    with 1 m assms(3) show ?thesis by (auto simp: andThen_def)
  next
    case (Inr x)
    obtain tys where "length tys \<le> b" "\<forall>tx \<in> set tys. P tx" "sent (snd (k x t)) = sent t @ tys"
      using assms(2) unfolding sends_only_def by blast
    with 1 m Inr assms(3) show ?thesis
      by (intro exI [of _ "txs @ tys"]) (auto simp: andThen_def)
  qed
qed

lemma sends_andThen_reads [sends_intros]:
  "sends_only P 0 m \<Longrightarrow> (\<And>x. sends_only P n (k x)) \<Longrightarrow> sends_only P n (andThen m k)"
  by (rule sends_andThen [where a = 0 and b = n]) simp_all

lemma sends_andThen_last:
  "sends_only P n m \<Longrightarrow> (\<And>x. sends_only P 0 (k x)) \<Longrightarrow> sends_only P n (andThen m k)"
  by (rule sends_andThen [where a = n and b = 0]) simp_all

lemma sends_submit [sends_intros]: "P tx \<Longrightarrow> sends_only P (Suc 0) (submit r tx)"
  by (simp add: sends_only_def submit_def)

lemma sends_send_instruction [sends_intros]:
  "(\<And>bh. P \<lparr>tx_instructions = [ix], tx_payer = signer, tx_blockhash = bh\<rparr>) \<Longrightarrow>
   sends_only P (Suc 0) (send_instruction r signer ix)"
  unfolding send_instruction_def by (intro sends_intros)

lemma sends_case_option [sends_intros]:
  "sends_only P n a \<Longrightarrow> (\<And>x. sends_only P n (b x)) \<Longrightarrow>
   sends_only P n (case r of None \<Rightarrow> a | Some x \<Rightarrow> b x)"
  by (cases r) auto

lemma sends_case_sum [sends_intros]:
  "(\<And>x. sends_only P n (a x)) \<Longrightarrow> (\<And>x. sends_only P n (b x)) \<Longrightarrow>
   sends_only P n (case r of Inl x \<Rightarrow> a x | Inr x \<Rightarrow> b x)"
  by (cases r) auto

lemma sends_if [sends_intros]:
  "sends_only P n a \<Longrightarrow> sends_only P n b \<Longrightarrow> sends_only P n (if c then a else b)"
  by simp

lemma sends_let [sends_intros]: "(\<And>x. sends_only P n (f x)) \<Longrightarrow> sends_only P n (let x = a in f x)"
  by simp

lemma sends_mono: "sends_only P m x \<Longrightarrow> m \<le> n \<Longrightarrow> sends_only P n x"
  unfolding sends_only_def by (meson le_trans)

lemma sendsE:
  assumes "sends_only P n m"
  obtains txs where "length txs \<le> n" "\<forall>tx \<in> set txs. P tx" "sent (snd (m s)) = sent s @ txs"
  using assms unfolding sends_only_def by blast

subsection \<open>A concrete node\<close>

text \<open>
  An RPC node over a fixed set of accounts that confirms every transaction, and the identity
  text of a key, to instantiate the parameters in witnesses.
\<close>

definition open_rpc :: "(pubkey \<Rightarrow> bytes option) \<Rightarrow> 'w rpc" where
  "open_rpc accounts =
     \<lparr>rpc_get_account = (\<lambda>k w.
        ((case accounts k of Some d \<Rightarrow> Inr d | None \<Rightarrow> Inl ''AccountNotFound''), w)),
      rpc_get_account_opt = (\<lambda>k w. (Inr (accounts k), w)),
      rpc_get_slot = (\<lambda>w. (Inr 0, w)),
      rpc_get_program_accounts = (\<lambda>p f w. (Inr [], w)),
      rpc_get_latest_blockhash = (\<lambda>w. (Inr [1], w)),
      rpc_send_and_confirm = (\<lambda>tx w. (Inr [7], w))\<rparr>"

definition key_text :: "pubkey \<Rightarrow> string" where
  "key_text k = map (\<lambda>b. char_of (unat b)) k"

definition text_key :: "string \<Rightarrow> pubkey option" where
  "text_key s = (if length s = 32 then Some (map (\<lambda>c. word_of_nat (of_char c)) s) else None)"

definition text_bytes :: "string \<Rightarrow> bytes" where
  "text_bytes s = map (\<lambda>c. word_of_nat (of_char c)) s"

lemma unat_of_char [simp]: "unat (word_of_nat (of_char c) :: u8) = of_char c"
  by (simp add: unsigned_of_nat take_bit_nat_eq_self)

lemma key_text_text_key: "text_key s = Some k \<Longrightarrow> key_text k = s \<and> length k = 32"
  by (auto simp: text_key_def key_text_def o_def map_idI split: if_splits)

lemma open_rpc_send:
  "send_instruction (open_rpc accounts) signer ix s =
     (Inr [7], s\<lparr>sent := sent s @ [\<lparr>tx_instructions = [ix], tx_payer = signer, tx_blockhash = [1]\<rparr>]\<rparr>)"
  by (cases s) (simp add: send_instruction_def submit_def call_def open_rpc_def andThen_def)

definition sample_api :: mvp_api where
  "sample_api =
     \<lparr>api_game_config_seed = [10], api_game_round_seed = [11], api_round_vault_seed = [12],
      api_config_seed = [13], api_rewardz_root_seed = [14], api_ix_start_round = 20,
      api_ix_settle_round = 21, api_ix_set_rewardz_root = 22, api_min_game_players = 2,
      api_validate_account = (\<lambda>data d n. data \<noteq> [] \<and> hd data = d \<and> n \<le> length data),
      api_parse_u64 = read_u64_at, api_parse_pubkey = (\<lambda>data off. slice data off 32),
      api_gc_discriminator = 1, api_gc_len = 50, api_gc_off_current_round_id = 0,
      api_gc_off_intermission_slots = 8, api_gc_off_reward_mint = 16,
      api_gr_discriminator = 2, api_gr_len = 23, api_gr_off_round_id = 0, api_gr_off_end_slot = 8,
      api_gr_off_player_count = 16, api_gr_off_settled = 20,
      api_pd_discriminator = 3, api_pd_off_round_id = 0,
      api_rroot_len = 117, api_rroot_off_epoch = 34,
      api_rroot_read_u64 = (\<lambda>data off. word_of_nat (of_le_bytes (take 8 (drop off data)))),
      api_rroot_read_root = (\<lambda>data. take 32 (drop 2 data)),
      api_rroot_read_deny_list_len = (\<lambda>data. unat (data ! 50)),
      api_rroot_read_deny_entry = (\<lambda>data i. slice data (51 + 32 * unat i) 32),
      api_rewardz_deny_list_max = 2\<rparr>"

end
