(* ===== verification/Game_Loop.thy ===== *)
theory Game_Loop
  imports Chain Merkle
begin

section \<open>game\_loop.rs: the cranker of the mining rounds\<close>

text \<open>
  \<^verbatim>\<open>src/src/game_loop.rs\<close>: parsing of the game accounts, the guarded \<open>start_round\<close>, \<open>settle_round\<close>
  and one tick of the loop. Log lines are left out; everything that decides whether a
  transaction is sent, and what it holds, is here. The abstract decision \<open>game_decision\<close> is
  what a tick does on one consistent view of the chain, and the tick refines it.
\<close>

definition PREFIX_LEN :: nat where
  "PREFIX_LEN = 2"

definition token_2022_text :: string where
  "token_2022_text = ''TokenzQdBNbLqP5VEhdkAS6EPFLC1PHnBqCXEpPxuEb''"

definition token_2022_program_id :: "sdk \<Rightarrow> pubkey option" where
  \<comment> \<open>\<open>None\<close> would be the panic of the \<open>unwrap\<close>\<close>
  "token_2022_program_id sdk = sdk_pubkey_from_str sdk token_2022_text"

definition system_program_zero :: pubkey where
  "system_program_zero = replicate 32 0"

record game_config_state =
  gc_current_round_id :: u64
  gc_intermission_slots :: u64
  gc_reward_mint :: pubkey

record game_round_state =
  gr_round_id :: u64
  gr_end_slot :: u64
  gr_player_count :: u32
  gr_settled :: bool

subsection \<open>Addresses and account data\<close>

definition game_config_pda :: "sdk \<Rightarrow> mvp_api \<Rightarrow> pubkey \<Rightarrow> pubkey" where
  "game_config_pda sdk api program_id =
     sdk_find_program_address sdk [api_game_config_seed api] program_id"

definition game_round_pda :: "sdk \<Rightarrow> mvp_api \<Rightarrow> pubkey \<Rightarrow> u64 \<Rightarrow> pubkey" where
  "game_round_pda sdk api program_id round_id =
     sdk_find_program_address sdk [api_game_round_seed api, u64_le round_id] program_id"

definition round_vault_pda :: "sdk \<Rightarrow> mvp_api \<Rightarrow> pubkey \<Rightarrow> u64 \<Rightarrow> pubkey" where
  "round_vault_pda sdk api program_id round_id =
     sdk_find_program_address sdk [api_round_vault_seed api, u64_le round_id] program_id"

definition read_u32 :: "bytes \<Rightarrow> nat \<Rightarrow> u32 option" where
  "read_u32 data off = map_option (\<lambda>b. word_of_nat (of_le_bytes b)) (slice data off 4)"

definition parse_game_config :: "mvp_api \<Rightarrow> bytes \<Rightarrow> game_config_state option" where
  "parse_game_config api data =
     (if \<not> api_validate_account api data (api_gc_discriminator api) (api_gc_len api) then None
      else
        Option.bind (api_parse_u64 api data (PREFIX_LEN + api_gc_off_current_round_id api)) (\<lambda>r.
        Option.bind (api_parse_u64 api data (PREFIX_LEN + api_gc_off_intermission_slots api)) (\<lambda>i.
        Option.bind (api_parse_pubkey api data (PREFIX_LEN + api_gc_off_reward_mint api)) (\<lambda>m.
          Some \<lparr>gc_current_round_id = r, gc_intermission_slots = i, gc_reward_mint = m\<rparr>))))"

definition parse_game_round :: "mvp_api \<Rightarrow> bytes \<Rightarrow> game_round_state option" where
  "parse_game_round api data =
     (if \<not> api_validate_account api data (api_gr_discriminator api) (api_gr_len api) then None
      else
        Option.bind (api_parse_u64 api data (PREFIX_LEN + api_gr_off_round_id api)) (\<lambda>r.
        Option.bind (api_parse_u64 api data (PREFIX_LEN + api_gr_off_end_slot api)) (\<lambda>e.
        Option.bind (read_u32 data (PREFIX_LEN + api_gr_off_player_count api)) (\<lambda>p.
        Option.bind (slice data (PREFIX_LEN + api_gr_off_settled api) 1) (\<lambda>b.
          Some \<lparr>gr_round_id = r, gr_end_slot = e, gr_player_count = p, gr_settled = (b ! 0 \<noteq> 0)\<rparr>)))))"

definition load_game_config ::
    "sdk \<Rightarrow> mvp_api \<Rightarrow> 'w rpc \<Rightarrow> pubkey \<Rightarrow> (('w, 'z) keeper_scheme, game_config_state option) prog" where
  "load_game_config sdk api r program_id =
     andThen (attempt (call (rpc_get_account r (game_config_pda sdk api program_id)))) (\<lambda>acct.
       case acct of
         Inr data \<Rightarrow> ret (parse_game_config api data)
       | Inl e \<Rightarrow> ret None)"

definition load_game_round ::
    "sdk \<Rightarrow> mvp_api \<Rightarrow> 'w rpc \<Rightarrow> pubkey \<Rightarrow> u64
       \<Rightarrow> (('w, 'z) keeper_scheme, game_round_state option) prog" where
  "load_game_round sdk api r program_id round_id =
     andThen (attempt (call (rpc_get_account r (game_round_pda sdk api program_id round_id)))) (\<lambda>acct.
       case acct of
         Inr data \<Rightarrow> ret (parse_game_round api data)
       | Inl e \<Rightarrow> ret None)"

definition load_deployments ::
    "sdk \<Rightarrow> mvp_api \<Rightarrow> 'w rpc \<Rightarrow> pubkey \<Rightarrow> u64 \<Rightarrow> (('w, 'z) keeper_scheme, pubkey list) prog" where
  "load_deployments sdk api r program_id round_id =
     andThen (call (rpc_get_program_accounts r program_id
         [(0, [api_pd_discriminator api]),
          (PREFIX_LEN + api_pd_off_round_id api, u64_le round_id)])) (\<lambda>accounts.
       ret (sort_key (sdk_pubkey_to_string sdk) accounts))"

subsection \<open>start\_round and settle\_round\<close>

definition should_skip_start_round :: "game_round_state option \<Rightarrow> bool" where
  "should_skip_start_round round_state =
     (case round_state of Some round \<Rightarrow> \<not> gr_settled round | None \<Rightarrow> False)"

datatype start_round_outcome = Submitted bytes | Skipped u64

definition start_round_ix ::
    "sdk \<Rightarrow> mvp_api \<Rightarrow> pubkey \<Rightarrow> pubkey \<Rightarrow> pubkey \<Rightarrow> game_config_state \<Rightarrow> u64 \<Rightarrow> instruction" where
  "start_round_ix sdk api token signer program_id config next_round_id =
     (let previous_round =
        (if gc_current_round_id config > 0
         then game_round_pda sdk api program_id (gc_current_round_id config)
         else system_program_zero) in
      \<lparr>ix_program_id = program_id,
       ix_accounts =
         [meta_new signer True,
          meta_new (game_config_pda sdk api program_id) False,
          meta_new (game_round_pda sdk api program_id next_round_id) False,
          meta_new_readonly previous_round False,
          meta_new_readonly (gc_reward_mint config) False,
          meta_new (round_vault_pda sdk api program_id next_round_id) False,
          meta_new_readonly system_program_zero False,
          meta_new_readonly token False],
       ix_data = [api_ix_start_round api]\<rparr>)"

definition submit_start_round ::
    "sdk \<Rightarrow> mvp_api \<Rightarrow> 'w rpc \<Rightarrow> pubkey \<Rightarrow> pubkey \<Rightarrow> game_config_state \<Rightarrow> u64
       \<Rightarrow> (('w, 'z) keeper_scheme, bytes) prog" where
  "submit_start_round sdk api r signer program_id config next_round_id =
     andThen (or_panic ''unwrap'' (token_2022_program_id sdk)) (\<lambda>token.
     send_instruction r signer (start_round_ix sdk api token signer program_id config next_round_id))"

definition start_round ::
    "sdk \<Rightarrow> mvp_api \<Rightarrow> 'w rpc \<Rightarrow> pubkey \<Rightarrow> pubkey \<Rightarrow> game_config_state
       \<Rightarrow> (('w, 'z) keeper_scheme, start_round_outcome) prog" where
  "start_round sdk api r signer program_id config =
     andThen (or_throw ''round id overflow''
         (checked_add_u64 (gc_current_round_id config) 1)) (\<lambda>next_round_id.
     andThen (load_game_round sdk api r program_id next_round_id) (\<lambda>existing.
     if should_skip_start_round existing then ret (Skipped next_round_id)
     else
       andThen
         (if gc_current_round_id config > 0
          then load_game_round sdk api r program_id (gc_current_round_id config)
          else ret None) (\<lambda>previous.
       if should_skip_start_round previous then ret (Skipped next_round_id)
       else
         andThen (submit_start_round sdk api r signer program_id config next_round_id) (\<lambda>sig.
         ret (Submitted sig)))))"

definition settle_round_ix ::
    "sdk \<Rightarrow> mvp_api \<Rightarrow> pubkey \<Rightarrow> pubkey \<Rightarrow> pubkey \<Rightarrow> game_config_state \<Rightarrow> game_round_state \<Rightarrow> instruction" where
  "settle_round_ix sdk api token signer program_id config round =
     \<lparr>ix_program_id = program_id,
      ix_accounts =
        [meta_new_readonly signer True,
         meta_new (game_config_pda sdk api program_id) False,
         meta_new (game_round_pda sdk api program_id (gr_round_id round)) False,
         meta_new (gc_reward_mint config) False,
         meta_new (round_vault_pda sdk api program_id (gr_round_id round)) False,
         meta_new_readonly (sdk_slot_hashes_id sdk) False,
         meta_new_readonly token False],
      ix_data = [api_ix_settle_round api]\<rparr>"

definition settle_round ::
    "sdk \<Rightarrow> mvp_api \<Rightarrow> 'w rpc \<Rightarrow> pubkey \<Rightarrow> pubkey \<Rightarrow> game_config_state \<Rightarrow> game_round_state
       \<Rightarrow> (('w, 'z) keeper_scheme, bytes) prog" where
  "settle_round sdk api r signer program_id config round =
     andThen (load_deployments sdk api r program_id (gr_round_id round)) (\<lambda>deployments.
     andThen (or_panic ''unwrap'' (token_2022_program_id sdk)) (\<lambda>token.
     send_instruction r signer (settle_round_ix sdk api token signer program_id config round)))"

definition run_start_round_once ::
    "sdk \<Rightarrow> mvp_api \<Rightarrow> 'w rpc \<Rightarrow> pubkey \<Rightarrow> pubkey \<Rightarrow> (('w, 'z) keeper_scheme, start_round_outcome) prog" where
  "run_start_round_once sdk api r signer program_id =
     andThen (load_game_config sdk api r program_id) (\<lambda>game_config.
     andThen (or_throw ''GameConfig PDA not initialised'' game_config) (\<lambda>config.
     start_round sdk api r signer program_id config))"

definition tick_game_loop ::
    "sdk \<Rightarrow> mvp_api \<Rightarrow> 'w rpc \<Rightarrow> pubkey \<Rightarrow> pubkey \<Rightarrow> (('w, 'z) keeper_scheme, unit) prog" where
  "tick_game_loop sdk api r signer program_id =
     andThen (load_game_config sdk api r program_id) (\<lambda>game_config.
     case game_config of
       None \<Rightarrow> ret ()
     | Some config \<Rightarrow>
       andThen (call (rpc_get_slot r)) (\<lambda>current_slot.
       if gc_current_round_id config = 0 then
         andThen (start_round sdk api r signer program_id config) (\<lambda>_. ret ())
       else
         andThen (load_game_round sdk api r program_id (gc_current_round_id config)) (\<lambda>loaded.
         case loaded of
           None \<Rightarrow> ret ()
         | Some round \<Rightarrow>
           andThen (or_throw ''round crank slot overflow''
               (checked_add_u64 (gr_end_slot round) (gc_intermission_slots config))) (\<lambda>crank_slot.
           if gr_settled round then
             (if current_slot \<ge> crank_slot then
                andThen (start_round sdk api r signer program_id config) (\<lambda>_. ret ())
              else ret ())
           else if current_slot < crank_slot then ret ()
           else andThen (settle_round sdk api r signer program_id config round) (\<lambda>_. ret ())))))"

fun game_loop_cron ::
    "sdk \<Rightarrow> mvp_api \<Rightarrow> 'w rpc \<Rightarrow> pubkey \<Rightarrow> pubkey \<Rightarrow> nat \<Rightarrow> ('w, 'z) keeper_scheme \<Rightarrow> ('w, 'z) keeper_scheme" where
  \<comment> \<open>\<open>n\<close> turns of the cron's loop; an error of a tick is logged and the loop goes on\<close>
  "game_loop_cron sdk api r signer program_id 0 s = s"
| "game_loop_cron sdk api r signer program_id (Suc n) s =
     game_loop_cron sdk api r signer program_id n
       (snd (attempt (tick_game_loop sdk api r signer program_id) s))"

subsection \<open>At most one transaction a tick\<close>

lemma sends_load_game_config [sends_intros]: "sends n (load_game_config sdk api r program_id)"
  unfolding load_game_config_def by (intro sends_intros)

lemma sends_load_game_round [sends_intros]: "sends n (load_game_round sdk api r program_id i)"
  unfolding load_game_round_def by (intro sends_intros)

lemma sends_load_deployments [sends_intros]: "sends n (load_deployments sdk api r program_id i)"
  unfolding load_deployments_def by (intro sends_intros)

lemma sends_submit_start_round [sends_intros]:
  "sends (Suc 0) (submit_start_round sdk api r signer program_id config i)"
  unfolding submit_start_round_def by (intro sends_intros)

lemma sends_start_round [sends_intros]: "sends (Suc 0) (start_round sdk api r signer program_id config)"
  unfolding start_round_def
  by (intro sends_intros sends_andThen_last [where n = "Suc 0" and k = "\<lambda>sig. ret (Submitted sig)"])

lemma sends_settle_round [sends_intros]: "sends (Suc 0) (settle_round sdk api r signer program_id config round)"
  unfolding settle_round_def by (intro sends_intros)

lemma sends_discard: "sends n m \<Longrightarrow> sends n (andThen m (\<lambda>_. ret ()))"
  by (rule sends_andThen_last) (auto intro: sends_intros)

lemma sends_tick_game_loop: "sends (Suc 0) (tick_game_loop sdk api r signer program_id)"
  unfolding tick_game_loop_def
  by (intro sends_if sends_case_option sends_ret sends_discard sends_start_round sends_settle_round
      sends_andThen_reads sends_load_game_config sends_load_game_round sends_call sends_or_throw)

lemma game_loop_cron_sends:
  "\<exists>txs. length txs \<le> n \<and> sent (game_loop_cron sdk api r signer program_id n s) = sent s @ txs"
proof (induction n arbitrary: s)
  case 0
  then show ?case by simp
next
  case (Suc n)
  let ?s = "snd (attempt (tick_game_loop sdk api r signer program_id) s)"
  obtain txs where 1: "length txs \<le> Suc 0" "sent ?s = sent s @ txs"
    using sends_attempt [OF sends_tick_game_loop] unfolding sends_only_def by blast
  obtain tys where "length tys \<le> n"
    "sent (game_loop_cron sdk api r signer program_id n ?s) = sent ?s @ tys"
    using Suc by blast
  with 1 show ?case by (intro exI [of _ "txs @ tys"]) auto
qed

text \<open>
  A tick of the game loop hands at most one transaction over, whatever the RPC node
  answers and however the answers change between calls, and \<open>n\<close> turns of the cron hand over
  at most \<open>n\<close>; what was sent before stays.
\<close>

theorem tick_sends_at_most_one:
  "(\<exists>txs. length txs \<le> 1
      \<and> sent (snd (tick_game_loop sdk api r signer program_id s)) = sent s @ txs)
   \<and> (\<exists>txs. length txs \<le> n
      \<and> sent (game_loop_cron sdk api r signer program_id n s) = sent s @ txs)"
  using sends_tick_game_loop [of sdk api r signer program_id]
    game_loop_cron_sends [of n sdk api r signer program_id s]
  unfolding sends_only_def by auto

subsection \<open>The decision of a tick\<close>

text \<open>
  A view of the chain, and what it means that an RPC node serves it: reads answer from the
  view and change nothing. On a view the tick is a decision followed by one submission.
\<close>

record chain_view =
  cv_account :: "pubkey \<Rightarrow> bytes option"
  cv_slot :: u64
  cv_blockhash :: bytes
  cv_program_accounts :: "pubkey \<Rightarrow> (nat \<times> bytes) list \<Rightarrow> pubkey list"

definition serves :: "'w rpc \<Rightarrow> 'w \<Rightarrow> chain_view \<Rightarrow> bool" where
  "serves r w v \<longleftrightarrow>
     (\<forall>k. rpc_get_account r k w =
        ((case cv_account v k of Some d \<Rightarrow> Inr d | None \<Rightarrow> Inl ''AccountNotFound''), w))
     \<and> rpc_get_slot r w = (Inr (cv_slot v), w)
     \<and> rpc_get_latest_blockhash r w = (Inr (cv_blockhash v), w)
     \<and> (\<forall>p f. rpc_get_program_accounts r p f w = (Inr (cv_program_accounts v p f), w))"

definition viewed_config :: "sdk \<Rightarrow> mvp_api \<Rightarrow> pubkey \<Rightarrow> chain_view \<Rightarrow> game_config_state option" where
  "viewed_config sdk api program_id v =
     Option.bind (cv_account v (game_config_pda sdk api program_id)) (parse_game_config api)"

definition viewed_round ::
    "sdk \<Rightarrow> mvp_api \<Rightarrow> pubkey \<Rightarrow> chain_view \<Rightarrow> u64 \<Rightarrow> game_round_state option" where
  "viewed_round sdk api program_id v i =
     Option.bind (cv_account v (game_round_pda sdk api program_id i)) (parse_game_round api)"

datatype game_action =
    Idle
  | Start u64 game_config_state
  | Settle game_round_state game_config_state
  | Abort string

definition start_decision ::
    "(u64 \<Rightarrow> game_round_state option) \<Rightarrow> game_config_state \<Rightarrow> game_action" where
  "start_decision rounds c =
     (case checked_add_u64 (gc_current_round_id c) 1 of
        None \<Rightarrow> Abort ''round id overflow''
      | Some next \<Rightarrow>
          if should_skip_start_round (rounds next) then Idle
          else if gc_current_round_id c > 0
              \<and> should_skip_start_round (rounds (gc_current_round_id c)) then Idle
          else Start next c)"

definition game_decision ::
    "game_config_state option \<Rightarrow> (u64 \<Rightarrow> game_round_state option) \<Rightarrow> u64 \<Rightarrow> game_action" where
  "game_decision config rounds slot =
     (case config of
        None \<Rightarrow> Idle
      | Some c \<Rightarrow>
          if gc_current_round_id c = 0 then start_decision rounds c
          else
            (case rounds (gc_current_round_id c) of
               None \<Rightarrow> Idle
             | Some round \<Rightarrow>
                 (case checked_add_u64 (gr_end_slot round) (gc_intermission_slots c) of
                    None \<Rightarrow> Abort ''round crank slot overflow''
                  | Some crank_slot \<Rightarrow>
                      if gr_settled round then
                        (if slot \<ge> crank_slot then start_decision rounds c else Idle)
                      else if slot < crank_slot then Idle
                      else Settle round c)))"

definition perform ::
    "sdk \<Rightarrow> mvp_api \<Rightarrow> 'w rpc \<Rightarrow> pubkey \<Rightarrow> pubkey \<Rightarrow> pubkey \<Rightarrow> bytes \<Rightarrow> game_action
       \<Rightarrow> (('w, 'z) keeper_scheme, unit) prog" where
  "perform sdk api r token signer program_id blockhash action =
     (case action of
        Idle \<Rightarrow> ret ()
      | Abort e \<Rightarrow> throw e
      | Start next c \<Rightarrow>
          andThen (submit r \<lparr>tx_instructions = [start_round_ix sdk api token signer program_id c next],
            tx_payer = signer, tx_blockhash = blockhash\<rparr>) (\<lambda>_. ret ())
      | Settle round c \<Rightarrow>
          andThen (submit r \<lparr>tx_instructions = [settle_round_ix sdk api token signer program_id c round],
            tx_payer = signer, tx_blockhash = blockhash\<rparr>) (\<lambda>_. ret ()))"

lemma world_id [simp]: "s\<lparr>world := world s\<rparr> = s"
  by (cases s) simp

lemma served_config:
  "serves r (world s) v \<Longrightarrow>
   load_game_config sdk api r program_id s = (Inr (viewed_config sdk api program_id v), s)"
  by (simp add: load_game_config_def call_def serves_def viewed_config_def prog_simps
      split: option.splits)

lemma served_round:
  "serves r (world s) v \<Longrightarrow>
   load_game_round sdk api r program_id i s = (Inr (viewed_round sdk api program_id v i), s)"
  by (simp add: load_game_round_def call_def serves_def viewed_round_def prog_simps
      split: option.splits)

lemma served_send:
  "serves r (world s) v \<Longrightarrow>
   send_instruction r signer ix s =
     submit r \<lparr>tx_instructions = [ix], tx_payer = signer, tx_blockhash = cv_blockhash v\<rparr> s"
  by (simp add: send_instruction_def call_def serves_def prog_simps)

lemma served_deployments:
  "serves r (world s) v \<Longrightarrow>
   \<exists>ks. load_deployments sdk api r program_id i s = (Inr ks, s)"
  by (simp add: load_deployments_def call_def serves_def prog_simps)

lemma should_skip_None [simp]: "\<not> should_skip_start_round None"
  by (simp add: should_skip_start_round_def)

lemma should_skip_Some [simp]: "should_skip_start_round (Some round) \<longleftrightarrow> \<not> gr_settled round"
  by (simp add: should_skip_start_round_def)

lemma served_start_round:
  assumes "serves r (world s) v" and "token_2022_program_id sdk = Some token"
  shows "andThen (start_round sdk api r signer program_id c) (\<lambda>_. ret ()) s =
    perform sdk api r token signer program_id (cv_blockhash v)
      (start_decision (viewed_round sdk api program_id v) c) s"
  using assms
  by (auto simp: start_round_def start_decision_def perform_def submit_start_round_def
      served_round served_send prog_simps split: option.splits prod.splits sum.splits)

lemma served_settle_round:
  assumes "serves r (world s) v" and "token_2022_program_id sdk = Some token"
  shows "andThen (settle_round sdk api r signer program_id c round) (\<lambda>_. ret ()) s =
    perform sdk api r token signer program_id (cv_blockhash v) (Settle round c) s"
  using assms served_deployments [OF assms(1), of sdk api program_id "gr_round_id round"]
  by (auto simp: settle_round_def perform_def served_send prog_simps split: prod.splits sum.splits)

lemma tick_is_decision:
  assumes "serves r (world s) v" and "token_2022_program_id sdk = Some token"
  shows "tick_game_loop sdk api r signer program_id s =
    perform sdk api r token signer program_id (cv_blockhash v)
      (game_decision (viewed_config sdk api program_id v) (viewed_round sdk api program_id v)
        (cv_slot v)) s"
proof -
  have slot: "call (rpc_get_slot r) s = (Inr (cv_slot v), s)"
    using assms(1) by (simp add: call_def serves_def)
  show ?thesis
    using served_start_round [OF assms] served_settle_round [OF assms]
    by (auto simp: tick_game_loop_def game_decision_def served_config [OF assms(1)] slot
        served_round [OF assms(1)] andThen_def [of "load_game_config sdk api r program_id"]
        andThen_def [of "load_game_round sdk api r program_id i" for i]
        andThen_def [of "call (rpc_get_slot r)"] or_throw_def perform_def ret_def throw_def
        split: option.splits)
qed

text \<open>
  C12: on a node that serves one consistent view, a tick is exactly its decision on that view,
  carried out: nothing, one \<open>start_round\<close>, one \<open>settle_round\<close>, or the overflow error.
\<close>

theorem tick_refines_decision:
  assumes "serves r (world s) v" and "token_2022_program_id sdk = Some token"
  shows "tick_game_loop sdk api r signer program_id s =
    perform sdk api r token signer program_id (cv_blockhash v)
      (game_decision (viewed_config sdk api program_id v) (viewed_round sdk api program_id v)
        (cv_slot v)) s"
  using assms by (rule tick_is_decision)

subsection \<open>A concrete chain\<close>

text \<open>
  An account layout, a node that serves a view and records nothing else, and three views: an
  open round whose crank slot has passed, a round not yet over, and a settled round.
\<close>

definition sample_sdk :: sdk where
  "sample_sdk =
     \<lparr>sdk_keccak = checksum32,
      sdk_find_program_address = (\<lambda>seeds k. take 32 (concat seeds @ replicate 32 0)),
      sdk_pubkey_from_str = (\<lambda>s. if 32 \<le> length s then Some (map of_char (take 32 s)) else None),
      sdk_pubkey_to_string = map (\<lambda>b. char_of (unat b)),
      sdk_slot_hashes_id = replicate 32 6,
      sdk_system_program_id = replicate 32 0,
      sdk_bs58_encode = key_text, sdk_bs58_decode = Some \<circ> text_bytes,
      sdk_sign = (\<lambda>k m. k @ m), sdk_verify = (\<lambda>sig k m. sig = k @ m)\<rparr>"

definition view_rpc :: "chain_view \<Rightarrow> unit rpc" where
  "view_rpc v =
     \<lparr>rpc_get_account = (\<lambda>k w.
        ((case cv_account v k of Some d \<Rightarrow> Inr d | None \<Rightarrow> Inl ''AccountNotFound''), w)),
      rpc_get_account_opt = (\<lambda>k w. (Inr (cv_account v k), w)),
      rpc_get_slot = (\<lambda>w. (Inr (cv_slot v), w)),
      rpc_get_program_accounts = (\<lambda>p f w. (Inr (cv_program_accounts v p f), w)),
      rpc_get_latest_blockhash = (\<lambda>w. (Inr (cv_blockhash v), w)),
      rpc_send_and_confirm = (\<lambda>tx w. (Inr [7], w))\<rparr>"

lemma view_rpc_serves: "serves (view_rpc v) w v"
  by (simp add: serves_def view_rpc_def)

definition sample_config_data :: bytes where
  "sample_config_data = [1, 1] @ u64_le 5 @ u64_le 10 @ replicate 32 9"

definition sample_round_data :: "u64 \<Rightarrow> u8 \<Rightarrow> bytes" where
  "sample_round_data i settled = [2, 1] @ u64_le i @ u64_le 100 @ [3, 0, 0, 0] @ [settled]"

definition sample_view :: "u8 \<Rightarrow> u64 \<Rightarrow> chain_view" where
  "sample_view settled slot =
     \<lparr>cv_account = [game_config_pda sample_sdk sample_api [] \<mapsto> sample_config_data,
        game_round_pda sample_sdk sample_api [] 5 \<mapsto> sample_round_data 5 settled],
      cv_slot = slot, cv_blockhash = [1], cv_program_accounts = (\<lambda>p f. [])\<rparr>"

definition open_view :: chain_view where
  "open_view = (sample_view 1 115)\<lparr>cv_account :=
     (cv_account (sample_view 1 115))(game_round_pda sample_sdk sample_api [] 6 \<mapsto> sample_round_data 6 0)\<rparr>"

definition failing_rpc :: "unit rpc" where
  "failing_rpc = (view_rpc (sample_view 1 115))\<lparr>rpc_get_account := (\<lambda>k w. (Inl ''timeout'', w))\<rparr>"

definition sample_keeper :: "unit keeper" where
  "sample_keeper = \<lparr>world = (), sent = []\<rparr>"

definition sample_token :: pubkey where
  "sample_token = map of_char (take 32 token_2022_text)"

lemma sample_token: "token_2022_program_id sample_sdk = Some sample_token"
  by (simp add: token_2022_program_id_def sample_sdk_def sample_token_def token_2022_text_def)

definition sample_config :: game_config_state where
  "sample_config = \<lparr>gc_current_round_id = 5, gc_intermission_slots = 10, gc_reward_mint = replicate 32 9\<rparr>"

definition sample_round :: "u64 \<Rightarrow> bool \<Rightarrow> game_round_state" where
  "sample_round i settled =
     \<lparr>gr_round_id = i, gr_end_slot = 100, gr_player_count = 3, gr_settled = settled\<rparr>"

lemma sample_view_config:
  "viewed_config sample_sdk sample_api [] (sample_view 0 115) = Some sample_config"
  "viewed_config sample_sdk sample_api [] (sample_view 1 115) = Some sample_config"
  by code_simp+

lemma sample_view_rounds:
  "viewed_round sample_sdk sample_api [] (sample_view 0 115) 5 = Some (sample_round 5 False)"
  "viewed_round sample_sdk sample_api [] (sample_view 1 115) 5 = Some (sample_round 5 True)"
  "viewed_round sample_sdk sample_api [] (sample_view 1 115) 6 = None"
  "parse_game_round sample_api (sample_round_data 6 0) = Some (sample_round 6 False)"
  by code_simp+

lemma sample_next: "checked_add_u64 5 1 = Some 6"
  by (simp add: checked_add_u64_def)

lemma sample_crank:
  "checked_add_u64 (gr_end_slot (sample_round i b)) (gc_intermission_slots sample_config) = Some 110"
  by (simp add: checked_add_u64_def sample_config_def sample_round_def)

lemma sample_current: "gc_current_round_id sample_config = 5"
  by (simp add: sample_config_def)

lemma sample_settled: "gr_settled (sample_round i b) = b"
  by (simp add: sample_round_def)

lemma sample_slot: "cv_slot (sample_view b t) = t"
  by (simp add: sample_view_def)

lemma sample_decisions:
  "game_decision (viewed_config sample_sdk sample_api [] (sample_view 0 115))
     (viewed_round sample_sdk sample_api [] (sample_view 0 115)) 115
     = Settle (sample_round 5 False) sample_config"
  "game_decision (viewed_config sample_sdk sample_api [] (sample_view 1 115))
     (viewed_round sample_sdk sample_api [] (sample_view 1 115)) 115
     = Start 6 sample_config"
  by (simp_all add: game_decision_def start_decision_def sample_view_config sample_view_rounds
      sample_next sample_crank sample_current sample_settled)

theorem tick_refines_decision_witness:
  "tick_game_loop sample_sdk sample_api (view_rpc (sample_view 0 115)) (replicate 32 8) [] sample_keeper =
     perform sample_sdk sample_api (view_rpc (sample_view 0 115)) sample_token (replicate 32 8) []
       (cv_blockhash (sample_view 0 115)) (Settle (sample_round 5 False) sample_config) sample_keeper"
  using tick_refines_decision [OF view_rpc_serves sample_token,
        where s = sample_keeper and api = sample_api and v = "sample_view 0 115"
          and signer = "replicate 32 8" and program_id = "[]"]
  by (simp add: sample_slot sample_decisions)

subsection \<open>What the decision allows\<close>

lemma start_decision_Start:
  "start_decision rounds c = Start n c' \<longleftrightarrow>
     c' = c \<and> checked_add_u64 (gc_current_round_id c) 1 = Some n
     \<and> \<not> should_skip_start_round (rounds n)
     \<and> (gc_current_round_id c > 0 \<longrightarrow> \<not> should_skip_start_round (rounds (gc_current_round_id c)))"
  by (auto simp: start_decision_def split: option.splits)

lemma start_decision_not_Settle [simp]: "start_decision rounds c \<noteq> Settle round c'"
  by (auto simp: start_decision_def split: option.splits)

lemma game_decision_Settle:
  "game_decision config rounds slot = Settle round c \<longleftrightarrow>
     config = Some c \<and> gc_current_round_id c \<noteq> 0 \<and> rounds (gc_current_round_id c) = Some round
     \<and> \<not> gr_settled round
     \<and> (\<exists>crank. checked_add_u64 (gr_end_slot round) (gc_intermission_slots c) = Some crank \<and> crank \<le> slot)"
  by (auto simp: game_decision_def split: option.splits)

lemma game_decision_Start:
  "game_decision config rounds slot = Start n c \<longleftrightarrow>
     config = Some c \<and> start_decision rounds c = Start n c
     \<and> (gc_current_round_id c = 0
        \<or> (\<exists>round crank. rounds (gc_current_round_id c) = Some round \<and> gr_settled round
            \<and> checked_add_u64 (gr_end_slot round) (gc_intermission_slots c) = Some crank \<and> crank \<le> slot))"
  by (auto simp: game_decision_def start_decision_Start split: option.splits)

lemma sent_submit_then: "sent (snd (andThen (submit r tx) (\<lambda>_. ret ()) s)) = sent s @ [tx]"
  by (auto simp: submit_def andThen_def ret_def call_def split: prod.splits sum.splits)

lemma perform_sends:
  assumes "sent (snd (perform sdk api r token signer program_id bh action s)) \<noteq> sent s"
  obtains n c where "action = Start n c"
      "sent (snd (perform sdk api r token signer program_id bh action s)) = sent s @
        [\<lparr>tx_instructions = [start_round_ix sdk api token signer program_id c n],
          tx_payer = signer, tx_blockhash = bh\<rparr>]"
    | round c where "action = Settle round c"
      "sent (snd (perform sdk api r token signer program_id bh action s)) = sent s @
        [\<lparr>tx_instructions = [settle_round_ix sdk api token signer program_id c round],
          tx_payer = signer, tx_blockhash = bh\<rparr>]"
  using assms that
  by (cases action) (auto simp: perform_def sent_submit_then ret_def throw_def)

text \<open>
  Every transaction of a tick on a consistent view is justified by that view. A
  \<open>settle_round\<close> is sent only for the current round, unsettled, at or after the crank slot
  \<open>end_slot + intermission_slots\<close>; a \<open>start_round\<close> only for the round after the current one,
  when that round is not already open, and either there is no current round or it is settled
  and its crank slot has passed.
\<close>

theorem tick_transaction_justified:
  assumes "serves r (world s) v" and "token_2022_program_id sdk = Some token"
    and "sent (snd (tick_game_loop sdk api r signer program_id s)) = sent s @ [tx]"
  shows "\<exists>c. viewed_config sdk api program_id v = Some c \<and>
    ((\<exists>round. viewed_round sdk api program_id v (gc_current_round_id c) = Some round
        \<and> gc_current_round_id c \<noteq> 0 \<and> \<not> gr_settled round
        \<and> unat (gr_end_slot round) + unat (gc_intermission_slots c) \<le> unat (cv_slot v)
        \<and> tx_instructions tx = [settle_round_ix sdk api token signer program_id c round])
     \<or> (\<exists>n. unat n = unat (gc_current_round_id c) + 1
        \<and> \<not> should_skip_start_round (viewed_round sdk api program_id v n)
        \<and> (gc_current_round_id c = 0 \<or>
            (\<exists>round. viewed_round sdk api program_id v (gc_current_round_id c) = Some round
               \<and> gr_settled round
               \<and> unat (gr_end_slot round) + unat (gc_intermission_slots c) \<le> unat (cv_slot v)))
        \<and> tx_instructions tx = [start_round_ix sdk api token signer program_id c n]))"
proof -
  let ?act = "game_decision (viewed_config sdk api program_id v)
    (viewed_round sdk api program_id v) (cv_slot v)"
  note tick = tick_is_decision [OF assms(1,2)]
  have le: "unat a + unat b \<le> unat c" if "checked_add_u64 a b = Some d" "d \<le> c" for a b c d
    using that by (simp add: word_le_nat_alt checked_add_u64_unat)
  have "sent (snd (perform sdk api r token signer program_id (cv_blockhash v) ?act s)) \<noteq> sent s"
    using assms(3) tick [of api signer program_id] by simp
  then show ?thesis
  proof (cases rule: perform_sends)
    case (1 n c)
    with assms(3) tick [of api signer program_id]
    have "tx_instructions tx = [start_round_ix sdk api token signer program_id c n]" by simp
    moreover have "unat n = unat (gc_current_round_id c) + 1"
      using 1(1) by (auto simp: game_decision_Start start_decision_Start dest: checked_add_u64_unat)
    ultimately show ?thesis
      using 1(1) le by (auto simp: game_decision_Start start_decision_Start)
  next
    case (2 round c)
    with assms(3) tick [of api signer program_id]
    have "tx_instructions tx = [settle_round_ix sdk api token signer program_id c round]" by simp
    with 2(1) le show ?thesis by (auto simp: game_decision_Settle)
  qed
qed

lemma sample_tick:
  "sent (snd (tick_game_loop sample_sdk sample_api (view_rpc (sample_view 0 115)) (replicate 32 8) []
     sample_keeper)) = sent sample_keeper @
   [\<lparr>tx_instructions = [settle_round_ix sample_sdk sample_api sample_token (replicate 32 8) []
       sample_config (sample_round 5 False)],
     tx_payer = replicate 32 8, tx_blockhash = cv_blockhash (sample_view 0 115)\<rparr>]"
proof -
  have "tick_game_loop sample_sdk sample_api (view_rpc (sample_view 0 115)) (replicate 32 8) [] sample_keeper =
    perform sample_sdk sample_api (view_rpc (sample_view 0 115)) sample_token (replicate 32 8) []
      (cv_blockhash (sample_view 0 115)) (Settle (sample_round 5 False) sample_config) sample_keeper"
    using tick_is_decision [OF view_rpc_serves sample_token,
        where s = sample_keeper and api = sample_api and v = "sample_view 0 115"
          and signer = "replicate 32 8" and program_id = "[]"]
    by (simp only: sample_slot sample_decisions)
  then show ?thesis
    by (simp only: perform_def game_action.case sent_submit_then)
qed

theorem tick_transaction_justified_witness:
  "\<exists>c tx. viewed_config sample_sdk sample_api [] (sample_view 0 115) = Some c
    \<and> sent (snd (tick_game_loop sample_sdk sample_api (view_rpc (sample_view 0 115)) (replicate 32 8) []
         sample_keeper)) = [tx]"
  using tick_transaction_justified [OF view_rpc_serves sample_token sample_tick] sample_tick
  by (auto simp: sample_keeper_def)

text \<open>
  \<open>start_round\<close> is idempotent once its round is visible: when the account of the next
  round reads as an open round, the call reports \<open>Skipped\<close> with that round and sends nothing,
  whatever the rest of the chain looks like.
\<close>

theorem start_round_idempotent:
  assumes "checked_add_u64 (gc_current_round_id c) 1 = Some n"
    and "rpc_get_account r (game_round_pda sdk api program_id n) (world s) = (Inr data, w)"
    and "parse_game_round api data = Some round" and "\<not> gr_settled round"
  shows "start_round sdk api r signer program_id c s = (Inr (Skipped n), s\<lparr>world := w\<rparr>)"
  using assms
  by (simp add: start_round_def load_game_round_def call_def prog_simps)

theorem start_round_idempotent_witness:
  "start_round sample_sdk sample_api (view_rpc open_view) (replicate 32 8) [] sample_config sample_keeper =
     (Inr (Skipped 6), sample_keeper\<lparr>world := ()\<rparr>)"
proof (rule start_round_idempotent)
  show "checked_add_u64 (gc_current_round_id sample_config) 1 = Some 6"
    by (simp add: sample_current sample_next)
  show "rpc_get_account (view_rpc open_view) (game_round_pda sample_sdk sample_api [] 6)
      (world sample_keeper) = (Inr (sample_round_data 6 0), ())"
    by (simp add: view_rpc_def open_view_def)
  show "parse_game_round sample_api (sample_round_data 6 0) = Some (sample_round 6 False)"
    by (rule sample_view_rounds)
  show "\<not> gr_settled (sample_round 6 False)" by (simp add: sample_settled)
qed

text \<open>
  The guard reads an RPC failure as an absent account. When the account reads fail, the
  guard does not fire and the transaction is sent even though the round may be open on chain:
  the no-op contract of a repeated bootstrap holds only while reads succeed.
\<close>

theorem start_round_unguarded_on_rpc_failure:
  assumes "checked_add_u64 (gc_current_round_id c) 1 = Some n"
    and "\<And>k. rpc_get_account r k (world s) = (Inl e, world s)"
    and "rpc_get_latest_blockhash r (world s) = (Inr bh, world s)"
    and "token_2022_program_id sdk = Some token"
  shows "sent (snd (start_round sdk api r signer program_id c s)) = sent s @
    [\<lparr>tx_instructions = [start_round_ix sdk api token signer program_id c n],
      tx_payer = signer, tx_blockhash = bh\<rparr>]"
  using assms
  by (auto simp: start_round_def load_game_round_def submit_start_round_def send_instruction_def
      submit_def call_def prog_simps split: prod.splits sum.splits)

theorem start_round_unguarded_on_rpc_failure_witness:
  "\<exists>tx. sent (snd (start_round sample_sdk sample_api failing_rpc (replicate 32 8) [] sample_config
     sample_keeper)) = [tx]"
proof -
  have "checked_add_u64 (gc_current_round_id sample_config) 1 = Some 6"
    by (simp add: sample_current sample_next)
  moreover have "rpc_get_account failing_rpc k (world sample_keeper) = (Inl ''timeout'', world sample_keeper)" for k
    by (simp add: failing_rpc_def)
  moreover have "rpc_get_latest_blockhash failing_rpc (world sample_keeper) = (Inr [1], world sample_keeper)"
    by (simp add: failing_rpc_def view_rpc_def sample_view_def)
  ultimately show ?thesis
    using start_round_unguarded_on_rpc_failure [of sample_config 6 failing_rpc sample_keeper "''timeout''"
        "[1]" sample_sdk sample_token sample_api "replicate 32 8" "[]"] sample_token
    by (simp add: sample_keeper_def)
qed



end
