(* ===== verification/Float64.thy ===== *)
theory Float64
  imports Prelude Complex_Main "HOL-Library.Log_Nat"
begin

section \<open>Float64: the \<open>f64\<close> of the source and the \<open>float8\<close> of its SQL\<close>

text \<open>
  Binary floating point as the scores of the league use it: a finite value is a rational, every
  operation is the exact one followed by rounding to 53 significant bits, ties to even, with
  gradual underflow and with overflow to infinity. The two zeros are one value, and so are all
  the NaNs. The laws that the scores need of the rounding are those of the locale \<open>rounding\<close>.
\<close>

subsection \<open>Rounding a rational to 53 bits\<close>

definition floor_log2 :: "rat \<Rightarrow> int" where
  "floor_log2 x =
     (let (p, q) = quotient_of x; d = bitlen p - bitlen q in
      if 2 powi d \<le> x then d else d - 1)"

definition round_half_even :: "rat \<Rightarrow> int" where
  "round_half_even x =
     (let f = \<lfloor>x\<rfloor>; r = x - of_int f in
      if r < 1 / 2 then f else if r > 1 / 2 then f + 1 else if even f then f else f + 1)"

definition ulp_exponent :: "rat \<Rightarrow> int" where
  "ulp_exponent x = max (- 1074) (floor_log2 x - 52)"

definition fl_pos :: "rat \<Rightarrow> rat" where
  "fl_pos x =
     (if x = 0 then 0
      else of_int (round_half_even (x / 2 powi (ulp_exponent x))) * 2 powi (ulp_exponent x))"

definition fl :: "rat \<Rightarrow> rat" where
  "fl x = (if x < 0 then - fl_pos (- x) else fl_pos x)"

lemma floor_log2_bounds:
  assumes "0 < x"
  shows "2 powi floor_log2 x \<le> x" and "x < 2 powi (floor_log2 x + 1)"
proof -
  obtain p q where pq: "quotient_of x = (p, q)" by (cases "quotient_of x")
  then have q: "0 < q" and x: "x = of_int p / of_int q"
    by (auto simp: quotient_of_denom_pos quotient_of_div)
  with assms have p: "0 < p" by (simp add: zero_less_divide_iff)
  have pow: "(of_int (2 ^ nat n) :: rat) = 2 powi n" if "0 \<le> n" for n
    using that by (simp add: power_int_def)
  have low: "(2 :: rat) powi (bitlen a - 1) \<le> of_int a" and up: "of_int a < (2 :: rat) powi bitlen a"
    if "0 < a" for a
  proof -
    have "0 \<le> bitlen a - 1" using that bitlen_ge_iff_power [of 1 a] by simp
    then have "(of_int (2 ^ nat (bitlen a - 1)) :: rat) = 2 powi (bitlen a - 1)"
      "(of_int (2 ^ nat (bitlen a)) :: rat) = 2 powi bitlen a" by (intro pow; simp)+
    with bitlen_bounds [OF that]
    show "(2 :: rat) powi (bitlen a - 1) \<le> of_int a" and "of_int a < (2 :: rat) powi bitlen a"
      by (metis of_int_le_iff, metis of_int_less_iff)
  qed
  let ?d = "bitlen p - bitlen q"
  have "x * of_int q = of_int p" using q x by simp
  have "2 powi (?d - 1) \<le> x"
  proof -
    have "2 powi (?d - 1) = 2 powi (bitlen p - 1) / (2 :: rat) powi bitlen q"
      by (simp add: power_int_diff)
    also have "\<dots> \<le> of_int p / of_int q"
      using low [OF p] up [OF q] q p by (intro frac_le) auto
    finally show ?thesis using x by simp
  qed
  moreover have "x < 2 powi (?d + 1)"
  proof -
    have "of_int p / of_int q < 2 powi bitlen p / (2 :: rat) powi (bitlen q - 1)"
      using low [OF q] up [OF p] q p by (intro frac_less) auto
    also have "\<dots> = 2 powi (?d + 1)" by (simp add: power_int_diff power_int_add)
    finally show ?thesis using x by simp
  qed
  ultimately show "2 powi floor_log2 x \<le> x" and "x < 2 powi (floor_log2 x + 1)"
    by (auto simp: floor_log2_def pq Let_def)
qed

lemma powi_mono: "a \<le> b \<Longrightarrow> (2 :: rat) powi a \<le> 2 powi b"
  by (rule power_int_increasing) auto

lemma powi_less_iff: "(2 :: rat) powi a < 2 powi b \<longleftrightarrow> a < b"
proof (cases "a < b")
  case True
  then show ?thesis by (simp add: power_int_strict_increasing)
next
  case False
  then show ?thesis using powi_mono [of b a] by (simp add: not_less)
qed

lemma floor_log2_mono:
  assumes "0 < x" "x \<le> y"
  shows "floor_log2 x \<le> floor_log2 y"
proof -
  have "2 powi floor_log2 x < (2 :: rat) powi (floor_log2 y + 1)"
    using floor_log2_bounds [OF assms(1)] floor_log2_bounds [of y] assms by linarith
  then show ?thesis by (simp add: powi_less_iff)
qed

lemma floor_log2_less:
  assumes "0 < x" "x < 2 powi n"
  shows "floor_log2 x < n"
proof -
  have "2 powi floor_log2 x < (2 :: rat) powi n"
    using floor_log2_bounds [OF assms(1)] assms(2) by linarith
  then show ?thesis by (simp add: powi_less_iff)
qed

lemma round_half_even_of_int [simp]: "round_half_even (of_int n) = n"
  by (simp add: round_half_even_def)

lemma round_half_even_floor: "round_half_even x = \<lfloor>x\<rfloor> \<or> round_half_even x = \<lfloor>x\<rfloor> + 1"
  by (auto simp: round_half_even_def Let_def)

lemma round_half_even_mono:
  assumes "x \<le> y"
  shows "round_half_even x \<le> round_half_even y"
proof (cases "\<lfloor>x\<rfloor> = \<lfloor>y\<rfloor>")
  case True
  with assms show ?thesis by (auto simp: round_half_even_def Let_def)
next
  case False
  with assms have "\<lfloor>x\<rfloor> + 1 \<le> \<lfloor>y\<rfloor>" using floor_mono [OF assms] by linarith
  then show ?thesis using round_half_even_floor [of x] round_half_even_floor [of y] by auto
qed

lemma round_half_even_le: "x \<le> of_int n \<Longrightarrow> round_half_even x \<le> n"
  using round_half_even_mono [of x "of_int n"] by simp

lemma round_half_even_ge: "of_int n \<le> x \<Longrightarrow> n \<le> round_half_even x"
  using round_half_even_mono [of "of_int n" x] by simp

lemma powi_of_int: "0 \<le> n \<Longrightarrow> (2 :: rat) powi n = of_int (2 ^ nat n)"
  by (simp add: power_int_def)

lemma fl_pos_le_power:
  assumes "0 < x" "x \<le> 2 powi n" "ulp_exponent x \<le> n"
  shows "fl_pos x \<le> 2 powi n"
proof -
  let ?e = "ulp_exponent x"
  have "x / 2 powi ?e \<le> 2 powi n / 2 powi ?e"
    using assms(2) by (intro divide_right_mono) auto
  also have "\<dots> = of_int (2 ^ nat (n - ?e))"
    using assms(3) by (simp add: power_int_diff [symmetric] powi_of_int)
  finally have "round_half_even (x / 2 powi ?e) \<le> 2 ^ nat (n - ?e)"
    by (rule round_half_even_le)
  then have "(of_int (round_half_even (x / 2 powi ?e)) :: rat) \<le> of_int (2 ^ nat (n - ?e))"
    by (simp only: of_int_le_iff)
  also have "\<dots> = 2 powi n / 2 powi ?e"
    using assms(3) by (simp add: power_int_diff [symmetric] powi_of_int)
  finally have "of_int (round_half_even (x / 2 powi ?e)) * 2 powi ?e \<le> (2 powi n / 2 powi ?e) * (2 :: rat) powi ?e"
    by (intro mult_right_mono) auto
  then show ?thesis using assms(1) by (simp add: fl_pos_def)
qed

lemma fl_pos_ge_power:
  assumes "2 powi n \<le> x" "ulp_exponent x \<le> n"
  shows "2 powi n \<le> fl_pos x"
proof -
  let ?e = "ulp_exponent x"
  have pos: "0 < x" using assms(1) zero_less_power_int [of "2 :: rat" n] by linarith
  have "of_int (2 ^ nat (n - ?e)) = (2 :: rat) powi n / 2 powi ?e"
    using assms(2) by (simp add: power_int_diff [symmetric] powi_of_int)
  also have "\<dots> \<le> x / 2 powi ?e"
    using assms(1) by (intro divide_right_mono) auto
  finally have "2 ^ nat (n - ?e) \<le> round_half_even (x / 2 powi ?e)"
    by (rule round_half_even_ge)
  then have "(of_int (2 ^ nat (n - ?e)) :: rat) \<le> of_int (round_half_even (x / 2 powi ?e))"
    by (simp only: of_int_le_iff)
  then have "2 powi n / 2 powi ?e \<le> (of_int (round_half_even (x / 2 powi ?e)) :: rat)"
    using assms(2) by (simp add: power_int_diff [symmetric] powi_of_int)
  then have "(2 powi n / 2 powi ?e) * (2 :: rat) powi ?e \<le> of_int (round_half_even (x / 2 powi ?e)) * 2 powi ?e"
    by (intro mult_right_mono) auto
  then show ?thesis using pos by (simp add: fl_pos_def)
qed

lemma fl_pos_nonneg: "0 \<le> x \<Longrightarrow> 0 \<le> fl_pos x"
  using round_half_even_ge [of 0 "x / 2 powi ulp_exponent x"] by (auto simp: fl_pos_def)

lemma fl_pos_mono:
  assumes "0 \<le> x" "x \<le> y"
  shows "fl_pos x \<le> fl_pos y"
proof (cases "x = 0")
  case True
  with assms fl_pos_nonneg [of y] show ?thesis by (simp add: fl_pos_def)
next
  case False
  with assms have x: "0 < x" and y: "0 < y" by auto
  let ?e = "ulp_exponent x" and ?d = "ulp_exponent y"
  have le: "?e \<le> ?d"
    using floor_log2_mono [OF x assms(2)] by (simp add: ulp_exponent_def)
  show ?thesis
  proof (cases "?e = ?d")
    case True
    have "round_half_even (x / 2 powi ?d) \<le> round_half_even (y / 2 powi ?d)"
      using assms(2) by (intro round_half_even_mono divide_right_mono) auto
    then show ?thesis using x y True by (simp add: fl_pos_def)
  next
    case False
    with le have lt: "?e < ?d" by simp
    then have d: "?d = floor_log2 y - 52" by (auto simp: ulp_exponent_def)
    have "2 powi (floor_log2 y) \<le> fl_pos y"
      using floor_log2_bounds [OF y] d by (intro fl_pos_ge_power) auto
    moreover have "fl_pos x \<le> 2 powi (floor_log2 y)"
    proof (rule fl_pos_le_power [OF x])
      have "floor_log2 x + 1 \<le> floor_log2 y"
        using lt d by (auto simp: ulp_exponent_def)
      then show "x \<le> 2 powi floor_log2 y"
        using floor_log2_bounds(2) [OF x] powi_mono [of "floor_log2 x + 1" "floor_log2 y"] by linarith
      show "?e \<le> floor_log2 y" using lt d by simp
    qed
    ultimately show ?thesis by simp
  qed
qed

lemma fl_pos_exact:
  assumes "0 < m" "m < 2 ^ 53" "- 1074 \<le> e"
  shows "fl_pos (of_int m * 2 powi e) = of_int m * 2 powi e"
proof -
  let ?x = "of_int m * 2 powi e :: rat" and ?u = "ulp_exponent (of_int m * 2 powi e)"
  have pos: "0 < ?x" using assms(1) by simp
  have "(of_int m :: rat) < of_int (2 ^ 53)" using assms(2) by (simp only: of_int_less_iff)
  then have "?x < 2 ^ 53 * 2 powi e" by simp
  also have "\<dots> = 2 powi (e + 53)" by (simp add: power_int_add)
  finally have "floor_log2 ?x < e + 53" by (rule floor_log2_less [OF pos])
  then have u: "?u \<le> e" using assms(3) by (simp add: ulp_exponent_def)
  have "?x / 2 powi ?u = of_int m * (2 powi e / 2 powi ?u)" by simp
  also have "\<dots> = of_int (m * 2 ^ nat (e - ?u))"
    using u by (simp add: power_int_diff [symmetric] powi_of_int)
  finally have eq: "?x / 2 powi ?u = of_int (m * 2 ^ nat (e - ?u))" .
  have "fl_pos ?x = of_int (round_half_even (?x / 2 powi ?u)) * 2 powi ?u"
    using pos by (auto simp: fl_pos_def)
  also have "\<dots> = ?x / 2 powi ?u * 2 powi ?u" by (simp only: eq round_half_even_of_int)
  finally show ?thesis by simp
qed

lemma floor_log2_unique:
  assumes "2 powi k \<le> x" "x < 2 powi (k + 1)"
  shows "floor_log2 x = k"
proof -
  have pos: "0 < x" using assms(1) zero_less_power_int [of "2 :: rat" k] by linarith
  have "2 powi k < (2 :: rat) powi (floor_log2 x + 1)"
    using floor_log2_bounds(2) [OF pos] assms(1) by linarith
  moreover have "2 powi floor_log2 x < (2 :: rat) powi (k + 1)"
    using floor_log2_bounds(1) [OF pos] assms(2) by linarith
  ultimately show ?thesis by (simp add: powi_less_iff)
qed

lemma round_half_even_near:
  assumes "\<bar>y - of_int m\<bar> < 1 / 2"
  shows "round_half_even y = m"
proof -
  have "\<lfloor>y\<rfloor> = m \<or> \<lfloor>y\<rfloor> = m - 1" using assms by linarith
  then show ?thesis using assms by (auto simp: round_half_even_def Let_def)
qed

text \<open>
  The way to a rounding of a given number: scale it by \<open>2 ^ k\<close> into the 53 bit range and name
  the nearest integer.
\<close>

lemma fl_eq:
  assumes "2 ^ 52 \<le> x * 2 ^ k" "x * 2 ^ k < 2 ^ 53" "\<bar>x * 2 ^ k - of_int m\<bar> < 1 / 2" "k \<le> 1074"
  shows "fl x = of_int m / 2 ^ k"
proof -
  have "0 < x * 2 ^ k" by (rule less_le_trans [OF _ assms(1)]) simp
  then have pos: "0 < x" by (simp add: zero_less_mult_iff)
  have k: "(2 :: rat) powi (52 - int k) = 2 ^ 52 / 2 ^ k" "(2 :: rat) powi (53 - int k) = 2 ^ 53 / 2 ^ k"
    "(2 :: rat) powi (- int k) = 1 / 2 ^ k"
    by (simp_all add: power_int_diff power_int_minus field_simps)
  have "floor_log2 x = 52 - int k"
    using assms(1,2) by (intro floor_log2_unique) (simp_all add: k divide_simps)
  with assms(4) have u: "ulp_exponent x = - int k" by (simp add: ulp_exponent_def)
  show ?thesis
    using pos assms(3) by (simp add: fl_def fl_pos_def u k round_half_even_near)
qed

subsection \<open>The laws of a rounding\<close>

locale rounding =
  fixes rnd :: "rat \<Rightarrow> rat"
  assumes rnd_mono: "x \<le> y \<Longrightarrow> rnd x \<le> rnd y"
    and rnd_0: "rnd 0 = 0"
    and rnd_1: "rnd 1 = 1"
begin

lemma rnd_nonneg: "0 \<le> x \<Longrightarrow> 0 \<le> rnd x"
  using rnd_mono [of 0 x] rnd_0 by simp

lemma rnd_le_1: "x \<le> 1 \<Longrightarrow> rnd x \<le> 1"
  using rnd_mono [of x 1] rnd_1 by simp

lemma rnd_product_mono:
  "0 \<le> a \<Longrightarrow> x \<le> y \<Longrightarrow> rnd (a * x) \<le> rnd (a * y)"
  by (intro rnd_mono mult_left_mono)

lemma rnd_sum_mono:
  "a \<le> b \<Longrightarrow> x \<le> y \<Longrightarrow> rnd (a + x) \<le> rnd (b + y)"
  by (intro rnd_mono add_mono)

lemma rnd_ratio_mono:
  "0 < c \<Longrightarrow> x \<le> y \<Longrightarrow> rnd (x / c) \<le> rnd (y / c)"
  by (intro rnd_mono divide_right_mono) auto

end

lemma fl_mono: "x \<le> y \<Longrightarrow> fl x \<le> fl y"
  using fl_pos_mono [of x y] fl_pos_mono [of "- y" "- x"] fl_pos_nonneg [of "- x"] fl_pos_nonneg [of y]
  by (auto simp: fl_def)

lemma fl_of_int: "\<bar>n\<bar> < 2 ^ 53 \<Longrightarrow> fl (of_int n) = of_int n"
  using fl_pos_exact [of n 0] fl_pos_exact [of "- n" 0]
  by (cases "n = 0") (auto simp: fl_def fl_pos_def)

interpretation b64: rounding fl
  using fl_of_int [of 1] by unfold_locales (auto simp: fl_mono fl_def [of 0] fl_pos_def)

subsection \<open>The values and their operations\<close>

datatype f64 = NegInf | Fin rat | PosInf | NaN

definition to_f64 :: "rat \<Rightarrow> f64" where
  "to_f64 x =
     (let r = fl x in
      if 2 ^ 1024 \<le> r then PosInf else if r \<le> - (2 ^ 1024) then NegInf else Fin r)"

definition f64_of_int :: "int \<Rightarrow> f64" where
  "f64_of_int n = to_f64 (of_int n)"

definition signed_inf :: "rat \<Rightarrow> f64" where
  "signed_inf x = (if x = 0 then NaN else if 0 < x then PosInf else NegInf)"

fun f64_sign :: "f64 \<Rightarrow> rat" where
  "f64_sign NegInf = - 1"
| "f64_sign (Fin x) = sgn x"
| "f64_sign PosInf = 1"
| "f64_sign NaN = 0"

fun f64_add :: "f64 \<Rightarrow> f64 \<Rightarrow> f64" where
  "f64_add (Fin x) (Fin y) = to_f64 (x + y)"
| "f64_add NaN y = NaN"
| "f64_add x NaN = NaN"
| "f64_add (Fin x) y = y"
| "f64_add x (Fin y) = x"
| "f64_add x y = (if x = y then x else NaN)"

fun f64_mul :: "f64 \<Rightarrow> f64 \<Rightarrow> f64" where
  "f64_mul (Fin x) (Fin y) = to_f64 (x * y)"
| "f64_mul x y = (if x = NaN \<or> y = NaN then NaN else signed_inf (f64_sign x * f64_sign y))"

fun f64_div :: "f64 \<Rightarrow> f64 \<Rightarrow> f64" where
  \<comment> \<open>the zero that divides counts as positive\<close>
  "f64_div (Fin x) (Fin y) = (if y = 0 then signed_inf x else to_f64 (x / y))"
| "f64_div x (Fin y) = (if x = NaN then NaN else if y = 0 then x else signed_inf (f64_sign x * sgn y))"
| "f64_div (Fin x) y = (if y = NaN then NaN else Fin 0)"
| "f64_div x y = NaN"

text \<open>
  The order of \<open>float8\<close> in PostgreSQL is total, with NaN above everything; it is the order of
  \<open>ORDER BY\<close> and \<open>LEAST\<close>. A comparison in Rust is false as soon as an operand is NaN.
\<close>

instantiation f64 :: linorder
begin

fun less_eq_f64 :: "f64 \<Rightarrow> f64 \<Rightarrow> bool" where
  "less_eq_f64 NegInf y = True"
| "less_eq_f64 (Fin x) (Fin y) = (x \<le> y)"
| "less_eq_f64 (Fin x) NegInf = False"
| "less_eq_f64 (Fin x) y = True"
| "less_eq_f64 PosInf y = (y = PosInf \<or> y = NaN)"
| "less_eq_f64 NaN y = (y = NaN)"

definition less_f64 :: "f64 \<Rightarrow> f64 \<Rightarrow> bool" where
  "less_f64 x y \<longleftrightarrow> x \<le> y \<and> \<not> y \<le> (x :: f64)"

instance
proof
  fix x y z :: f64
  show "x < y \<longleftrightarrow> x \<le> y \<and> \<not> y \<le> x" by (rule less_f64_def)
  show "x \<le> x" by (cases x) auto
  show "x \<le> y \<Longrightarrow> y \<le> z \<Longrightarrow> x \<le> z" by (cases x; cases y; cases z) auto
  show "x \<le> y \<Longrightarrow> y \<le> x \<Longrightarrow> x = y" by (cases x; cases y) auto
  show "x \<le> y \<or> y \<le> x" by (cases x; cases y) auto
qed

end

definition f64_le :: "f64 \<Rightarrow> f64 \<Rightarrow> bool" where
  "f64_le x y \<longleftrightarrow> x \<noteq> NaN \<and> y \<noteq> NaN \<and> x \<le> y"

definition f64_lt :: "f64 \<Rightarrow> f64 \<Rightarrow> bool" where
  "f64_lt x y \<longleftrightarrow> x \<noteq> NaN \<and> y \<noteq> NaN \<and> x < y"

definition f64_clamp :: "f64 \<Rightarrow> f64 \<Rightarrow> f64 \<Rightarrow> f64" where
  \<comment> \<open>\<open>f64::clamp\<close> for ordered bounds\<close>
  "f64_clamp x lo hi = (if f64_lt x lo then lo else if f64_lt hi x then hi else x)"

lemma less_f64_Fin [simp]: "Fin x < Fin y \<longleftrightarrow> x < y"
  by (simp add: less_f64_def less_le_not_le)

lemma f64_le_Fin [simp]: "f64_le (Fin x) (Fin y) \<longleftrightarrow> x \<le> y"
  by (simp add: f64_le_def)

lemma f64_lt_Fin [simp]: "f64_lt (Fin x) (Fin y) \<longleftrightarrow> x < y"
  by (simp add: f64_lt_def)

lemma f64_clamp_Fin [simp]: "f64_clamp (Fin x) (Fin 0) (Fin 1) = Fin (max 0 (min x 1))"
  by (auto simp: f64_clamp_def min_def max_def)

lemma f64_not_le [simp]: "x \<noteq> NaN \<Longrightarrow> y \<noteq> NaN \<Longrightarrow> \<not> f64_le x y \<longleftrightarrow> f64_lt y x"
  by (auto simp: f64_le_def f64_lt_def)

lemma to_f64_mono: "x \<le> y \<Longrightarrow> to_f64 x \<le> to_f64 y"
  using fl_mono [of x y] by (auto simp: to_f64_def Let_def)

lemma to_f64_not_NaN [simp]: "to_f64 x \<noteq> NaN" "NaN \<noteq> to_f64 x"
  by (auto simp: to_f64_def Let_def)

lemma f64_of_int_not_NaN [simp]: "f64_of_int n \<noteq> NaN"
  by (simp add: f64_of_int_def)

lemma to_f64_small:
  assumes "\<bar>x\<bar> \<le> 2 ^ 64"
  shows "to_f64 x = Fin (fl x)"
proof -
  have exact: "fl (2 ^ 64) = 2 ^ 64"
    using fl_pos_exact [of 1 64] by (simp add: fl_def power_int_def)
  have "fl x \<le> 2 ^ 64" using fl_mono [of x "2 ^ 64"] assms exact by simp
  moreover have "- (2 ^ 64) \<le> fl x"
  proof -
    have "fl (- (2 ^ 64)) = - (2 ^ 64)" using exact by (simp add: fl_def)
    then show ?thesis using fl_mono [of "- (2 ^ 64)" x] assms by simp
  qed
  moreover have "(2 :: rat) ^ 64 < 2 ^ 1024" by (rule power_strict_increasing) auto
  ultimately show ?thesis by (auto simp: to_f64_def Let_def simp del: power_increasing_iff)
qed

lemma f64_of_int_exact: "\<bar>n\<bar> < 2 ^ 53 \<Longrightarrow> f64_of_int n = Fin (of_int n)"
proof -
  assume n: "\<bar>n\<bar> < 2 ^ 53"
  then have "\<bar>n\<bar> \<le> 2 ^ 64" by simp
  then have "(of_int \<bar>n\<bar> :: rat) \<le> of_int (2 ^ 64)" by (simp only: of_int_le_iff)
  then have "\<bar>of_int n :: rat\<bar> \<le> 2 ^ 64" by simp
  then show ?thesis by (simp add: f64_of_int_def to_f64_small fl_of_int [OF n])
qed

subsection \<open>Dyadic bounds\<close>

lemma fl_minus: "fl (- x) = - fl x"
  by (auto simp: fl_def fl_pos_def)

lemma fl_dyadic:
  assumes "\<bar>m\<bar> < 2 ^ 53" "k \<le> 1074"
  shows "fl (of_int m / 2 ^ k) = of_int m / 2 ^ k"
proof -
  have k: "(2 :: rat) powi (- int k) = 1 / 2 ^ k" by (simp add: power_int_minus field_simps)
  have pos: "fl (of_int m / 2 ^ k) = of_int m / 2 ^ k" if "0 < m" "m < 2 ^ 53" for m
  proof -
    have "\<not> (of_int m / 2 ^ k :: rat) < 0" using that by (simp add: not_less)
    with fl_pos_exact [of m "- int k"] that assms(2) show ?thesis by (simp add: k fl_def)
  qed
  show ?thesis
  proof (cases m "0 :: int" rule: linorder_cases)
    case less
    with pos [of "- m"] assms(1) have "fl (- (of_int m / 2 ^ k)) = - (of_int m / 2 ^ k)" by simp
    then show ?thesis by (simp only: fl_minus neg_equal_iff_equal)
  next
    case equal
    then show ?thesis by (simp add: fl_def fl_pos_def)
  next
    case greater
    with pos [of m] assms(1) show ?thesis by simp
  qed
qed

lemma fl_le_dyadic: "x \<le> of_int m / 2 ^ k \<Longrightarrow> \<bar>m\<bar> < 2 ^ 53 \<Longrightarrow> k \<le> 1074 \<Longrightarrow> fl x \<le> of_int m / 2 ^ k"
  using fl_mono [of x "of_int m / 2 ^ k"] fl_dyadic [of m k] by simp

lemma fl_ge_dyadic: "of_int m / 2 ^ k \<le> x \<Longrightarrow> \<bar>m\<bar> < 2 ^ 53 \<Longrightarrow> k \<le> 1074 \<Longrightarrow> of_int m / 2 ^ k \<le> fl x"
  using fl_mono [of "of_int m / 2 ^ k" x] fl_dyadic [of m k] by simp

lemma f64_le_PosInf [simp]: "f64_le x PosInf \<longleftrightarrow> x \<noteq> NaN"
  by (cases x) (auto simp: f64_le_def)

subsection \<open>The error of a rounding\<close>

lemma round_half_even_error: "\<bar>of_int (round_half_even x) - x\<bar> \<le> 1 / 2"
proof -
  have "of_int \<lfloor>x\<rfloor> \<le> x" "x < of_int \<lfloor>x\<rfloor> + 1" by linarith+
  then show ?thesis unfolding round_half_even_def Let_def by (auto simp: abs_le_iff; linarith)
qed

lemma fl_error:
  assumes "0 \<le> x" "x \<le> 2"
  shows "\<bar>fl x - x\<bar> \<le> 1 / 2 ^ 52"
proof (cases "x = 0")
  case True
  then show ?thesis by (simp add: fl_def fl_pos_def)
next
  case False
  with assms(1) have x: "0 < x" by simp
  let ?e = "ulp_exponent x"
  have "x < 2 powi 2" using assms(2) by (simp add: power_int_def)
  then have "floor_log2 x < 2" by (rule floor_log2_less [OF x])
  then have "?e \<le> - 51" by (simp add: ulp_exponent_def)
  then have small: "(2 :: rat) powi ?e \<le> 2 powi (- 51)" by (rule powi_mono)
  have scale: "0 < (2 :: rat) powi ?e" by simp
  have "fl x - x = (of_int (round_half_even (x / 2 powi ?e)) - x / 2 powi ?e) * 2 powi ?e"
    using x scale by (simp add: fl_def fl_pos_def algebra_simps)
  then have "\<bar>fl x - x\<bar> = \<bar>of_int (round_half_even (x / 2 powi ?e)) - x / 2 powi ?e\<bar> * 2 powi ?e"
    using scale by (simp add: abs_mult)
  also have "\<dots> \<le> 1 / 2 * 2 powi ?e"
    using round_half_even_error scale by (intro mult_right_mono) auto
  also have "\<dots> \<le> 1 / 2 * 2 powi (- 51)" using small by simp
  also have "\<dots> = 1 / 2 ^ 52" by (simp add: power_int_minus)
  finally show ?thesis .
qed

end
