(* ===== verification/League_Config.thy ===== *)
theory League_Config
  imports Float64
begin

section \<open>league\_config.rs: the parameters of the league\<close>

text \<open>
  \<^verbatim>\<open>src/src/league_config.rs\<close>: the record of the league's parameters, its two presets and the
  choice between them by the variable \<open>SOLANA_NETWORK\<close>. An environment is a map from names to
  values. Decimal literals are the \<open>f64\<close> nearest to them.
\<close>

type_synonym environment = "string \<Rightarrow> string option"

datatype network = Devnet | Mainnet

datatype reset_cadence = Weekly | Yearly

record quality_weights =
  qw_u :: f64
  qw_r :: f64
  qw_c :: f64
  qw_s :: f64

record activation_milestones =
  am_first_blink :: u64
  am_first_stake :: u64
  am_first_issuance :: u64
  am_first_five_unique_wallets :: u64
  am_first_repeat_user :: u64

record growth_milestones =
  gm_twenty_five_unique_wallets :: u64
  gm_ten_repeat_users :: u64

record social_milestones =
  sm_follow :: u64
  sm_launch_thread :: u64

record milestones_config =
  ms_activation :: activation_milestones
  ms_growth :: growth_milestones
  ms_social :: social_milestones

record wallet_weights_config =
  ww_founder :: f64
  ww_team :: f64
  ww_external :: f64
  ww_external_repeat_after_gap :: f64

record daily_caps =
  dc_self :: u64
  dc_social :: u64
  dc_referral :: u64

record ranking_weights =
  rk_quality :: f64
  rk_unique_wallets :: f64
  rk_repeat_users :: f64
  rk_completions :: f64

record league_config =
  lc_network :: network
  lc_starter_grant_rewardz :: u64
  lc_issuance_ratio :: u64
  lc_capacity_reset_cadence :: reset_cadence
  lc_capacity_warning_thresholds :: "f64 list"
  lc_quality_weights :: quality_weights
  lc_milestones :: milestones_config
  lc_wallet_weights :: wallet_weights_config
  lc_repeat_gap_hours :: u64
  lc_daily_caps :: daily_caps
  lc_rewardz_publish_interval_secs :: u64
  lc_max_rewardz_per_epoch :: u64
  lc_activity_window_hours :: u64
  lc_inactivity_window_hours :: u64
  lc_ranking_weights :: ranking_weights
  lc_leaderboard_top_n :: u64
  lc_leaderboard_bonus_rewardz :: u64

definition DEVNET :: league_config where
  "DEVNET =
     \<lparr>lc_network = Devnet,
      lc_starter_grant_rewardz = 100,
      lc_issuance_ratio = 10,
      lc_capacity_reset_cadence = Weekly,
      lc_capacity_warning_thresholds = [to_f64 (25 / 100), to_f64 (1 / 10), Fin 0],
      lc_quality_weights =
        \<lparr>qw_u = to_f64 (4 / 10), qw_r = to_f64 (3 / 10), qw_c = to_f64 (2 / 10), qw_s = to_f64 (1 / 10)\<rparr>,
      lc_milestones =
        \<lparr>ms_activation =
           \<lparr>am_first_blink = 100, am_first_stake = 100, am_first_issuance = 150,
            am_first_five_unique_wallets = 150, am_first_repeat_user = 100\<rparr>,
         ms_growth = \<lparr>gm_twenty_five_unique_wallets = 100, gm_ten_repeat_users = 150\<rparr>,
         ms_social = \<lparr>sm_follow = 10, sm_launch_thread = 25\<rparr>\<rparr>,
      lc_wallet_weights =
        \<lparr>ww_founder = to_f64 (25 / 100), ww_team = to_f64 (5 / 10), ww_external = Fin 1,
         ww_external_repeat_after_gap = to_f64 (125 / 100)\<rparr>,
      lc_repeat_gap_hours = 24,
      lc_daily_caps = \<lparr>dc_self = 25, dc_social = 100, dc_referral = 50\<rparr>,
      lc_rewardz_publish_interval_secs = 3600,
      lc_max_rewardz_per_epoch = 10000,
      lc_activity_window_hours = 168,
      lc_inactivity_window_hours = 336,
      lc_ranking_weights =
        \<lparr>rk_quality = to_f64 (5 / 10), rk_unique_wallets = to_f64 (2 / 10),
         rk_repeat_users = to_f64 (2 / 10), rk_completions = to_f64 (1 / 10)\<rparr>,
      lc_leaderboard_top_n = 10,
      lc_leaderboard_bonus_rewardz = 50\<rparr>"

definition MAINNET :: league_config where
  "MAINNET =
     \<lparr>lc_network = Mainnet,
      lc_starter_grant_rewardz = 0,
      lc_issuance_ratio = 0,
      lc_capacity_reset_cadence = Yearly,
      lc_capacity_warning_thresholds = [Fin 0, Fin 0, Fin 0],
      lc_quality_weights = \<lparr>qw_u = Fin 0, qw_r = Fin 0, qw_c = Fin 0, qw_s = Fin 0\<rparr>,
      lc_milestones =
        \<lparr>ms_activation =
           \<lparr>am_first_blink = 0, am_first_stake = 0, am_first_issuance = 0,
            am_first_five_unique_wallets = 0, am_first_repeat_user = 0\<rparr>,
         ms_growth = \<lparr>gm_twenty_five_unique_wallets = 0, gm_ten_repeat_users = 0\<rparr>,
         ms_social = \<lparr>sm_follow = 0, sm_launch_thread = 0\<rparr>\<rparr>,
      lc_wallet_weights =
        \<lparr>ww_founder = Fin 0, ww_team = Fin 0, ww_external = Fin 0,
         ww_external_repeat_after_gap = Fin 0\<rparr>,
      lc_repeat_gap_hours = 0,
      lc_daily_caps = \<lparr>dc_self = 0, dc_social = 0, dc_referral = 0\<rparr>,
      lc_rewardz_publish_interval_secs = 0,
      lc_max_rewardz_per_epoch = 0,
      lc_activity_window_hours = 0,
      lc_inactivity_window_hours = 0,
      lc_ranking_weights =
        \<lparr>rk_quality = Fin 0, rk_unique_wallets = Fin 0, rk_repeat_users = Fin 0,
         rk_completions = Fin 0\<rparr>,
      lc_leaderboard_top_n = 0,
      lc_leaderboard_bonus_rewardz = 0\<rparr>"

definition load_league_config :: "environment \<Rightarrow> fault + league_config" where
  "load_league_config env =
     (case env ''SOLANA_NETWORK'' of
        Some v \<Rightarrow>
          if v = ''devnet'' \<or> v = ''localnet'' then Inr DEVNET
          else if v = ''mainnet'' \<or> v = ''mainnet-beta'' then Inr MAINNET
          else Inl (Panic ''Unknown SOLANA_NETWORK'')
      | None \<Rightarrow> Inl (Panic ''Unknown SOLANA_NETWORK''))"

lemma load_league_config_cases:
  "load_league_config env = Inr cfg \<Longrightarrow> cfg = DEVNET \<or> cfg = MAINNET"
  by (auto simp: load_league_config_def split: option.splits if_splits)

lemma load_league_config_fault:
  "load_league_config env = Inl e \<Longrightarrow> e = Panic ''Unknown SOLANA_NETWORK''"
  by (auto simp: load_league_config_def split: option.splits if_splits)

definition devnet_only :: environment where
  "devnet_only = [''SOLANA_NETWORK'' \<mapsto> ''devnet'']"

lemma load_devnet_only [simp]: "load_league_config devnet_only = Inr DEVNET"
  by (simp add: load_league_config_def devnet_only_def)

definition with_config :: "environment \<Rightarrow> (league_config \<Rightarrow> ('s, 'a) prog) \<Rightarrow> ('s, 'a) prog" where
  \<comment> \<open>\<open>let cfg = load_league_config();\<close> at the start of a function: its panic unwinds the caller\<close>
  "with_config env k s = (case load_league_config env of Inl e \<Rightarrow> (Inl e, s) | Inr cfg \<Rightarrow> k cfg s)"

subsection \<open>The loop of a cron\<close>

fun turns :: "('s, 'a) prog \<Rightarrow> nat \<Rightarrow> ('s, unit) prog" where
  \<comment> \<open>\<open>n\<close> turns of a loop that logs the outcome of its tick and goes on; a panic ends the task\<close>
  "turns m 0 = ret ()"
| "turns m (Suc n) = andThen (attempt m) (\<lambda>logged. turns m n)"

lemma snd_attempt [simp]: "snd (attempt m s) = snd (m s)"
  by (simp add: attempt_def split: prod.splits sum.splits fault.splits)

lemma turns_keep:
  \<comment> \<open>what every tick keeps, the turns keep\<close>
  assumes "\<And>s. R s s" and "\<And>s t u. R s t \<Longrightarrow> R t u \<Longrightarrow> R s u"
    and step: "\<And>s. ok s \<Longrightarrow> ok (snd (m s)) \<and> R s (snd (m s))" and "ok s"
  shows "ok (snd (turns m n s)) \<and> R s (snd (turns m n s))"
  using assms(4)
proof (induction n arbitrary: s)
  case 0
  with assms(1) show ?case by (simp add: ret_def)
next
  case (Suc n)
  obtain res t where run: "attempt m s = (res, t)" by (cases "attempt m s")
  then have t: "t = snd (m s)" by (metis snd_attempt snd_conv)
  with step [OF Suc.prems] have "ok t" "R s t" by simp_all
  with Suc.IH [of t] run assms(2) show ?case
    by (auto simp: andThen_def split: sum.splits)
qed

definition league_cron :: "environment \<Rightarrow> (league_config \<Rightarrow> ('s, 'a) prog) \<Rightarrow> nat \<Rightarrow> ('s, unit) prog" where
  \<comment> \<open>the configuration is read once, before the loop\<close>
  "league_cron env tick n = with_config env (\<lambda>cfg. turns (tick cfg) n)"

lemma league_cron_keep:
  assumes "\<And>s. R s s" and "\<And>s t u. R s t \<Longrightarrow> R t u \<Longrightarrow> R s u"
    and "\<And>cfg s. load_league_config env = Inr cfg \<Longrightarrow> ok s \<Longrightarrow> ok (snd (tick cfg s)) \<and> R s (snd (tick cfg s))" and "ok s"
  shows "ok (snd (league_cron env tick n s)) \<and> R s (snd (league_cron env tick n s))"
proof (cases "load_league_config env")
  case (Inl e)
  with assms(1,4) show ?thesis by (simp add: league_cron_def with_config_def)
next
  case (Inr cfg)
  have "ok (snd (turns (tick cfg) n s)) \<and> R s (snd (turns (tick cfg) n s))"
    by (rule turns_keep [where R = R and ok = ok, OF assms(1) assms(2) assms(3) [OF Inr] assms(4)])
  with Inr show ?thesis by (simp add: league_cron_def with_config_def)
qed

end
