(* ===== verification/Database.thy ===== *)
theory Database
  imports Chain Float64
begin

section \<open>Database: the tables behind the SQL of the keeper\<close>

text \<open>
  The rows the SQL of the repository reads and writes, and what a statement is. The schema
  lives in another repository: a table has here the columns that the statements name, a unique
  index where a statement relies on one by \<open>ON CONFLICT\<close>, and a table is the list of its rows.
  \<open>BIGINT\<close> and \<open>INT\<close> columns are integers, \<open>NUMERIC\<close> ones rationals, \<open>timestamptz\<close> ones
  microseconds since the epoch, \<open>uuid\<close> ones 128 bit words in their byte order.

  A statement is a round trip to the server. The record \<open>pg\<close> says whether it fails, what the
  server's clock shows, and what the other sessions have committed in the meantime. A
  transaction is one point in the history of the other sessions: it starts from the state that
  \<open>begin\<close> sees, and every way out of it but a successful commit leaves that state.
\<close>

subsection \<open>Rows\<close>

type_synonym time = int
type_synonym uuid = "128 word"

datatype json =
    JNull
  | JBool bool
  | JInt int
  | JNum f64
  | JStr string
  | JArr "json list"
  | JObj "(string \<times> json) list"

definition json_f64 :: "f64 \<Rightarrow> json" where
  \<comment> \<open>serde\_json writes what is no number as \<open>null\<close>\<close>
  "json_f64 x = (case x of Fin y \<Rightarrow> JNum (Fin y) | _ \<Rightarrow> JNull)"

record protocol =
  p_id :: uuid
  p_admin_wallet :: string
  p_status :: string
  p_visibility :: string
  p_quality_score :: "rat option"
  p_remaining_capacity :: "int option"
  p_capacity_window_start :: "time option"
  p_capacity_unlocked_at :: "time option"
  p_active_stake :: "int option"
  p_referral_code :: "string option"

record point_event =
  pe_protocol_id :: uuid
  pe_user_wallet :: string
  pe_type :: string
  pe_created_at :: time

record abuse_flag =
  af_protocol_id :: uuid
  af_kind :: string
  af_severity :: string
  af_evidence :: json
  af_resolved_at :: "time option"

record earning =
  re_protocol_id :: uuid
  re_protocol_authority :: string
  re_amount :: int
  re_reason :: string
  re_milestone_id :: "int option"
  re_created_at :: time
  re_included_in_root_epoch :: "int option"

record milestone_row =
  m_id :: int
  m_slug :: string
  m_bucket :: string

record milestone_reward =
  mr_milestone_id :: int
  mr_network :: string
  mr_rewardz_amount :: int

record wallet_weight =
  wt_protocol_id :: uuid
  wt_wallet :: string
  wt_weight :: rat

record leaderboard_snapshot =
  ls_snapshot_date :: int
  ls_rank :: int
  ls_protocol_id :: uuid
  ls_unique_wallets :: int
  ls_repeat_users :: int
  ls_successful_completions :: int
  ls_bonus_awarded :: int
  ls_featured :: bool

record user_row =
  u_wallet_address :: string
  u_total_points :: int

record user_balance =
  ub_wallet_address :: string
  ub_total_earned :: int
  ub_total_pending :: int
  ub_total_spent :: int
  ub_total_reserved :: int

record merkle_proof =
  mp_epoch :: int
  mp_root :: string
  mp_authority :: string
  mp_amount :: int
  mp_proof :: "bytes list"

record root_epoch =
  ro_epoch :: int
  ro_merkle_root :: bytes
  ro_tx_sig :: string
  ro_total_included :: nat

record subscription =
  su_subscription_id :: string
  su_wallet_address :: string
  su_intent_query :: string
  su_auto_execute :: bool
  su_streak_current :: int
  su_streak_longest :: int
  su_multiplier :: f64
  su_frequency :: string
  su_next_due_at :: time
  su_last_executed_at :: "time option"
  su_updated_at :: time
  su_status :: string

record protocol_event =
  ev_protocol_id :: uuid
  ev_kind :: string
  ev_level :: string
  ev_payload :: json

record database =
  protocols :: "protocol list"
  point_events :: "point_event list"
  abuse_flags :: "abuse_flag list"
  rewardz_earnings :: "earning list"
  milestones :: "milestone_row list"
  milestone_rewards :: "milestone_reward list"
  wallet_weights :: "wallet_weight list"
  league_leaderboard_snapshots :: "leaderboard_snapshot list"
  users :: "user_row list"
  user_balances :: "user_balance list"
  merkle_proofs :: "merkle_proof list"
  rewardz_root_epochs :: "root_epoch list"
  subscriptions :: "subscription list"
  protocol_events :: "protocol_event list"

subsection \<open>Statements and transactions\<close>

record 'w app = "'w keeper" +
  db :: database

record 'w pg =
  pg_error :: "'w \<Rightarrow> string option \<times> 'w"
    \<comment> \<open>whether the next round trip fails, by the network, the pool or the server\<close>
  pg_now :: "'w \<Rightarrow> time"
  pg_others :: "'w \<Rightarrow> database \<Rightarrow> database"
    \<comment> \<open>what other sessions have committed since the last statement of this one\<close>
  pg_collate :: "string \<Rightarrow> string"
    \<comment> \<open>the sort key of a text under the collation of the database\<close>
  pg_make_interval :: "string \<Rightarrow> int \<Rightarrow> string + int"
    \<comment> \<open>\<open>make_interval\<close> with a named unit applied to a \<open>bigint\<close> parameter, in microseconds; a
      server without a matching overload refuses the statement\<close>
  pg_decimal_5_4 :: "f64 \<Rightarrow> string + rat"
    \<comment> \<open>what a \<open>DECIMAL(5,4)\<close> column keeps of a \<open>float8\<close> cast to \<open>numeric\<close>\<close>
  pg_whole_milestone_index :: bool
    \<comment> \<open>whether the unique index on \<open>(protocol_id, milestone_id)\<close> covers every row: a partial one
      is no arbiter for \<open>ON CONFLICT\<close> without its predicate\<close>
  pg_epoch_days :: "int \<Rightarrow> json"
    \<comment> \<open>the days of an interval of so many microseconds, as a number of \<open>jsonb\<close>\<close>
  pg_current_date :: "time \<Rightarrow> int"
    \<comment> \<open>\<open>CURRENT_DATE\<close> in the time zone of the session, as a day number\<close>
  pg_date_text :: "int \<Rightarrow> string"
    \<comment> \<open>a date cast to \<open>text\<close>\<close>
  pg_extract_float8 :: bool
    \<comment> \<open>whether \<open>EXTRACT\<close> yields a \<open>float8\<close>, as it did before version 14, or a \<open>numeric\<close>\<close>

type_synonym 'a statement = "time \<Rightarrow> database \<Rightarrow> string + 'a \<times> database"
  \<comment> \<open>the server's \<open>NOW()\<close> and the tables to an error or the answer and the tables\<close>

definition round_trip :: "'w pg \<Rightarrow> ('w app, unit) prog" where
  "round_trip pg s =
     (case pg_error pg (world s) of
        (Some e, w) \<Rightarrow> (Inl (Fault e), s\<lparr>world := w\<rparr>)
      | (None, w) \<Rightarrow> (Inr (), s\<lparr>world := w\<rparr>))"

definition run_statement :: "time \<Rightarrow> 'a statement \<Rightarrow> ('w app, 'a) prog" where
  "run_statement now f s =
     (case f now (db s) of
        Inl e \<Rightarrow> (Inl (Fault e), s)
      | Inr (x, d) \<Rightarrow> (Inr x, s\<lparr>db := d\<rparr>))"

definition see_others :: "'w pg \<Rightarrow> ('w app, time) prog" where
  "see_others pg s = (Inr (pg_now pg (world s)), s\<lparr>db := pg_others pg (world s) (db s)\<rparr>)"

definition execute :: "'w pg \<Rightarrow> 'a statement \<Rightarrow> ('w app, 'a) prog" where
  \<comment> \<open>a statement on the pool\<close>
  "execute pg f =
     andThen (round_trip pg) (\<lambda>_. andThen (see_others pg) (\<lambda>now. run_statement now f))"

definition execute_in :: "'w pg \<Rightarrow> time \<Rightarrow> 'a statement \<Rightarrow> ('w app, 'a) prog" where
  \<comment> \<open>a statement of the transaction that began at \<open>now\<close>\<close>
  "execute_in pg now f = andThen (round_trip pg) (\<lambda>_. run_statement now f)"

definition begin_tx :: "'w pg \<Rightarrow> ('w app, time \<times> database) prog" where
  "begin_tx pg =
     andThen (round_trip pg) (\<lambda>_.
     andThen (see_others pg) (\<lambda>now s. (Inr (now, db s), s)))"

definition rollback_to :: "database \<Rightarrow> ('w app, unit) prog" where
  "rollback_to d s = (Inr (), s\<lparr>db := d\<rparr>)"

definition or_rollback :: "database \<Rightarrow> ('w app, 'a) prog \<Rightarrow> ('w app, 'a) prog" where
  \<comment> \<open>the transaction value is dropped on the way out: its writes are gone\<close>
  "or_rollback d m s =
     (case m s of (Inl e, s') \<Rightarrow> (Inl e, s'\<lparr>db := d\<rparr>) | (Inr x, s') \<Rightarrow> (Inr x, s'))"

definition commit :: "'w pg \<Rightarrow> ('w app, unit) prog" where
  "commit pg = round_trip pg"

definition transaction :: "'w pg \<Rightarrow> (time \<Rightarrow> ('w app, 'a) prog) \<Rightarrow> ('w app, 'a) prog" where
  "transaction pg body =
     andThen (begin_tx pg) (\<lambda>(now, d).
       or_rollback d (andThen (body now) (\<lambda>x. andThen (commit pg) (\<lambda>_. ret x))))"

subsection \<open>INSERT with ON CONFLICT DO NOTHING\<close>

fun insert_rows :: "('r \<Rightarrow> 'r \<Rightarrow> bool) \<Rightarrow> 'r list \<Rightarrow> 'r list \<Rightarrow> 'r list \<times> nat" where
  \<comment> \<open>the rows in order, each left out when it conflicts with a row of the table so far; with
     the number of rows inserted\<close>
  "insert_rows conflict [] table = (table, 0)"
| "insert_rows conflict (r # rs) table =
     (if \<exists>t \<in> set table. conflict t r then insert_rows conflict rs table
      else (let (table', n) = insert_rows conflict rs (table @ [r]) in (table', Suc n)))"

definition free_of_conflicts :: "('r \<Rightarrow> 'r \<Rightarrow> bool) \<Rightarrow> 'r list \<Rightarrow> bool" where
  "free_of_conflicts conflict table = sorted_wrt (\<lambda>a b. \<not> conflict a b) table"

definition upsert :: "('r \<Rightarrow> 'r \<Rightarrow> bool) \<Rightarrow> 'r \<Rightarrow> 'r list \<Rightarrow> 'r list" where
  \<comment> \<open>\<open>ON CONFLICT DO UPDATE\<close> of every column outside the index\<close>
  "upsert conflict r table =
     (if \<exists>t \<in> set table. conflict t r then map (\<lambda>t. if conflict t r then r else t) table
      else table @ [r])"

lemma free_of_conflicts_Nil [simp]: "free_of_conflicts conflict []"
  by (simp add: free_of_conflicts_def)

lemma free_of_conflicts_snoc [simp]:
  "free_of_conflicts conflict (table @ [r]) \<longleftrightarrow>
     free_of_conflicts conflict table \<and> (\<forall>t \<in> set table. \<not> conflict t r)"
  by (simp add: free_of_conflicts_def sorted_wrt_append)

lemma free_of_conflicts_Cons [simp]:
  "free_of_conflicts conflict (r # table) \<longleftrightarrow>
     (\<forall>t \<in> set table. \<not> conflict r t) \<and> free_of_conflicts conflict table"
  by (simp add: free_of_conflicts_def)

lemma insert_rows_appends:
  "\<exists>new. insert_rows conflict rows table = (table @ new, length new) \<and> set new \<subseteq> set rows"
proof (induction rows arbitrary: table)
  case Nil
  then show ?case by simp
next
  case (Cons r rows)
  show ?case
  proof (cases "\<exists>t \<in> set table. conflict t r")
    case True
    with Cons [of table] show ?thesis by auto
  next
    case False
    obtain new where "insert_rows conflict rows (table @ [r]) = ((table @ [r]) @ new, length new)"
      "set new \<subseteq> set rows" using Cons by blast
    with False show ?thesis by (intro exI [of _ "r # new"]) auto
  qed
qed

lemma insert_rows_free:
  "free_of_conflicts conflict table \<Longrightarrow> free_of_conflicts conflict (fst (insert_rows conflict rows table))"
proof (induction rows arbitrary: table)
  case Nil
  then show ?case by simp
next
  case (Cons r rows)
  then show ?case
    using Cons.IH [of "table @ [r]"] by (cases "\<exists>t \<in> set table. conflict t r") (auto simp: Let_def split_beta)
qed

lemma insert_rows_keep: "set table \<subseteq> set (fst (insert_rows conflict rows table))"
  using insert_rows_appends [of conflict rows table] by auto

lemma insert_rows_all_conflict:
  "\<forall>r \<in> set rows. \<exists>t \<in> set table. conflict t r \<Longrightarrow> insert_rows conflict rows table = (table, 0)"
  by (induction rows) auto

lemma insert_rows_fresh:
  assumes "\<forall>r \<in> set rows. \<forall>t \<in> set table. \<not> conflict t r" and "free_of_conflicts conflict rows"
  shows "insert_rows conflict rows table = (table @ rows, length rows)"
  using assms
proof (induction rows arbitrary: table)
  case Nil
  then show ?case by simp
next
  case (Cons r rows)
  then show ?case by simp
qed

text \<open>
  The unique indexes that the statements rely on, full or partial: two rows conflict when they
  are indexed and have the same key. That relation is symmetric and transitive, and reflexive
  on the rows that the index holds.
\<close>

locale unique_index =
  fixes conflict :: "'r \<Rightarrow> 'r \<Rightarrow> bool"
  assumes conflict_sym: "conflict a b \<Longrightarrow> conflict b a"
    and conflict_trans: "conflict a b \<Longrightarrow> conflict b c \<Longrightarrow> conflict a c"
begin

lemma at_most_one:
  assumes "free_of_conflicts conflict table"
  shows "length (filter (conflict r) table) \<le> 1"
  using assms
proof (induction table rule: rev_induct)
  case Nil
  then show ?case by simp
next
  case (snoc t table)
  have "filter (conflict r) table = []" if "conflict r t"
    unfolding filter_empty_conv
  proof (intro ballI notI)
    fix a assume "a \<in> set table" "conflict r a"
    then have "conflict a t" using that conflict_sym conflict_trans by blast
    with snoc.prems \<open>a \<in> set table\<close> show False by simp
  qed
  moreover have "length (filter (conflict r) table) \<le> 1" using snoc by simp
  ultimately show ?case by simp
qed

lemma unique_row:
  assumes "free_of_conflicts conflict table" "a \<in> set table" "b \<in> set table" "conflict a b"
  shows "a = b"
proof -
  have "conflict a a" using conflict_trans [OF assms(4) conflict_sym [OF assms(4)]] .
  then have "a \<in> set (filter (conflict a) table)" "b \<in> set (filter (conflict a) table)"
    using assms by simp_all
  moreover obtain x where "set (filter (conflict a) table) \<subseteq> {x}"
    using at_most_one [OF assms(1), of a] by (cases "filter (conflict a) table") auto
  ultimately show ?thesis by auto
qed

lemma covered:
  assumes "r \<in> set rows" "conflict r r"
  shows "\<exists>t \<in> set (fst (insert_rows conflict rows table)). conflict t r"
  using assms(1)
proof (induction rows arbitrary: table)
  case Nil
  then show ?case by simp
next
  case (Cons r' rows)
  show ?case
  proof (cases "r \<in> set rows")
    case True
    with Cons.IH [of table] Cons.IH [of "table @ [r']"] show ?thesis
      by (auto simp: Let_def split_beta)
  next
    case False
    with Cons.prems have r: "r' = r" by simp
    show ?thesis
    proof (cases "\<exists>t \<in> set table. conflict t r")
      case True
      with r insert_rows_keep [of table conflict rows] show ?thesis by auto
    next
      case False
      have "r \<in> set (fst (insert_rows conflict rows (table @ [r])))"
        using insert_rows_keep [of "table @ [r]" conflict rows] by auto
      with r False assms(2) show ?thesis by (auto simp: Let_def split_beta)
    qed
  qed
qed

lemma insert_again:
  assumes "\<And>r. r \<in> set rows \<Longrightarrow> conflict r r"
  shows "insert_rows conflict rows (fst (insert_rows conflict rows table)) =
    (fst (insert_rows conflict rows table), 0)"
  using covered assms by (intro insert_rows_all_conflict) blast

end

subsection \<open>Statements that several crons share\<close>

definition update_protocol :: "uuid \<Rightarrow> (protocol \<Rightarrow> protocol) \<Rightarrow> database \<Rightarrow> database" where
  \<comment> \<open>\<open>UPDATE protocols SET ... WHERE id = $1\<close>\<close>
  "update_protocol i f d = d\<lparr>protocols := map (\<lambda>p. if p_id p = i then f p else p) (protocols d)\<rparr>"

definition insert_event :: "protocol_event \<Rightarrow> unit statement" where
  "insert_event e now d = Inr ((), d\<lparr>protocol_events := protocol_events d @ [e]\<rparr>)"

lemma update_protocol_twice:
  "(\<And>p. p_id (f p) = p_id p) \<Longrightarrow>
   update_protocol i g (update_protocol i f d) = update_protocol i (g \<circ> f) d"
  by (auto simp: update_protocol_def)

lemma events_update_protocol [simp]: "protocol_events (update_protocol i f d) = protocol_events d"
  by (simp add: update_protocol_def)

subsection \<open>What statements and transactions leave alone\<close>

definition quiet :: "'w pg \<Rightarrow> bool" where
  \<comment> \<open>every round trip succeeds and no other session writes\<close>
  "quiet pg \<longleftrightarrow> (\<forall>w. pg_error pg w = (None, w)) \<and> (\<forall>w d. pg_others pg w d = d)"

definition no_other_writers :: "'w pg \<Rightarrow> bool" where
  \<comment> \<open>round trips may fail, but no other session writes\<close>
  "no_other_writers pg \<longleftrightarrow> (\<forall>w d. pg_others pg w d = d)"

definition takes_bigint :: "'w pg \<Rightarrow> bool" where
  \<comment> \<open>the server accepts a \<open>bigint\<close> of hours, minutes or days\<close>
  "takes_bigint pg \<longleftrightarrow>
     (\<forall>n. pg_make_interval pg ''hours'' n = Inr (n * 3600000000)
        \<and> pg_make_interval pg ''days'' n = Inr (n * 86400000000))"

lemma quiet_no_other_writers: "quiet pg \<Longrightarrow> no_other_writers pg"
  by (simp add: quiet_def no_other_writers_def)

definition rounds_decimals :: "'w pg \<Rightarrow> bool" where
  \<comment> \<open>a score of the unit interval is rounded to fifteen digits, then to four decimals\<close>
  "rounds_decimals pg \<longleftrightarrow>
     (\<forall>x. 0 \<le> x \<and> x \<le> 1 \<longrightarrow>
        (\<exists>k. pg_decimal_5_4 pg (Fin x) = Inr (of_int k / 10000) \<and> 0 \<le> k \<and> k \<le> 10000
           \<and> \<bar>of_int k / 10000 - x\<bar> \<le> 1 / 20000 + 1 / 10 ^ 15))"

lemma sent_round_trip [simp]: "sent (snd (round_trip pg s)) = sent s"
  by (simp add: round_trip_def split: prod.splits option.splits)

lemma sent_run_statement [simp]: "sent (snd (run_statement now f s)) = sent s"
  by (simp add: run_statement_def split: sum.splits prod.splits)

lemma sends_round_trip [sends_intros]: "sends_only P n (round_trip pg)"
  by (rule sends_silent) simp

lemma sends_run_statement [sends_intros]: "sends_only P n (run_statement now f)"
  by (rule sends_silent) simp

lemma sends_see_others [sends_intros]: "sends_only P n (see_others pg)"
  by (rule sends_silent) (simp add: see_others_def)

lemma sends_execute [sends_intros]: "sends_only P n (execute pg f)"
  unfolding execute_def by (intro sends_intros)

lemma sends_execute_in [sends_intros]: "sends_only P n (execute_in pg now f)"
  unfolding execute_in_def by (intro sends_intros)

lemma sends_begin_tx [sends_intros]: "sends_only P n (begin_tx pg)"
  unfolding begin_tx_def by (intro sends_intros sends_silent) simp

lemma sent_or_rollback [simp]: "sent (snd (or_rollback d m s)) = sent (snd (m s))"
  by (simp add: or_rollback_def split: prod.splits sum.splits)

lemma sends_or_rollback [sends_intros]: "sends_only P n m \<Longrightarrow> sends_only P n (or_rollback d m)"
  by (simp add: sends_only_def)

lemma sends_commit [sends_intros]: "sends_only P n (commit pg)"
  unfolding commit_def by (intro sends_intros)

lemma sends_transaction [sends_intros]:
  "(\<And>now. sends_only P n (body now)) \<Longrightarrow> sends_only P n (transaction pg body)"
  unfolding transaction_def
  by (intro sends_andThen_reads sends_begin_tx) (auto intro!: sends_intros sends_andThen_last)

lemma quiet_round_trip: "quiet pg \<Longrightarrow> round_trip pg s = (Inr (), s)"
  by (simp add: quiet_def round_trip_def)

lemma quiet_see_others: "quiet pg \<Longrightarrow> see_others pg s = (Inr (pg_now pg (world s)), s)"
  by (simp add: quiet_def see_others_def)

lemma quiet_execute: "quiet pg \<Longrightarrow> execute pg f s = run_statement (pg_now pg (world s)) f s"
  by (simp add: execute_def andThen_def quiet_round_trip quiet_see_others)

lemma quiet_execute_in: "quiet pg \<Longrightarrow> execute_in pg now f s = run_statement now f s"
  by (simp add: execute_in_def andThen_def quiet_round_trip)

lemma quiet_begin_tx: "quiet pg \<Longrightarrow> begin_tx pg s = (Inr (pg_now pg (world s), db s), s)"
  by (simp add: begin_tx_def andThen_def quiet_round_trip quiet_see_others)

lemma quiet_transaction:
  "quiet pg \<Longrightarrow> transaction pg body s =
     (case body (pg_now pg (world s)) s of
        (Inl e, s') \<Rightarrow> (Inl e, s'\<lparr>db := db s\<rparr>)
      | (Inr x, s') \<Rightarrow> (Inr x, s'))"
  by (auto simp: transaction_def or_rollback_def commit_def andThen_def ret_def
      quiet_begin_tx quiet_round_trip split: prod.splits sum.splits)

lemmas quiet_simps = quiet_execute quiet_execute_in quiet_transaction

lemma execute_in_Inr: "execute_in pg now f s = (Inr x, t) \<Longrightarrow> f now (db s) = Inr (x, db t)"
  by (auto simp: execute_in_def round_trip_def run_statement_def andThen_def
      split: prod.splits option.splits sum.splits)

lemma execute_outcome_at:
  \<comment> \<open>a statement on the pool is applied once, at some moment of the server, or not at all\<close>
  assumes "no_other_writers pg" "execute pg f s = (res, t)"
  shows "(\<exists>e. res = Inl (Fault e) \<and> db t = db s) \<or> (\<exists>x w. res = Inr x \<and> f (pg_now pg w) (db s) = Inr (x, db t))"
  using assms by (auto simp: execute_def round_trip_def see_others_def run_statement_def andThen_def
      no_other_writers_def split: prod.splits option.splits sum.splits)

lemma execute_outcome:
  assumes "no_other_writers pg" "execute pg f s = (res, t)"
  shows "(\<exists>e. res = Inl (Fault e) \<and> db t = db s) \<or> (\<exists>x now. res = Inr x \<and> f now (db s) = Inr (x, db t))"
  using execute_outcome_at [OF assms] by blast

text \<open>A transaction that does not succeed leaves the tables as other sessions left them.\<close>

lemma transaction_atomic:
  assumes "transaction pg body s = (Inl e, s')"
  shows "db s' = db s \<or> db s' = pg_others pg (snd (pg_error pg (world s))) (db s)"
  using assms
  by (auto simp: transaction_def begin_tx_def see_others_def round_trip_def or_rollback_def
      andThen_def split: prod.splits sum.splits option.splits)

lemma transaction_Inr:
  assumes "transaction pg body s = (Inr x, s')"
  obtains now t u where "begin_tx pg s = (Inr (now, db t), t)" "body now t = (Inr x, u)"
    "db s' = db u" "db t = pg_others pg (world t) (db s)"
  using assms
  by (auto simp: transaction_def begin_tx_def see_others_def round_trip_def or_rollback_def commit_def
      andThen_def ret_def split: prod.splits sum.splits option.splits)

end
