(* ===== verification/League_Json.thy ===== *)
theory League_Json
  imports League_Config Database "HOL-Library.Monad_Syntax"
begin

section \<open>league\_config.rs: the configuration as JSON\<close>

text \<open>
  \<^verbatim>\<open>src/src/league_config.rs\<close>: what the derived \<open>Serialize\<close> of the configuration makes of it, with
  the names that the attributes of serde give, and \<open>dump_json\<close>, which the parity test with the
  TypeScript configuration reads. The layout of the printed text is a parameter. A reader by
  names, for which the order of the fields is of no matter, says what such a test can see.
\<close>

subsection \<open>The derived \<open>Serialize\<close>\<close>

definition json_u64 :: "u64 \<Rightarrow> json" where
  "json_u64 n = JInt (uint n)"

definition json_of_network :: "network \<Rightarrow> json" where
  "json_of_network n = JStr (case n of Devnet \<Rightarrow> ''devnet'' | Mainnet \<Rightarrow> ''mainnet'')"

definition json_of_reset_cadence :: "reset_cadence \<Rightarrow> json" where
  "json_of_reset_cadence c = JStr (case c of Weekly \<Rightarrow> ''weekly'' | Yearly \<Rightarrow> ''yearly'')"

definition json_of_quality_weights :: "quality_weights \<Rightarrow> json" where
  "json_of_quality_weights w = JObj
     [(''U'', json_f64 (qw_u w)), (''R'', json_f64 (qw_r w)),
      (''C'', json_f64 (qw_c w)), (''S'', json_f64 (qw_s w))]"

definition json_of_activation :: "activation_milestones \<Rightarrow> json" where
  "json_of_activation a = JObj
     [(''first_blink'', json_u64 (am_first_blink a)), (''first_stake'', json_u64 (am_first_stake a)),
      (''first_issuance'', json_u64 (am_first_issuance a)),
      (''first_five_unique_wallets'', json_u64 (am_first_five_unique_wallets a)),
      (''first_repeat_user'', json_u64 (am_first_repeat_user a))]"

definition json_of_growth :: "growth_milestones \<Rightarrow> json" where
  "json_of_growth g = JObj
     [(''twenty_five_unique_wallets'', json_u64 (gm_twenty_five_unique_wallets g)),
      (''ten_repeat_users'', json_u64 (gm_ten_repeat_users g))]"

definition json_of_social :: "social_milestones \<Rightarrow> json" where
  "json_of_social s = JObj
     [(''follow'', json_u64 (sm_follow s)), (''launch_thread'', json_u64 (sm_launch_thread s))]"

definition json_of_milestones :: "milestones_config \<Rightarrow> json" where
  "json_of_milestones m = JObj
     [(''activation'', json_of_activation (ms_activation m)), (''growth'', json_of_growth (ms_growth m)),
      (''social'', json_of_social (ms_social m))]"

definition json_of_wallet_weights :: "wallet_weights_config \<Rightarrow> json" where
  "json_of_wallet_weights w = JObj
     [(''founder'', json_f64 (ww_founder w)), (''team'', json_f64 (ww_team w)),
      (''external'', json_f64 (ww_external w)),
      (''external_repeat_after_gap'', json_f64 (ww_external_repeat_after_gap w))]"

definition json_of_daily_caps :: "daily_caps \<Rightarrow> json" where
  "json_of_daily_caps c = JObj
     [(''self'', json_u64 (dc_self c)), (''social'', json_u64 (dc_social c)), (''referral'', json_u64 (dc_referral c))]"

definition json_of_ranking_weights :: "ranking_weights \<Rightarrow> json" where
  "json_of_ranking_weights w = JObj
     [(''quality'', json_f64 (rk_quality w)), (''unique_wallets'', json_f64 (rk_unique_wallets w)),
      (''repeat_users'', json_f64 (rk_repeat_users w)), (''completions'', json_f64 (rk_completions w))]"

definition json_of_league_config :: "league_config \<Rightarrow> json" where
  "json_of_league_config c = JObj
     [(''network'', json_of_network (lc_network c)),
      (''starter_grant_rewardz'', json_u64 (lc_starter_grant_rewardz c)),
      (''issuance_ratio'', json_u64 (lc_issuance_ratio c)),
      (''capacity_reset_cadence'', json_of_reset_cadence (lc_capacity_reset_cadence c)),
      (''capacity_warning_thresholds'', JArr (map json_f64 (lc_capacity_warning_thresholds c))),
      (''quality_weights'', json_of_quality_weights (lc_quality_weights c)),
      (''milestones'', json_of_milestones (lc_milestones c)),
      (''wallet_weights'', json_of_wallet_weights (lc_wallet_weights c)),
      (''repeat_gap_hours'', json_u64 (lc_repeat_gap_hours c)),
      (''daily_caps'', json_of_daily_caps (lc_daily_caps c)),
      (''rewardz_publish_interval_secs'', json_u64 (lc_rewardz_publish_interval_secs c)),
      (''max_rewardz_per_epoch'', json_u64 (lc_max_rewardz_per_epoch c)),
      (''activity_window_hours'', json_u64 (lc_activity_window_hours c)),
      (''inactivity_window_hours'', json_u64 (lc_inactivity_window_hours c)),
      (''ranking_weights'', json_of_ranking_weights (lc_ranking_weights c)),
      (''leaderboard_top_n'', json_u64 (lc_leaderboard_top_n c)),
      (''leaderboard_bonus_rewardz'', json_u64 (lc_leaderboard_bonus_rewardz c))]"

definition dump_json :: "(json \<Rightarrow> string) \<Rightarrow> environment \<Rightarrow> ('s, string) prog" where
  \<comment> \<open>from the printer \<^verbatim>\<open>serde_json::to_string_pretty\<close>\<close>
  "dump_json to_string_pretty env = with_config env (\<lambda>cfg. ret (to_string_pretty (json_of_league_config cfg)))"

subsection \<open>A reader by names\<close>

definition the_field :: "string \<Rightarrow> (json \<Rightarrow> 'a option) \<Rightarrow> json \<Rightarrow> 'a option" where
  "the_field name read j =
     (case j of
        JObj members \<Rightarrow> (case filter (\<lambda>(k, v). k = name) members of [(k, v)] \<Rightarrow> read v | _ \<Rightarrow> None)
      | _ \<Rightarrow> None)"

definition read_u64_json :: "json \<Rightarrow> u64 option" where
  "read_u64_json j = (case j of JInt i \<Rightarrow> if 0 \<le> i \<and> i < 2 ^ 64 then Some (word_of_int i) else None | _ \<Rightarrow> None)"

definition read_f64_json :: "json \<Rightarrow> f64 option" where
  "read_f64_json j = (case j of JNum x \<Rightarrow> Some x | JInt i \<Rightarrow> Some (f64_of_int i) | _ \<Rightarrow> None)"

definition read_f64_array :: "json \<Rightarrow> f64 list option" where
  "read_f64_array j = (case j of JArr js \<Rightarrow> those (map read_f64_json js) | _ \<Rightarrow> None)"

definition read_name :: "(string \<times> 'a) list \<Rightarrow> json \<Rightarrow> 'a option" where
  "read_name names j = (case j of JStr s \<Rightarrow> map_of names s | _ \<Rightarrow> None)"

definition read_quality_weights :: "json \<Rightarrow> quality_weights option" where
  "read_quality_weights j =
     do {
       u \<leftarrow> the_field ''U'' read_f64_json j;
       r \<leftarrow> the_field ''R'' read_f64_json j;
       c \<leftarrow> the_field ''C'' read_f64_json j;
       s \<leftarrow> the_field ''S'' read_f64_json j;
       Some \<lparr>qw_u = u, qw_r = r, qw_c = c, qw_s = s\<rparr>
     }"

definition read_activation :: "json \<Rightarrow> activation_milestones option" where
  "read_activation j =
     do {
       blink \<leftarrow> the_field ''first_blink'' read_u64_json j;
       stake \<leftarrow> the_field ''first_stake'' read_u64_json j;
       issuance \<leftarrow> the_field ''first_issuance'' read_u64_json j;
       five \<leftarrow> the_field ''first_five_unique_wallets'' read_u64_json j;
       again \<leftarrow> the_field ''first_repeat_user'' read_u64_json j;
       Some \<lparr>am_first_blink = blink, am_first_stake = stake, am_first_issuance = issuance,
             am_first_five_unique_wallets = five, am_first_repeat_user = again\<rparr>
     }"

definition read_milestones :: "json \<Rightarrow> milestones_config option" where
  "read_milestones j =
     do {
       a \<leftarrow> the_field ''activation'' read_activation j;
       g \<leftarrow> the_field ''growth'' (\<lambda>g. do {
              wallets \<leftarrow> the_field ''twenty_five_unique_wallets'' read_u64_json g;
              users \<leftarrow> the_field ''ten_repeat_users'' read_u64_json g;
              Some \<lparr>gm_twenty_five_unique_wallets = wallets, gm_ten_repeat_users = users\<rparr> }) j;
       s \<leftarrow> the_field ''social'' (\<lambda>s. do {
              follow \<leftarrow> the_field ''follow'' read_u64_json s;
              launch \<leftarrow> the_field ''launch_thread'' read_u64_json s;
              Some \<lparr>sm_follow = follow, sm_launch_thread = launch\<rparr> }) j;
       Some \<lparr>ms_activation = a, ms_growth = g, ms_social = s\<rparr>
     }"

definition read_wallet_weights :: "json \<Rightarrow> wallet_weights_config option" where
  "read_wallet_weights j =
     do {
       founder \<leftarrow> the_field ''founder'' read_f64_json j;
       team \<leftarrow> the_field ''team'' read_f64_json j;
       ext \<leftarrow> the_field ''external'' read_f64_json j;
       gap \<leftarrow> the_field ''external_repeat_after_gap'' read_f64_json j;
       Some \<lparr>ww_founder = founder, ww_team = team, ww_external = ext, ww_external_repeat_after_gap = gap\<rparr>
     }"

definition read_daily_caps :: "json \<Rightarrow> daily_caps option" where
  "read_daily_caps j =
     do {
       own \<leftarrow> the_field ''self'' read_u64_json j;
       social \<leftarrow> the_field ''social'' read_u64_json j;
       referral \<leftarrow> the_field ''referral'' read_u64_json j;
       Some \<lparr>dc_self = own, dc_social = social, dc_referral = referral\<rparr>
     }"

definition read_ranking_weights :: "json \<Rightarrow> ranking_weights option" where
  "read_ranking_weights j =
     do {
       quality \<leftarrow> the_field ''quality'' read_f64_json j;
       wallets \<leftarrow> the_field ''unique_wallets'' read_f64_json j;
       users \<leftarrow> the_field ''repeat_users'' read_f64_json j;
       done_with \<leftarrow> the_field ''completions'' read_f64_json j;
       Some \<lparr>rk_quality = quality, rk_unique_wallets = wallets, rk_repeat_users = users, rk_completions = done_with\<rparr>
     }"

definition read_league_config :: "json \<Rightarrow> league_config option" where
  "read_league_config j =
     do {
       network \<leftarrow> the_field ''network'' (read_name [(''devnet'', Devnet), (''mainnet'', Mainnet)]) j;
       grant \<leftarrow> the_field ''starter_grant_rewardz'' read_u64_json j;
       ratio \<leftarrow> the_field ''issuance_ratio'' read_u64_json j;
       cadence \<leftarrow> the_field ''capacity_reset_cadence'' (read_name [(''weekly'', Weekly), (''yearly'', Yearly)]) j;
       thresholds \<leftarrow> the_field ''capacity_warning_thresholds'' read_f64_array j;
       quality \<leftarrow> the_field ''quality_weights'' read_quality_weights j;
       milestones \<leftarrow> the_field ''milestones'' read_milestones j;
       wallets \<leftarrow> the_field ''wallet_weights'' read_wallet_weights j;
       gap \<leftarrow> the_field ''repeat_gap_hours'' read_u64_json j;
       caps \<leftarrow> the_field ''daily_caps'' read_daily_caps j;
       interval \<leftarrow> the_field ''rewardz_publish_interval_secs'' read_u64_json j;
       most \<leftarrow> the_field ''max_rewardz_per_epoch'' read_u64_json j;
       active \<leftarrow> the_field ''activity_window_hours'' read_u64_json j;
       inactive \<leftarrow> the_field ''inactivity_window_hours'' read_u64_json j;
       ranking \<leftarrow> the_field ''ranking_weights'' read_ranking_weights j;
       top \<leftarrow> the_field ''leaderboard_top_n'' read_u64_json j;
       bonus \<leftarrow> the_field ''leaderboard_bonus_rewardz'' read_u64_json j;
       Some
         \<lparr>lc_network = network, lc_starter_grant_rewardz = grant, lc_issuance_ratio = ratio,
          lc_capacity_reset_cadence = cadence, lc_capacity_warning_thresholds = thresholds,
          lc_quality_weights = quality, lc_milestones = milestones, lc_wallet_weights = wallets,
          lc_repeat_gap_hours = gap, lc_daily_caps = caps, lc_rewardz_publish_interval_secs = interval,
          lc_max_rewardz_per_epoch = most, lc_activity_window_hours = active,
          lc_inactivity_window_hours = inactive, lc_ranking_weights = ranking,
          lc_leaderboard_top_n = top, lc_leaderboard_bonus_rewardz = bonus\<rparr>
     }"

subsection \<open>The round trip\<close>

definition is_number :: "f64 \<Rightarrow> bool" where
  "is_number x \<longleftrightarrow> (case x of Fin r \<Rightarrow> True | _ \<Rightarrow> False)"

definition numbers_only :: "league_config \<Rightarrow> bool" where
  "numbers_only c \<longleftrightarrow>
     list_all is_number (lc_capacity_warning_thresholds c)
     \<and> list_all is_number [qw_u (lc_quality_weights c), qw_r (lc_quality_weights c), qw_c (lc_quality_weights c),
         qw_s (lc_quality_weights c)]
     \<and> list_all is_number [ww_founder (lc_wallet_weights c), ww_team (lc_wallet_weights c), ww_external (lc_wallet_weights c),
         ww_external_repeat_after_gap (lc_wallet_weights c)]
     \<and> list_all is_number [rk_quality (lc_ranking_weights c), rk_unique_wallets (lc_ranking_weights c),
         rk_repeat_users (lc_ranking_weights c), rk_completions (lc_ranking_weights c)]"

lemma the_field_hit [simp]:
  "\<forall>(k', v') \<in> set members. k' \<noteq> k \<Longrightarrow> the_field k read (JObj ((k, v) # members)) = read v"
proof -
  assume "\<forall>(k', v') \<in> set members. k' \<noteq> k"
  then have "filter (\<lambda>(k', v). k' = k) members = []" by (auto simp: filter_empty_conv)
  then show ?thesis by (simp add: the_field_def)
qed

lemma the_field_skip [simp]: "k' \<noteq> k \<Longrightarrow> the_field k read (JObj ((k', v) # members)) = the_field k read (JObj members)"
  by (simp add: the_field_def)

lemma read_json_u64 [simp]: "read_u64_json (json_u64 n) = Some n"
  using uint_lt2p [of n] by (simp add: read_u64_json_def json_u64_def)

lemma read_json_f64 [simp]: "is_number x \<Longrightarrow> read_f64_json (json_f64 x) = Some x"
  by (cases x) (simp_all add: read_f64_json_def json_f64_def is_number_def)

lemma read_json_f64_array [simp]: "list_all is_number xs \<Longrightarrow> read_f64_array (JArr (map json_f64 xs)) = Some xs"
  unfolding read_f64_array_def json.case by (induction xs) simp_all

lemma read_json_structs [simp]:
  "read_activation (json_of_activation a) = Some a"
  "read_milestones (json_of_milestones m) = Some m"
  "read_daily_caps (json_of_daily_caps caps) = Some caps"
proof -
  show act: "read_activation (json_of_activation a) = Some a" for a
    by (simp add: read_activation_def json_of_activation_def)
  show "read_milestones (json_of_milestones m) = Some m"
    by (simp add: read_milestones_def json_of_milestones_def json_of_growth_def json_of_social_def act)
  show "read_daily_caps (json_of_daily_caps caps) = Some caps"
    by (simp add: read_daily_caps_def json_of_daily_caps_def)
qed

text \<open>
  C39: the dump loses nothing. What \<open>print-league-config\<close> prints, as the JSON value it is the text
  of, determines the whole configuration: reading the fields by their names gives back the
  network, the cadence, every amount of 64 bits and every weight, as long as the weights are
  numbers; so the parity test sees any difference between the two configurations.
\<close>

theorem league_json_roundtrip:
  assumes "numbers_only c"
  shows "read_league_config (json_of_league_config c) = Some c"
proof -
  have weights: "read_quality_weights (json_of_quality_weights (lc_quality_weights c)) = Some (lc_quality_weights c)"
    "read_wallet_weights (json_of_wallet_weights (lc_wallet_weights c)) = Some (lc_wallet_weights c)"
    "read_ranking_weights (json_of_ranking_weights (lc_ranking_weights c)) = Some (lc_ranking_weights c)"
    using assms by (simp_all add: numbers_only_def read_quality_weights_def json_of_quality_weights_def
        read_wallet_weights_def json_of_wallet_weights_def read_ranking_weights_def json_of_ranking_weights_def)
  have names: "read_name [(''devnet'', Devnet), (''mainnet'', Mainnet)] (json_of_network (lc_network c)) = Some (lc_network c)"
    "read_name [(''weekly'', Weekly), (''yearly'', Yearly)] (json_of_reset_cadence (lc_capacity_reset_cadence c)) =
       Some (lc_capacity_reset_cadence c)"
    by (simp_all add: read_name_def json_of_network_def json_of_reset_cadence_def split: network.splits reset_cadence.splits)
  have thresholds: "read_f64_array (JArr (map json_f64 (lc_capacity_warning_thresholds c))) = Some (lc_capacity_warning_thresholds c)"
    using assms by (simp add: numbers_only_def)
  show ?thesis
    unfolding read_league_config_def json_of_league_config_def
    by (simp add: weights names thresholds)
qed

theorem league_json_roundtrip_witness:
  "read_league_config (json_of_league_config DEVNET) = Some DEVNET
   \<and> read_league_config (json_of_league_config MAINNET) = Some MAINNET"
  by (intro conjI league_json_roundtrip) (simp_all add: numbers_only_def is_number_def DEVNET_def MAINNET_def to_f64_small)

end
