(* ===== verification/Unit_Tests.thy ===== *)
theory Unit_Tests
  imports Rewardz_Merkle Game_Loop
begin

section \<open>The unit tests of the repository, on the model\<close>

text \<open>
  The test modules of \<^verbatim>\<open>merkle.rs\<close>, \<^verbatim>\<open>rewardz_merkle.rs\<close> and \<^verbatim>\<open>game_loop.rs\<close>: each test is a
  definition that is true when its assertions hold and nothing panics, over the parameter
  \<open>keccak\<close>. The tests run in a debug build. Most pass whatever the hash function is; a test that
  expects two hashes to differ passes when the inputs that it hashes do not collide.
\<close>

definition test_pubkey :: "u8 \<Rightarrow> pubkey" where
  "test_pubkey byte = replicate 32 byte"

definition test_entries :: "nat \<Rightarrow> u64 \<Rightarrow> (pubkey \<times> u64) list" where
  \<comment> \<open>\<open>(1..=n).map(|i| (test_pubkey(i), i as u64 * step)).collect()\<close>\<close>
  "test_entries n step = map (\<lambda>i. (test_pubkey (word_of_nat i), word_of_nat i * step)) [1..<Suc n]"

definition entry_verifies :: "(bytes \<Rightarrow> bytes) \<Rightarrow> merkle_tree \<Rightarrow> pubkey \<times> u64 \<Rightarrow> bool" where
  "entry_verifies keccak tree e =
     (case mt_proofs tree (fst e) of
        None \<Rightarrow> False
      | Some pf \<Rightarrow> verify_proof keccak (hash_leaf keccak (fst e) (snd e)) pf (mt_root tree))"

definition every_proof_verifies :: "(bytes \<Rightarrow> bytes) \<Rightarrow> (pubkey \<times> u64) list \<Rightarrow> bool" where
  "every_proof_verifies keccak entries =
     (case build_merkle_tree keccak entries of
        None \<Rightarrow> False
      | Some tree \<Rightarrow> list_all (entry_verifies keccak tree) entries)"

subsection \<open>merkle.rs\<close>

definition test_hash_leaf_deterministic :: "(bytes \<Rightarrow> bytes) \<Rightarrow> bool" where
  "test_hash_leaf_deterministic keccak \<longleftrightarrow>
     hash_leaf keccak (replicate 32 1) 100 = hash_leaf keccak (replicate 32 1) 100"

definition test_hash_leaf_different_points :: "(bytes \<Rightarrow> bytes) \<Rightarrow> bool" where
  "test_hash_leaf_different_points keccak \<longleftrightarrow>
     hash_leaf keccak (replicate 32 1) 100 \<noteq> hash_leaf keccak (replicate 32 1) 200"

definition test_hash_leaf_different_authority :: "(bytes \<Rightarrow> bytes) \<Rightarrow> bool" where
  "test_hash_leaf_different_authority keccak \<longleftrightarrow>
     hash_leaf keccak (replicate 32 1) 100 \<noteq> hash_leaf keccak (replicate 32 2) 100"

definition test_hash_pair_sorted :: "(bytes \<Rightarrow> bytes) \<Rightarrow> bool" where
  "test_hash_pair_sorted keccak \<longleftrightarrow>
     hash_pair keccak (replicate 32 1) (replicate 32 2) = hash_pair keccak (replicate 32 2) (replicate 32 1)"

definition test_hash_pair_same_inputs :: "(bytes \<Rightarrow> bytes) \<Rightarrow> bool" where
  "test_hash_pair_same_inputs keccak \<longleftrightarrow>
     hash_pair keccak (replicate 32 5) (replicate 32 5) = keccak (replicate 32 5 @ replicate 32 5)"

definition test_empty_entries :: "(bytes \<Rightarrow> bytes) \<Rightarrow> bool" where
  "test_empty_entries keccak \<longleftrightarrow> build_merkle_tree keccak [] = None"

definition test_single_leaf :: "(bytes \<Rightarrow> bytes) \<Rightarrow> bool" where
  "test_single_leaf keccak =
     (let pk = test_pubkey 1; expected_root = hash_leaf keccak pk 500 in
      case build_merkle_tree keccak [(pk, 500)] of
        None \<Rightarrow> False
      | Some tree \<Rightarrow> mt_root tree = expected_root \<and>
          (case mt_proofs tree pk of
             None \<Rightarrow> False
           | Some pf \<Rightarrow> pf = [] \<and> verify_proof keccak expected_root pf (mt_root tree)))"

definition test_two_leaves :: "(bytes \<Rightarrow> bytes) \<Rightarrow> bool" where
  "test_two_leaves keccak =
     (let pk1 = test_pubkey 1; pk2 = test_pubkey 2;
          leaf1 = hash_leaf keccak pk1 100; leaf2 = hash_leaf keccak pk2 200 in
      case build_merkle_tree keccak [(pk1, 100), (pk2, 200)] of
        None \<Rightarrow> False
      | Some tree \<Rightarrow> mt_root tree = hash_pair keccak leaf1 leaf2 \<and>
          (case mt_proofs tree pk1 of
             None \<Rightarrow> False
           | Some proof1 \<Rightarrow> length proof1 = 1 \<and> proof1 ! 0 = leaf2 \<and> verify_proof keccak leaf1 proof1 (mt_root tree)) \<and>
          (case mt_proofs tree pk2 of
             None \<Rightarrow> False
           | Some proof2 \<Rightarrow> length proof2 = 1 \<and> proof2 ! 0 = leaf1 \<and> verify_proof keccak leaf2 proof2 (mt_root tree)))"

definition test_four_leaves_power_of_2 :: "(bytes \<Rightarrow> bytes) \<Rightarrow> bool" where
  "test_four_leaves_power_of_2 keccak = every_proof_verifies keccak (test_entries 4 100)"

definition test_eight_leaves_power_of_2 :: "(bytes \<Rightarrow> bytes) \<Rightarrow> bool" where
  "test_eight_leaves_power_of_2 keccak = every_proof_verifies keccak (test_entries 8 50)"

definition test_three_leaves_non_power_of_2 :: "(bytes \<Rightarrow> bytes) \<Rightarrow> bool" where
  "test_three_leaves_non_power_of_2 keccak = every_proof_verifies keccak (test_entries 3 100)"

definition test_five_leaves_non_power_of_2 :: "(bytes \<Rightarrow> bytes) \<Rightarrow> bool" where
  "test_five_leaves_non_power_of_2 keccak = every_proof_verifies keccak (test_entries 5 100)"

definition test_seven_leaves_non_power_of_2 :: "(bytes \<Rightarrow> bytes) \<Rightarrow> bool" where
  "test_seven_leaves_non_power_of_2 keccak = every_proof_verifies keccak (test_entries 7 100)"

definition two_leaf_case :: "(bytes \<Rightarrow> bytes) \<Rightarrow> (merkle_tree \<Rightarrow> bytes list \<Rightarrow> bool) \<Rightarrow> bool" where
  \<comment> \<open>the tree over two entries and the proof of the first\<close>
  "two_leaf_case keccak check =
     (case build_merkle_tree keccak [(test_pubkey 1, 100), (test_pubkey 2, 200)] of
        None \<Rightarrow> False
      | Some tree \<Rightarrow> (case mt_proofs tree (test_pubkey 1) of None \<Rightarrow> False | Some proof1 \<Rightarrow> check tree proof1))"

definition test_verify_proof_with_wrong_root_fails :: "(bytes \<Rightarrow> bytes) \<Rightarrow> bool" where
  "test_verify_proof_with_wrong_root_fails keccak =
     two_leaf_case keccak (\<lambda>tree proof1.
       \<not> verify_proof keccak (hash_leaf keccak (test_pubkey 1) 100) proof1 (replicate 32 255))"

definition test_verify_proof_with_wrong_leaf_fails :: "(bytes \<Rightarrow> bytes) \<Rightarrow> bool" where
  "test_verify_proof_with_wrong_leaf_fails keccak =
     two_leaf_case keccak (\<lambda>tree proof1.
       \<not> verify_proof keccak (hash_leaf keccak (test_pubkey 1) 999) proof1 (mt_root tree))"

definition test_matches_onchain_algorithm :: "(bytes \<Rightarrow> bytes) \<Rightarrow> bool" where
  "test_matches_onchain_algorithm keccak =
     (let authority = replicate 32 42; a = replicate 32 1; b = replicate 32 2 in
      hash_leaf keccak authority 1234 = keccak (authority @ u64_le 1234)
      \<and> hash_pair keccak a b = keccak (if a \<le> b then a @ b else b @ a))"

definition test_deterministic :: "(bytes \<Rightarrow> bytes) \<Rightarrow> bool" where
  "test_deterministic keccak =
     (case (build_merkle_tree keccak (test_entries 5 100), build_merkle_tree keccak (test_entries 5 100)) of
        (Some tree1, Some tree2) \<Rightarrow> mt_root tree1 = mt_root tree2
      | _ \<Rightarrow> False)"

subsection \<open>rewardz\_merkle.rs\<close>

definition rewardz_tree_passes :: "(bytes \<Rightarrow> bytes) \<Rightarrow> (pubkey \<times> u64) list \<Rightarrow> (rewardz_merkle_tree \<Rightarrow> bool) \<Rightarrow> bool" where
  \<comment> \<open>\<open>build_rewardz_tree(&entries).unwrap()\<close> in a debug build, and what is asserted of it\<close>
  "rewardz_tree_passes keccak entries check =
     (case build_rewardz_tree Debug keccak entries of Inr (Some tree) \<Rightarrow> check tree | _ \<Rightarrow> False)"

definition rewardz_entry_verifies :: "(bytes \<Rightarrow> bytes) \<Rightarrow> rewardz_merkle_tree \<Rightarrow> pubkey \<times> u64 \<Rightarrow> bool" where
  "rewardz_entry_verifies keccak tree e =
     (case rt_proofs tree (fst e) of
        None \<Rightarrow> False
      | Some pf \<Rightarrow> verify_rewardz_proof keccak (hash_rewardz_leaf keccak (fst e) (snd e)) pf (rt_root tree))"

definition test_empty_returns_none :: "(bytes \<Rightarrow> bytes) \<Rightarrow> bool" where
  "test_empty_returns_none keccak \<longleftrightarrow> build_rewardz_tree Debug keccak [] = Inr None"

definition test_single_leaf_root_equals_leaf_hash :: "(bytes \<Rightarrow> bytes) \<Rightarrow> bool" where
  "test_single_leaf_root_equals_leaf_hash keccak =
     (let a = test_pubkey 1 in
      rewardz_tree_passes keccak [(a, 500)] (\<lambda>tree.
        rt_root tree = hash_rewardz_leaf keccak a 500 \<and> rt_proofs tree a = Some []))"

definition test_two_leaves_proofs_verify :: "(bytes \<Rightarrow> bytes) \<Rightarrow> bool" where
  "test_two_leaves_proofs_verify keccak =
     (let entries = [(test_pubkey 1, 100), (test_pubkey 2, 200)] in
      rewardz_tree_passes keccak entries (\<lambda>tree. list_all (rewardz_entry_verifies keccak tree) entries))"

definition test_non_power_of_two_proofs_verify :: "(bytes \<Rightarrow> bytes) \<Rightarrow> bool" where
  "test_non_power_of_two_proofs_verify keccak =
     rewardz_tree_passes keccak (test_entries 5 77)
       (\<lambda>tree. list_all (rewardz_entry_verifies keccak tree) (test_entries 5 77))"

definition test_tampered_amount_fails_verification :: "(bytes \<Rightarrow> bytes) \<Rightarrow> bool" where
  "test_tampered_amount_fails_verification keccak =
     (let a = test_pubkey 1; b = test_pubkey 2 in
      rewardz_tree_passes keccak [(a, 100), (b, 200)] (\<lambda>tree.
        case rt_proofs tree a of
          None \<Rightarrow> False
        | Some pf \<Rightarrow> \<not> verify_rewardz_proof keccak (hash_rewardz_leaf keccak a 999) pf (rt_root tree)))"

definition test_matches_design_note_leaf :: "(bytes \<Rightarrow> bytes) \<Rightarrow> bool" where
  "test_matches_design_note_leaf keccak \<longleftrightarrow>
     hash_rewardz_leaf keccak (replicate 32 0xAB) 12345 = keccak (replicate 32 0xAB @ u64_le 12345)"

definition test_deterministic_root :: "(bytes \<Rightarrow> bytes) \<Rightarrow> bool" where
  "test_deterministic_root keccak =
     (let entries = sort_key fst (test_entries 4 11) in
      rewardz_tree_passes keccak entries (\<lambda>t1.
      rewardz_tree_passes keccak entries (\<lambda>t2. rt_root t1 = rt_root t2)))"

subsection \<open>game\_loop.rs\<close>

definition make_round :: "u64 \<Rightarrow> bool \<Rightarrow> game_round_state" where
  "make_round round_id settled =
     \<lparr>gr_round_id = round_id, gr_end_slot = 100, gr_player_count = 0, gr_settled = settled\<rparr>"

definition should_skip_when_target_round_active :: bool where
  "should_skip_when_target_round_active \<longleftrightarrow> should_skip_start_round (Some (make_round 1 False))"

definition should_not_skip_when_target_round_absent :: bool where
  "should_not_skip_when_target_round_absent \<longleftrightarrow> \<not> should_skip_start_round None"

definition should_not_skip_when_target_round_settled :: bool where
  "should_not_skip_when_target_round_settled \<longleftrightarrow> \<not> should_skip_start_round (Some (make_round 1 True))"

definition start_round_outcome_reports_skip_round_id :: bool where
  "start_round_outcome_reports_skip_round_id \<longleftrightarrow>
     (case Skipped 42 of Skipped round_id \<Rightarrow> round_id = 42 | Submitted sig \<Rightarrow> False)"

subsection \<open>The suites\<close>

definition merkle_tests :: "((bytes \<Rightarrow> bytes) \<Rightarrow> bool) list" where
  "merkle_tests =
     [test_hash_leaf_deterministic, test_hash_leaf_different_points, test_hash_leaf_different_authority,
      test_hash_pair_sorted, test_hash_pair_same_inputs, test_empty_entries, test_single_leaf,
      test_two_leaves, test_four_leaves_power_of_2, test_eight_leaves_power_of_2,
      test_three_leaves_non_power_of_2, test_five_leaves_non_power_of_2, test_seven_leaves_non_power_of_2,
      test_verify_proof_with_wrong_root_fails, test_verify_proof_with_wrong_leaf_fails,
      test_matches_onchain_algorithm, test_deterministic]"

definition rewardz_merkle_tests :: "((bytes \<Rightarrow> bytes) \<Rightarrow> bool) list" where
  "rewardz_merkle_tests =
     [test_empty_returns_none, test_single_leaf_root_equals_leaf_hash, test_two_leaves_proofs_verify,
      test_non_power_of_two_proofs_verify, test_tampered_amount_fails_verification,
      test_matches_design_note_leaf, test_deterministic_root]"

definition game_loop_tests :: "bool list" where
  "game_loop_tests =
     [should_skip_when_target_round_active, should_not_skip_when_target_round_absent,
      should_not_skip_when_target_round_settled, start_round_outcome_reports_skip_round_id]"

text \<open>What the hash has to keep apart for the tests that expect a difference.\<close>

definition leaves_of_tests :: "bytes set" where
  "leaves_of_tests =
     {leaf_input (test_pubkey 1) 100, leaf_input (test_pubkey 1) 200, leaf_input (test_pubkey 1) 999,
      leaf_input (test_pubkey 2) 100, leaf_input (test_pubkey 2) 200}"

definition pairs_of_tests :: "(bytes \<Rightarrow> bytes) \<Rightarrow> bytes set" where
  "pairs_of_tests keccak =
     {pair_input (hash_leaf keccak (test_pubkey 1) 100) (hash_leaf keccak (test_pubkey 2) 200),
      pair_input (hash_leaf keccak (test_pubkey 1) 999) (hash_leaf keccak (test_pubkey 2) 200)}"

definition test_root :: "(bytes \<Rightarrow> bytes) \<Rightarrow> bytes" where
  "test_root keccak =
     hash_pair keccak (hash_leaf keccak (test_pubkey 1) 100) (hash_leaf keccak (test_pubkey 2) 200)"

subsection \<open>The trees of the tests\<close>

lemma test_pubkey_inject [simp]: "test_pubkey a = test_pubkey b \<longleftrightarrow> a = b"
  by (simp add: test_pubkey_def)

lemma test_entries_distinct:
  assumes "n < 256"
  shows "distinct (map fst (test_entries n step))"
proof -
  have "inj_on (\<lambda>i. test_pubkey (word_of_nat i)) (set [1..<Suc n])"
    using assms by (intro inj_onI) (simp add: word_of_nat_eq_iff take_bit_nat_eq_self del: upt_Suc)
  then show ?thesis
    by (simp add: test_entries_def distinct_map comp_def del: upt_Suc)
qed

lemma test_entries_nonempty: "0 < n \<Longrightarrow> test_entries n step \<noteq> []"
  by (simp add: test_entries_def del: upt_Suc)

lemma every_proof_verifies_distinct:
  assumes "distinct (map fst entries)" and "entries \<noteq> []"
  shows "every_proof_verifies keccak entries"
proof -
  obtain t where t: "build_merkle_tree keccak entries = Some t"
    using assms(2) by (cases "build_merkle_tree keccak entries") auto
  have "entry_verifies keccak t e" if e: "e \<in> set entries" for e
  proof -
    from e have "(fst e, snd e) \<in> set entries" by simp
    then obtain pf where "mt_proofs t (fst e) = Some pf"
        and "verify_proof keccak (hash_leaf keccak (fst e) (snd e)) pf (mt_root t)"
      by (rule entry_proof_verifies [OF assms(1) _ t])
    then show ?thesis by (simp add: entry_verifies_def)
  qed
  with t show ?thesis by (simp add: every_proof_verifies_def list_all_iff)
qed

lemma test_entries_verify:
  assumes "0 < n" and "n < 256"
  shows "every_proof_verifies keccak (test_entries n step)"
  using assms by (intro every_proof_verifies_distinct test_entries_distinct test_entries_nonempty)

lemma tower_small:
  "tower pair [x] = [[x]]"
  "tower pair [x, y] = [[x, y], [pair x y]]"
  by (simp_all add: tower.simps pair_up.simps)

lemma two_leaf_tree:
  assumes "a \<noteq> b"
  shows "\<exists>t. build_merkle_tree keccak [(a, x), (b, y)] = Some t
    \<and> mt_root t = hash_pair keccak (hash_leaf keccak a x) (hash_leaf keccak b y)
    \<and> mt_proofs t a = Some [hash_leaf keccak b y] \<and> mt_proofs t b = Some [hash_leaf keccak a x]"
  using assms by (simp add: build_merkle_tree_eq tower_small)

lemma one_leaf_tree:
  "\<exists>t. build_merkle_tree keccak [(a, x)] = Some t \<and> mt_root t = hash_leaf keccak a x
    \<and> mt_proofs t a = Some []"
  by (simp add: build_merkle_tree_eq tower_small)

lemma rewardz_passes:
  assumes "sorted (map fst entries)" and "distinct (map fst entries)"
    and "build_merkle_tree keccak entries = Some t" and "check (rewardz_tree_of t)"
  shows "rewardz_tree_passes keccak entries check"
  using assms by (simp add: rewardz_tree_passes_def build_rewardz_tree_eq)

lemma rewardz_proofs_pass:
  assumes "sorted (map fst entries)" and "distinct (map fst entries)" and "entries \<noteq> []"
  shows "rewardz_tree_passes keccak entries (\<lambda>tree. list_all (rewardz_entry_verifies keccak tree) entries)"
proof -
  obtain t where t: "build_merkle_tree keccak entries = Some t"
    using assms(3) by (cases "build_merkle_tree keccak entries") auto
  have "list_all (entry_verifies keccak t) entries"
    using every_proof_verifies_distinct [OF assms(2,3), of keccak] t by (simp add: every_proof_verifies_def)
  then have "list_all (rewardz_entry_verifies keccak (rewardz_tree_of t)) entries"
    by (simp add: list_all_iff entry_verifies_def rewardz_entry_verifies_def rewardz_tree_of_def
        verify_rewardz_proof_def split: option.splits)
  then show ?thesis by (rule rewardz_passes [OF assms(1,2) t])
qed

lemma leaf_differs:
  assumes "inj_on keccak H" and "leaf_input (test_pubkey a) x \<in> H" and "leaf_input (test_pubkey b) y \<in> H"
    and "a \<noteq> b \<or> x \<noteq> y"
  shows "hash_leaf keccak (test_pubkey a) x \<noteq> hash_leaf keccak (test_pubkey b) y"
proof -
  have "leaf_input (test_pubkey a) x \<noteq> leaf_input (test_pubkey b) y"
    using assms(4) by (subst leaf_input_inject) (auto simp: test_pubkey_def)
  with assms(1-3) show ?thesis by (auto simp: hash_leaf_def dest: inj_onD)
qed

lemma root_differs:
  assumes len: "\<And>x. length (keccak x) = 32"
    and inj: "inj_on keccak (leaves_of_tests \<union> pairs_of_tests keccak)"
  shows "hash_pair keccak (hash_leaf keccak (test_pubkey 1) 999) (hash_leaf keccak (test_pubkey 2) 200) \<noteq>
    test_root keccak"
proof
  let ?a = "hash_leaf keccak (test_pubkey 1) 100" and ?b = "hash_leaf keccak (test_pubkey 2) 200"
    and ?c = "hash_leaf keccak (test_pubkey 1) 999"
  assume "hash_pair keccak ?c ?b = test_root keccak"
  then have "keccak (pair_input ?c ?b) = keccak (pair_input ?a ?b)"
    by (simp add: test_root_def hash_pair_def)
  then have "pair_input ?c ?b = pair_input ?a ?b"
    by (rule inj_onD [OF inj]) (simp_all add: pairs_of_tests_def)
  then have "?c = ?a \<or> ?c = ?b"
    by (intro pair_input_member [of _ 32]) (simp_all add: hash_leaf_def len)
  moreover have "?c \<noteq> ?a" "?c \<noteq> ?b"
    by (rule leaf_differs [OF inj]; simp add: leaves_of_tests_def)+
  ultimately show False by simp
qed

lemma two_leaf_case_iff:
  "two_leaf_case keccak check \<longleftrightarrow>
     (\<exists>t. build_merkle_tree keccak [(test_pubkey 1, 100), (test_pubkey 2, 200)] = Some t
       \<and> mt_root t = test_root keccak
       \<and> check t [hash_leaf keccak (test_pubkey 2) 200])"
  using two_leaf_tree [of "test_pubkey 1" "test_pubkey 2" keccak 100 200]
  by (auto simp: two_leaf_case_def test_root_def)

lemma merkle_suite_passes:
  assumes len: "\<And>x. length (keccak x) = 32"
    and inj: "inj_on keccak (leaves_of_tests \<union> pairs_of_tests keccak)"
    and root: "test_root keccak \<noteq> replicate 32 255"
  shows "list_all (\<lambda>test. test keccak) merkle_tests"
proof -
  have "test_hash_leaf_different_points keccak"
    unfolding test_hash_leaf_different_points_def test_pubkey_def [symmetric]
    by (rule leaf_differs [OF inj]) (simp_all add: leaves_of_tests_def)
  moreover have "test_hash_leaf_different_authority keccak"
    unfolding test_hash_leaf_different_authority_def test_pubkey_def [symmetric]
    by (rule leaf_differs [OF inj]) (simp_all add: leaves_of_tests_def)
  moreover have "test_hash_leaf_deterministic keccak" "test_hash_pair_sorted keccak"
      "test_hash_pair_same_inputs keccak" "test_empty_entries keccak" "test_matches_onchain_algorithm keccak"
    by (simp_all add: test_hash_leaf_deterministic_def test_hash_pair_sorted_def hash_pair_comm
        test_hash_pair_same_inputs_def test_empty_entries_def test_matches_onchain_algorithm_def
        hash_leaf_def leaf_input_def hash_pair_def pair_input_def Let_def)
  moreover have "test_single_leaf keccak"
    using one_leaf_tree [of keccak "test_pubkey 1" 500] by (auto simp: test_single_leaf_def verify_proof_def)
  moreover have "test_two_leaves keccak"
    using two_leaf_tree [of "test_pubkey 1" "test_pubkey 2" keccak 100 200]
      hash_pair_comm [of keccak "hash_leaf keccak (test_pubkey 2) 200" "hash_leaf keccak (test_pubkey 1) 100"]
    by (auto simp: test_two_leaves_def verify_proof_def)
  moreover have "test_four_leaves_power_of_2 keccak" "test_eight_leaves_power_of_2 keccak"
      "test_three_leaves_non_power_of_2 keccak" "test_five_leaves_non_power_of_2 keccak"
      "test_seven_leaves_non_power_of_2 keccak"
    unfolding test_four_leaves_power_of_2_def test_eight_leaves_power_of_2_def
      test_three_leaves_non_power_of_2_def test_five_leaves_non_power_of_2_def
      test_seven_leaves_non_power_of_2_def
    by (rule test_entries_verify; simp)+
  moreover have "test_verify_proof_with_wrong_root_fails keccak"
    using root two_leaf_tree [of "test_pubkey 1" "test_pubkey 2" keccak 100 200]
    by (auto simp: test_verify_proof_with_wrong_root_fails_def two_leaf_case_iff verify_proof_def test_root_def)
  moreover have "test_verify_proof_with_wrong_leaf_fails keccak"
    using root_differs [OF len inj] two_leaf_tree [of "test_pubkey 1" "test_pubkey 2" keccak 100 200]
    by (auto simp: test_verify_proof_with_wrong_leaf_fails_def two_leaf_case_iff verify_proof_def test_root_def)
  moreover have "test_deterministic keccak"
  proof -
    obtain t where "build_merkle_tree keccak (test_entries 5 100) = Some t"
      using test_entries_nonempty [of 5 100] by (cases "build_merkle_tree keccak (test_entries 5 100)") auto
    then show ?thesis by (simp add: test_deterministic_def)
  qed
  ultimately show ?thesis unfolding merkle_tests_def by (simp only: list.pred_inject simp_thms)
qed

lemma test_entries_sorted:
  assumes "n < 256"
  shows "sorted (map fst (test_entries n step))"
proof -
  have "test_pubkey (word_of_nat i) \<le> test_pubkey (word_of_nat j)" if "i \<le> j" and "j < 256" for i j
  proof (cases "word_of_nat i = (word_of_nat j :: u8)")
    case False
    then have "(word_of_nat i :: u8) < word_of_nat j"
      using that by (simp add: word_less_nat_alt word_of_nat_eq_iff take_bit_nat_eq_self unsigned_of_nat)
    then have "test_pubkey (word_of_nat i) < test_pubkey (word_of_nat j)"
      by (simp add: test_pubkey_def numeral_eq_Suc)
    then show ?thesis by simp
  qed simp
  with assms show ?thesis
    by (simp add: test_entries_def sorted_iff_nth_mono comp_def del: upt_Suc of_nat_Suc)
qed

lemma rewardz_suite_passes:
  assumes len: "\<And>x. length (keccak x) = 32"
    and inj: "inj_on keccak (leaves_of_tests \<union> pairs_of_tests keccak)"
  shows "list_all (\<lambda>test. test keccak) rewardz_merkle_tests"
proof -
  let ?two = "[(test_pubkey 1, 100), (test_pubkey 2, 200 :: u64)]"
  have sorted2: "sorted (map fst ?two)" "distinct (map fst ?two)" "?two \<noteq> []"
    by (simp_all add: test_pubkey_def numeral_eq_Suc)
  have "test_empty_returns_none keccak"
    by (simp add: test_empty_returns_none_def build_rewardz_tree_def)
  moreover have "test_single_leaf_root_equals_leaf_hash keccak"
  proof -
    obtain t where t: "build_merkle_tree keccak [(test_pubkey 1, 500)] = Some t"
      and leaf: "mt_root t = hash_leaf keccak (test_pubkey 1) 500" "mt_proofs t (test_pubkey 1) = Some []"
      using one_leaf_tree by blast
    show ?thesis
      unfolding test_single_leaf_root_equals_leaf_hash_def Let_def
      by (rule rewardz_passes [OF _ _ t]) (simp_all add: rewardz_tree_of_def leaf)
  qed
  moreover have "test_two_leaves_proofs_verify keccak"
    unfolding test_two_leaves_proofs_verify_def Let_def by (rule rewardz_proofs_pass [OF sorted2])
  moreover have "test_non_power_of_two_proofs_verify keccak"
    unfolding test_non_power_of_two_proofs_verify_def
    by (intro rewardz_proofs_pass test_entries_sorted test_entries_distinct test_entries_nonempty) simp_all
  moreover have "test_tampered_amount_fails_verification keccak"
  proof -
    obtain t where t: "build_merkle_tree keccak ?two = Some t"
      and tree: "mt_root t = test_root keccak"
        "mt_proofs t (test_pubkey 1) = Some [hash_leaf keccak (test_pubkey 2) 200]"
      using two_leaf_tree [of "test_pubkey 1" "test_pubkey 2" keccak 100 200]
      unfolding test_root_def by auto
    show ?thesis
      unfolding test_tampered_amount_fails_verification_def Let_def
      by (rule rewardz_passes [OF sorted2(1,2) t])
        (simp add: rewardz_tree_of_def tree verify_rewardz_proof_def verify_proof_def root_differs [OF len inj])
  qed
  moreover have "test_matches_design_note_leaf keccak"
    by (simp add: test_matches_design_note_leaf_def hash_leaf_def leaf_input_def)
  moreover have "test_deterministic_root keccak"
  proof -
    have order: "sort_key fst (test_entries 4 11) = test_entries 4 11"
      by (rule sort_key_id_if_sorted) (simp add: test_entries_sorted)
    obtain t where t: "build_merkle_tree keccak (test_entries 4 11) = Some t"
      using test_entries_nonempty [of 4 11] by (cases "build_merkle_tree keccak (test_entries 4 11)") auto
    have in_order: "sorted (map fst (test_entries 4 11))" "distinct (map fst (test_entries 4 11))"
      by (simp_all add: test_entries_sorted test_entries_distinct)
    show ?thesis
      unfolding test_deterministic_root_def Let_def order
      by (rule rewardz_passes [OF in_order t], rule rewardz_passes [OF in_order t]) simp
  qed
  ultimately show ?thesis unfolding rewardz_merkle_tests_def by (simp only: list.pred_inject simp_thms)
qed

text \<open>
  C40: the repository's own unit tests of the two Merkle trees and of the round guard pass on
  the model, for every 32 byte hash that keeps the inputs of the tests apart and does not map
  the tests' two leaves to the all-ones root: proofs of trees of one to eight leaves verify,
  a wrong root or a wrong amount is rejected, and the debug build of the settlement tree
  accepts every input of its tests.
\<close>

theorem unit_tests_pass:
  assumes "\<And>x. length (keccak x) = 32"
    and "inj_on keccak (leaves_of_tests \<union> pairs_of_tests keccak)"
    and "test_root keccak \<noteq> replicate 32 255"
  shows "list_all (\<lambda>test. test keccak) (merkle_tests @ rewardz_merkle_tests) \<and> list_all id game_loop_tests"
proof -
  have "list_all id game_loop_tests"
    by (simp add: game_loop_tests_def should_skip_when_target_round_active_def
        should_not_skip_when_target_round_absent_def should_not_skip_when_target_round_settled_def
        start_round_outcome_reports_skip_round_id_def should_skip_start_round_def make_round_def)
  with merkle_suite_passes [OF assms] rewardz_suite_passes [OF assms(1,2)] show ?thesis by simp
qed

lemma checksum32_separates: "inj_on checksum32 (leaves_of_tests \<union> pairs_of_tests checksum32)"
proof -
  let ?inputs = "[leaf_input (test_pubkey 1) 100, leaf_input (test_pubkey 1) 200, leaf_input (test_pubkey 1) 999,
     leaf_input (test_pubkey 2) 100, leaf_input (test_pubkey 2) 200,
     pair_input (hash_leaf checksum32 (test_pubkey 1) 100) (hash_leaf checksum32 (test_pubkey 2) 200),
     pair_input (hash_leaf checksum32 (test_pubkey 1) 999) (hash_leaf checksum32 (test_pubkey 2) 200)]"
  have "distinct (map checksum32 ?inputs)" by code_simp
  then have "inj_on checksum32 (set ?inputs)" by (simp only: distinct_map)
  moreover have "leaves_of_tests \<union> pairs_of_tests checksum32 = set ?inputs"
    by (auto simp: leaves_of_tests_def pairs_of_tests_def)
  ultimately show ?thesis by simp
qed

theorem unit_tests_pass_witness:
  "list_all (\<lambda>test. test checksum32) (merkle_tests @ rewardz_merkle_tests) \<and> list_all id game_loop_tests"
proof (rule unit_tests_pass)
  show "length (checksum32 x) = 32" for x by (rule length_checksum32)
  show "inj_on checksum32 (leaves_of_tests \<union> pairs_of_tests checksum32)" by (rule checksum32_separates)
  show "test_root checksum32 \<noteq> replicate 32 255" by code_simp
qed

end
