(* ===== verification/Text.thy ===== *)
theory Text
  imports Prelude
begin

section \<open>Text: integers and fields as \<open>format!\<close> prints them\<close>

text \<open>
  The decimal text of an integer (\<open>to_string\<close>, \<open>{}\<close> in a format string), and messages made of
  fields joined by colons: when the outer fields hold no colon the message determines them.
\<close>

definition digit_char :: "nat \<Rightarrow> char" where
  "digit_char n = char_of (48 + n)"

fun dec_nat :: "nat \<Rightarrow> string" where
  "dec_nat n = (if n < 10 then [digit_char n] else dec_nat (n div 10) @ [digit_char (n mod 10)])"

declare dec_nat.simps [simp del]

definition dec_int :: "int \<Rightarrow> string" where
  "dec_int i = (if i < 0 then CHR ''-'' # dec_nat (nat (- i)) else dec_nat (nat i))"

definition dec_u64 :: "u64 \<Rightarrow> string" where
  "dec_u64 w = dec_nat (unat w)"

fun dec_value :: "string \<Rightarrow> nat" where
  "dec_value cs = foldl (\<lambda>n c. 10 * n + (of_char c - 48)) 0 cs"

lemma digit_char_value: "n < 10 \<Longrightarrow> of_char (digit_char n) = 48 + n"
  by (simp add: digit_char_def)

lemma digit_char_not_colon: "n < 10 \<Longrightarrow> digit_char n \<noteq> CHR '':'' \<and> digit_char n \<noteq> CHR ''-''"
  using digit_char_value [of n] by auto

lemma dec_value_dec_nat: "dec_value (dec_nat n) = n"
proof (induction n rule: dec_nat.induct)
  case (1 n)
  then show ?case
    by (cases "n < 10") (simp_all add: dec_nat.simps [of n] digit_char_value)
qed

lemma dec_nat_inject [simp]: "dec_nat m = dec_nat n \<longleftrightarrow> m = n"
  by (metis dec_value_dec_nat)

lemma dec_nat_chars: "c \<in> set (dec_nat n) \<Longrightarrow> c \<noteq> CHR '':'' \<and> c \<noteq> CHR ''-''"
proof (induction n rule: dec_nat.induct)
  case (1 n)
  then show ?case
    by (cases "n < 10") (auto simp: dec_nat.simps [of n] digit_char_not_colon)
qed

lemma dec_nat_nonempty [simp]: "dec_nat n \<noteq> []"
  by (simp add: dec_nat.simps [of n])

lemma dec_int_no_colon [simp]: "CHR '':'' \<notin> set (dec_int i)"
  using dec_nat_chars by (auto simp: dec_int_def)

lemma dec_u64_no_colon [simp]: "CHR '':'' \<notin> set (dec_u64 w)"
  using dec_nat_chars by (auto simp: dec_u64_def)

lemma dec_u64_inject [simp]: "dec_u64 a = dec_u64 b \<longleftrightarrow> a = b"
  by (simp add: dec_u64_def word_unat_eq_iff)

lemma dec_int_inject [simp]: "dec_int a = dec_int b \<longleftrightarrow> a = b"
proof
  assume eq: "dec_int a = dec_int b"
  have minus: "dec_nat n \<noteq> CHR ''-'' # cs" for n cs
    using dec_nat_chars [of "CHR ''-''" n] by (metis list.set_intros(1))
  from eq show "a = b"
    by (auto simp: dec_int_def minus minus [symmetric] nat_eq_iff eq_nat_nat_iff split: if_splits)
qed simp

subsection \<open>Parsing\<close>

definition is_digit :: "char \<Rightarrow> bool" where
  "is_digit c \<longleftrightarrow> 48 \<le> (of_char c :: nat) \<and> (of_char c :: nat) \<le> 57"

definition unsigned_digits :: "string \<Rightarrow> nat option" where
  "unsigned_digits cs = (if cs \<noteq> [] \<and> list_all is_digit cs then Some (dec_value cs) else None)"

definition without_plus :: "string \<Rightarrow> string" where
  "without_plus cs = (case cs of c # ds \<Rightarrow> if c = CHR ''+'' then ds else cs | [] \<Rightarrow> [])"

definition parse_u64 :: "string \<Rightarrow> u64 option" where
  \<comment> \<open>\<open>str::parse::<u64>\<close>: an optional plus sign, then decimal digits within range\<close>
  "parse_u64 s =
     Option.bind (unsigned_digits (without_plus s)) (\<lambda>n.
       if n < 2 ^ 64 then Some (word_of_nat n) else None)"

definition parse_i64 :: "string \<Rightarrow> int option" where
  \<comment> \<open>\<open>str::parse::<i64>\<close>: an optional sign, then decimal digits within range\<close>
  "parse_i64 s =
     Option.bind
       (case s of
          c # ds \<Rightarrow>
            if c = CHR ''-'' then map_option (\<lambda>n. - int n) (unsigned_digits ds)
            else map_option int (unsigned_digits (without_plus s))
        | [] \<Rightarrow> None)
       (\<lambda>i. if in_i64 i then Some i else None)"

lemma dec_nat_digits: "c \<in> set (dec_nat n) \<Longrightarrow> is_digit c"
proof (induction n rule: dec_nat.induct)
  case (1 n)
  then show ?case
    by (cases "n < 10") (auto simp: dec_nat.simps [of n] is_digit_def digit_char_value)
qed

lemma unsigned_digits_dec_nat [simp]: "unsigned_digits (dec_nat n) = Some n"
  using dec_nat_digits by (auto simp: unsigned_digits_def dec_value_dec_nat list_all_iff simp del: dec_value.simps)

lemma without_plus_dec_nat [simp]: "without_plus (dec_nat n) = dec_nat n"
  using dec_nat_digits [of "CHR ''+''" n]
  by (cases "dec_nat n") (auto simp: without_plus_def is_digit_def)

lemma parse_u64_dec_u64: "parse_u64 (dec_u64 w) = Some w"
  using unat_less [of w] by (simp add: parse_u64_def dec_u64_def)

lemma parse_i64_dec_int:
  assumes "in_i64 i"
  shows "parse_i64 (dec_int i) = Some i"
proof (cases "i < 0")
  case True
  with assms show ?thesis by (simp add: parse_i64_def dec_int_def)
next
  case False
  obtain c cs where c: "dec_nat (nat i) = c # cs" by (cases "dec_nat (nat i)") simp_all
  have "c \<noteq> CHR ''-''" using dec_nat_chars [of c "nat i"] by (simp add: c)
  moreover have "unsigned_digits (without_plus (c # cs)) = Some (nat i)"
    by (simp flip: c)
  ultimately show ?thesis using False assms by (simp add: parse_i64_def dec_int_def c)
qed

subsection \<open>Fields joined by colons\<close>

definition with_colon :: "string \<Rightarrow> string \<Rightarrow> string" where
  "with_colon a b = a @ CHR '':'' # b"

lemma with_colon_first:
  assumes "CHR '':'' \<notin> set a" "CHR '':'' \<notin> set a'"
  shows "with_colon a b = with_colon a' b' \<longleftrightarrow> a = a' \<and> b = b'"
proof
  assume eq: "with_colon a b = with_colon a' b'"
  let ?t = "takeWhile (\<lambda>c. c \<noteq> CHR '':'')"
  have "?t (with_colon x y) = x" if "CHR '':'' \<notin> set x" for x y
    using that by (auto simp: with_colon_def takeWhile_append)
  with eq assms show "a = a' \<and> b = b'" by (metis append_same_eq list.inject same_append_eq with_colon_def)
qed simp

lemma with_colon_last:
  assumes "CHR '':'' \<notin> set b" "CHR '':'' \<notin> set b'"
  shows "with_colon a b = with_colon a' b' \<longleftrightarrow> a = a' \<and> b = b'"
proof
  assume "with_colon a b = with_colon a' b'"
  then have "with_colon (rev b) (rev a) = with_colon (rev b') (rev a')"
    unfolding with_colon_def by (metis append.assoc append_Cons append_Nil rev.simps(2) rev_append)
  then show "a = a' \<and> b = b'" using with_colon_first [of "rev b" "rev b'"] assms by simp
qed simp

subsection \<open>Splitting and trimming\<close>

fun split_on :: "char \<Rightarrow> string \<Rightarrow> string list" where
  \<comment> \<open>\<open>str::split\<close> with a character: one piece more than there are separators\<close>
  "split_on c [] = [[]]"
| "split_on c (x # xs) =
     (if x = c then [] # split_on c xs
      else (case split_on c xs of [] \<Rightarrow> [[x]] | piece # pieces \<Rightarrow> (x # piece) # pieces))"

definition ascii_whitespace :: "char \<Rightarrow> bool" where
  "ascii_whitespace c \<longleftrightarrow> (of_char c :: nat) = 32 \<or> 9 \<le> (of_char c :: nat) \<and> (of_char c :: nat) \<le> 13"

definition trim :: "string \<Rightarrow> string" where
  "trim s = rev (dropWhile ascii_whitespace (rev (dropWhile ascii_whitespace s)))"

lemma split_on_plain: "c \<notin> set s \<Longrightarrow> split_on c s = [s]"
  by (induction s) auto

lemma split_on_append: "c \<notin> set s \<Longrightarrow> split_on c (s @ c # t) = s # split_on c t"
  by (induction s) auto

lemma dropWhile_none: "(\<And>x. x \<in> set xs \<Longrightarrow> \<not> P x) \<Longrightarrow> dropWhile P xs = xs"
  by (cases xs) auto

end
