(* ===== verification/Db.thy ===== *)
theory Db
  imports Database Hex Text
begin

section \<open>db.rs: the queries shared by the publishers and the API\<close>

text \<open>
  \<^verbatim>\<open>src/src/db.rs\<close>: every query of the file. A \<open>BIGINT\<close> result
  that does not fit 64 bits is an error of the statement, as the cast in the SQL makes it.
\<close>

definition bigint :: "int \<Rightarrow> string + int" where
  "bigint x = (if in_i64 x then Inr x else Inl ''bigint out of range'')"

record user_points_row =
  up_wallet_address :: string
  up_total_points :: int

record merkle_proof_row =
  pr_root :: string
  pr_authority :: string
  pr_amount :: int
  pr_proof :: "bytes list"
  pr_epoch :: int

record rewardz_earnings_row =
  er_protocol_authority :: string
  er_cumulative_amount :: int

subsection \<open>Queries\<close>

definition create_pool :: "(nat \<Rightarrow> string \<Rightarrow> 'w \<Rightarrow> (string + unit) \<times> 'w) \<Rightarrow> string \<Rightarrow> (('w, 'z) keeper_scheme, unit) prog" where
  \<comment> \<open>from what connects a pool of at most so many connections\<close>
  "create_pool connect database_url = call (connect 10 database_url)"

definition select_users_with_points :: "('w pg) \<Rightarrow> database \<Rightarrow> user_points_row list" where
  "select_users_with_points pg d =
     map (\<lambda>u. \<lparr>up_wallet_address = u_wallet_address u, up_total_points = u_total_points u\<rparr>)
       (sort_key (\<lambda>u. pg_collate pg (u_wallet_address u))
         (filter (\<lambda>u. u_total_points u > 0) (users d)))"

definition get_users_with_points :: "'w pg \<Rightarrow> ('w app, user_points_row list) prog" where
  "get_users_with_points pg = execute pg (\<lambda>now d. Inr (select_users_with_points pg d, d))"

definition same_epoch_authority :: "merkle_proof \<Rightarrow> merkle_proof \<Rightarrow> bool" where
  "same_epoch_authority a b \<longleftrightarrow> mp_epoch a = mp_epoch b \<and> mp_authority a = mp_authority b"

fun save_each ::
    "'w pg \<Rightarrow> time \<Rightarrow> int \<Rightarrow> string \<Rightarrow> (string \<times> int \<times> bytes list) list \<Rightarrow> ('w app, unit) prog" where
  "save_each pg now epoch root_hex [] = ret ()"
| "save_each pg now epoch root_hex ((authority, amount, proof_hashes) # proofs) =
     andThen (execute_in pg now (\<lambda>_ d. Inr ((), d\<lparr>merkle_proofs :=
         upsert same_epoch_authority
           \<lparr>mp_epoch = epoch, mp_root = root_hex, mp_authority = authority, mp_amount = amount,
            mp_proof = proof_hashes\<rparr>
           (merkle_proofs d)\<rparr>)))
       (\<lambda>_. save_each pg now epoch root_hex proofs)"

definition save_merkle_proofs ::
    "'w pg \<Rightarrow> int \<Rightarrow> bytes \<Rightarrow> (string \<times> int \<times> bytes list) list \<Rightarrow> ('w app, unit) prog" where
  "save_merkle_proofs pg epoch root_bytes proofs =
     transaction pg (\<lambda>now.
       andThen (execute_in pg now (\<lambda>_ d. Inr ((),
           d\<lparr>merkle_proofs := filter (\<lambda>m. \<not> mp_epoch m < epoch) (merkle_proofs d)\<rparr>)))
         (\<lambda>_. save_each pg now epoch (hex_encode root_bytes) proofs))"

definition select_merkle_proof :: "string \<Rightarrow> string \<Rightarrow> database \<Rightarrow> merkle_proof_row option" where
  "select_merkle_proof root_hex authority d =
     map_option (\<lambda>m. \<lparr>pr_root = mp_root m, pr_authority = mp_authority m, pr_amount = mp_amount m,
                       pr_proof = mp_proof m, pr_epoch = mp_epoch m\<rparr>)
       (find (\<lambda>m. mp_root m = root_hex \<and> mp_authority m = authority) (merkle_proofs d))"

definition get_merkle_proof ::
    "'w pg \<Rightarrow> string \<Rightarrow> string \<Rightarrow> ('w app, merkle_proof_row option) prog" where
  "get_merkle_proof pg root_hex authority =
     execute pg (\<lambda>now d. Inr (select_merkle_proof root_hex authority d, d))"

definition authority_total :: "string \<Rightarrow> earning list \<Rightarrow> int" where
  "authority_total a es = sum_list (map re_amount (filter (\<lambda>r. re_protocol_authority r = a) es))"

definition select_rewardz_earnings ::
    "'w pg \<Rightarrow> database \<Rightarrow> string + rewardz_earnings_row list" where
  "select_rewardz_earnings pg d =
     (let es = rewardz_earnings d;
          groups = sort_key (pg_collate pg) (remdups (map re_protocol_authority es)) in
      if \<forall>a \<in> set groups. in_i64 (authority_total a es) then
        Inr (map (\<lambda>a. \<lparr>er_protocol_authority = a, er_cumulative_amount = authority_total a es\<rparr>) groups)
      else Inl ''bigint out of range'')"

definition get_rewardz_earnings_grouped ::
    "'w pg \<Rightarrow> ('w app, rewardz_earnings_row list) prog" where
  "get_rewardz_earnings_grouped pg =
     execute pg (\<lambda>now d. map_sum id (\<lambda>rows. (rows, d)) (select_rewardz_earnings pg d))"

definition same_root_epoch :: "root_epoch \<Rightarrow> root_epoch \<Rightarrow> bool" where
  "same_root_epoch a b \<longleftrightarrow> ro_epoch a = ro_epoch b"

definition backfilled :: "string list \<Rightarrow> time \<Rightarrow> earning \<Rightarrow> bool" where
  "backfilled authorities cutoff r \<longleftrightarrow>
     re_included_in_root_epoch r = None \<and> re_protocol_authority r \<in> set authorities
     \<and> re_created_at r \<le> cutoff"

definition insert_root_epoch :: "root_epoch \<Rightarrow> unit statement" where
  "insert_root_epoch row now d =
     Inr ((), d\<lparr>rewardz_root_epochs := fst (insert_rows same_root_epoch [row] (rewardz_root_epochs d))\<rparr>)"

definition stamp_earnings :: "int \<Rightarrow> string list \<Rightarrow> time \<Rightarrow> nat statement" where
  "stamp_earnings epoch authorities cutoff now d =
     Inr (length (filter (backfilled authorities cutoff) (rewardz_earnings d)),
          d\<lparr>rewardz_earnings :=
            map (\<lambda>r. if backfilled authorities cutoff r
                      then r\<lparr>re_included_in_root_epoch := Some epoch\<rparr> else r) (rewardz_earnings d)\<rparr>)"

definition record_rewardz_root_publish ::
    "'w pg \<Rightarrow> int \<Rightarrow> bytes \<Rightarrow> string \<Rightarrow> u128 \<Rightarrow> string list \<Rightarrow> time \<Rightarrow> ('w app, nat) prog" where
  "record_rewardz_root_publish pg epoch merkle_root tx_sig total_included authorities cutoff =
     transaction pg (\<lambda>now.
       andThen (execute_in pg now (insert_root_epoch
           \<lparr>ro_epoch = epoch, ro_merkle_root = merkle_root, ro_tx_sig = tx_sig,
            ro_total_included = unat total_included\<rparr>)) (\<lambda>_.
       execute_in pg now (stamp_earnings epoch authorities cutoff)))"

definition get_user_total_points :: "'w pg \<Rightarrow> string \<Rightarrow> ('w app, int option) prog" where
  "get_user_total_points pg wallet =
     execute pg (\<lambda>now d.
       Inr (map_option u_total_points (find (\<lambda>u. u_wallet_address u = wallet) (users d)), d))"

interpretation epoch_authority_index: unique_index same_epoch_authority
  by unfold_locales (auto simp: same_epoch_authority_def)

interpretation root_epoch_index: unique_index same_root_epoch
  by unfold_locales (auto simp: same_root_epoch_def)

subsection \<open>Saved proofs are found\<close>

lemma upsert_member:
  "m \<in> set (upsert conflict r table) \<Longrightarrow> m = r \<or> m \<in> set table \<and> \<not> conflict m r"
  by (auto simp: upsert_def split: if_splits)

lemma upsert_present: "r \<in> set (upsert conflict r table)"
  by (auto simp: upsert_def)

lemma upsert_others: "m \<in> set table \<Longrightarrow> \<not> conflict m r \<Longrightarrow> m \<in> set (upsert conflict r table)"
  by (auto simp: upsert_def)

definition proof_row :: "int \<Rightarrow> string \<Rightarrow> string \<times> int \<times> bytes list \<Rightarrow> merkle_proof" where
  "proof_row epoch root_hex x = (case x of (authority, amount, hashes) \<Rightarrow>
     \<lparr>mp_epoch = epoch, mp_root = root_hex, mp_authority = authority, mp_amount = amount, mp_proof = hashes\<rparr>)"

lemma save_each_quiet:
  assumes "quiet pg"
  shows "save_each pg now epoch root_hex proofs s =
    (Inr (), s\<lparr>db := (db s)\<lparr>merkle_proofs :=
       fold (upsert same_epoch_authority) (map (proof_row epoch root_hex) proofs) (merkle_proofs (db s))\<rparr>\<rparr>)"
proof (induction proofs arbitrary: s)
  case Nil
  then show ?case by (simp add: ret_def)
next
  case (Cons x proofs)
  obtain a m h where "x = (a, m, h)" by (cases x)
  with Cons show ?case
    by (simp add: andThen_def quiet_execute_in [OF assms] run_statement_def proof_row_def)
qed

lemma save_merkle_proofs_quiet:
  "quiet pg \<Longrightarrow> save_merkle_proofs pg epoch root_bytes proofs s =
    (Inr (), s\<lparr>db := (db s)\<lparr>merkle_proofs :=
       fold (upsert same_epoch_authority) (map (proof_row epoch (hex_encode root_bytes)) proofs)
         (filter (\<lambda>m. \<not> mp_epoch m < epoch) (merkle_proofs (db s)))\<rparr>\<rparr>)"
  by (simp add: save_merkle_proofs_def quiet_transaction andThen_def quiet_execute_in run_statement_def
      save_each_quiet)

lemma fold_upsert_member:
  "m \<in> set (fold (upsert conflict) rows table) \<Longrightarrow> m \<in> set rows \<or> m \<in> set table"
proof (induction rows arbitrary: table)
  case (Cons r rows)
  then have "m \<in> set rows \<or> m \<in> set (upsert conflict r table)" by simp
  then show ?case using upsert_member [of m conflict r table] by auto
qed simp

lemma fold_upsert_keeps:
  "m \<in> set table \<Longrightarrow> \<forall>r \<in> set rows. \<not> conflict m r \<Longrightarrow> m \<in> set (fold (upsert conflict) rows table)"
  by (induction rows arbitrary: table) (auto simp: upsert_others)

lemma fold_upsert_present:
  assumes "m \<in> set rows" "free_of_conflicts conflict rows"
  shows "m \<in> set (fold (upsert conflict) rows table)"
  using assms
proof (induction rows arbitrary: table)
  case (Cons r rows)
  show ?case
  proof (cases "m = r")
    case True
    then have "m \<in> set (upsert conflict r table)" by (simp add: upsert_present)
    with True Cons.prems show ?thesis by (simp add: fold_upsert_keeps)
  next
    case False
    with Cons show ?thesis by simp
  qed
qed simp

lemma fold_upsert_replaces:
  assumes "m \<in> set (fold (upsert conflict) rows table)" "m \<notin> set rows"
  shows "m \<in> set table \<and> (\<forall>r \<in> set rows. \<not> conflict m r)"
  using assms
proof (induction rows arbitrary: table)
  case (Cons r rows)
  then have "m \<in> set (upsert conflict r table) \<and> (\<forall>r \<in> set rows. \<not> conflict m r)" by simp
  with Cons.prems show ?case using upsert_member [of m conflict r table] by auto
qed simp

lemma saved_proof_is_found:
  assumes "quiet pg" and "distinct (map fst proofs)" and "(authority, amount, hashes) \<in> set proofs"
    and "\<And>m. m \<in> set (merkle_proofs (db s)) \<Longrightarrow> mp_epoch m > epoch \<Longrightarrow> mp_root m \<noteq> hex_encode root_bytes"
    and "save_merkle_proofs pg epoch root_bytes proofs s = (Inr (), t)"
  shows "get_merkle_proof pg (hex_encode root_bytes) authority t =
      (Inr (Some \<lparr>pr_root = hex_encode root_bytes, pr_authority = authority, pr_amount = amount,
                  pr_proof = hashes, pr_epoch = epoch\<rparr>), t)
    \<and> (\<forall>m \<in> set (merkle_proofs (db t)). epoch \<le> mp_epoch m)"
proof -
  let ?rows = "map (proof_row epoch (hex_encode root_bytes)) proofs"
  let ?old = "filter (\<lambda>m. \<not> mp_epoch m < epoch) (merkle_proofs (db s))"
  let ?new = "fold (upsert same_epoch_authority) ?rows ?old"
  let ?row = "proof_row epoch (hex_encode root_bytes) (authority, amount, hashes)"
  have t: "merkle_proofs (db t) = ?new"
    using assms(1,5) by (auto simp: save_merkle_proofs_quiet)
  have free: "free_of_conflicts same_epoch_authority ?rows"
    using assms(2)
    by (induction proofs) (auto simp: same_epoch_authority_def proof_row_def image_iff split: prod.splits)
  have row: "?row \<in> set ?rows" using assms(3) by simp
  have only: "m = ?row"
    if "m \<in> set ?new" "mp_root m = hex_encode root_bytes" "mp_authority m = authority" for m
  proof (cases "m \<in> set ?rows")
    case True
    then have "same_epoch_authority m ?row"
      using that by (auto simp: same_epoch_authority_def proof_row_def split: prod.splits)
    with True row free show ?thesis by (intro epoch_authority_index.unique_row [OF free]) auto
  next
    case False
    with that fold_upsert_replaces [of m same_epoch_authority ?rows ?old]
    have m: "m \<in> set ?old" and "\<not> same_epoch_authority m ?row" using row by auto
    with that have "mp_epoch m \<noteq> epoch" by (auto simp: same_epoch_authority_def proof_row_def)
    with m have "mp_epoch m > epoch" by auto
    with assms(4) [of m] m that show ?thesis by auto
  qed
  have "?row \<in> set ?new" by (rule fold_upsert_present [OF row free])
  then have "find (\<lambda>m. mp_root m = hex_encode root_bytes \<and> mp_authority m = authority) ?new = Some ?row"
    by (rule find_only) (simp add: proof_row_def, rule only, simp_all)
  moreover have "\<forall>m \<in> set ?new. epoch \<le> mp_epoch m"
    using fold_upsert_member [of _ same_epoch_authority ?rows ?old] by (force simp: proof_row_def split: prod.splits)
  ultimately show ?thesis
    using assms(1) t
    by (simp add: get_merkle_proof_def quiet_execute run_statement_def select_merkle_proof_def proof_row_def)
qed

text \<open>
  A saved proof is found. When the save succeeds on a quiet session, with one row per
  authority and no row of a later epoch under the same root, the lookup by the root's hex text
  and the authority answers with the amount, the proof and the epoch just saved; and no row of
  an earlier epoch is left.
\<close>

theorem save_then_get_merkle_proof:
  assumes "quiet pg" and "distinct (map fst proofs)" and "(authority, amount, hashes) \<in> set proofs"
    and "\<And>m. m \<in> set (merkle_proofs (db s)) \<Longrightarrow> mp_epoch m > epoch \<Longrightarrow> mp_root m \<noteq> hex_encode root_bytes"
    and "save_merkle_proofs pg epoch root_bytes proofs s = (Inr (), t)"
  shows "get_merkle_proof pg (hex_encode root_bytes) authority t =
      (Inr (Some \<lparr>pr_root = hex_encode root_bytes, pr_authority = authority, pr_amount = amount,
                  pr_proof = hashes, pr_epoch = epoch\<rparr>), t)
    \<and> (\<forall>m \<in> set (merkle_proofs (db t)). epoch \<le> mp_epoch m)"
  using assms by (rule saved_proof_is_found)

subsection \<open>The record of published roots\<close>

lemma record_rewardz_root_publish_quiet:
  "quiet pg \<Longrightarrow>
   record_rewardz_root_publish pg epoch merkle_root tx_sig issued authorities cutoff s =
    (Inr (length (filter (backfilled authorities cutoff) (rewardz_earnings (db s)))),
     s\<lparr>db := (db s)\<lparr>
       rewardz_root_epochs := fst (insert_rows same_root_epoch
         [\<lparr>ro_epoch = epoch, ro_merkle_root = merkle_root, ro_tx_sig = tx_sig,
           ro_total_included = unat issued\<rparr>] (rewardz_root_epochs (db s))),
       rewardz_earnings := map (\<lambda>r. if backfilled authorities cutoff r
           then r\<lparr>re_included_in_root_epoch := Some epoch\<rparr> else r) (rewardz_earnings (db s))\<rparr>\<rparr>)"
  by (simp add: record_rewardz_root_publish_def quiet_transaction quiet_execute_in andThen_def
      run_statement_def insert_root_epoch_def stamp_earnings_def)

record root_publish =
  rp_epoch :: int
  rp_root :: bytes
  rp_sig :: string
  rp_total :: u128
  rp_authorities :: "string list"
  rp_cutoff :: time

definition record_all :: "'w pg \<Rightarrow> root_publish list \<Rightarrow> 'w app \<Rightarrow> 'w app" where
  \<comment> \<open>the records of a sequence of publishes, one after the other\<close>
  "record_all pg ps s =
     fold (\<lambda>p s. snd (record_rewardz_root_publish pg (rp_epoch p) (rp_root p) (rp_sig p) (rp_total p)
       (rp_authorities p) (rp_cutoff p) s)) ps s"

definition covers :: "earning \<Rightarrow> root_publish \<Rightarrow> bool" where
  \<comment> \<open>the publish folded this earning into its tree\<close>
  "covers r p \<longleftrightarrow> re_protocol_authority r \<in> set (rp_authorities p) \<and> re_created_at r \<le> rp_cutoff p"

definition first_stamp :: "root_publish list \<Rightarrow> earning \<Rightarrow> earning" where
  "first_stamp ps r =
     r\<lparr>re_included_in_root_epoch :=
        (case re_included_in_root_epoch r of
           Some e \<Rightarrow> Some e
         | None \<Rightarrow> map_option rp_epoch (find (covers r) ps))\<rparr>"

lemma first_stamp_Nil [simp]: "first_stamp [] r = r"
  by (cases r) (auto simp: first_stamp_def split: option.splits)

lemma first_stamp_Cons:
  "first_stamp (p # ps) r =
     first_stamp ps (if backfilled (rp_authorities p) (rp_cutoff p) r
       then r\<lparr>re_included_in_root_epoch := Some (rp_epoch p)\<rparr> else r)"
  by (cases r) (auto simp: first_stamp_def backfilled_def covers_def split: option.splits)

lemma record_all_stamps:
  assumes "quiet pg"
  shows "rewardz_earnings (db (record_all pg ps s)) = map (first_stamp ps) (rewardz_earnings (db s))"
proof (induction ps arbitrary: s)
  case Nil
  have "first_stamp [] = id" by auto
  then show ?case by (simp add: record_all_def)
next
  case (Cons p ps)
  then show ?case
    by (simp add: record_all_def record_rewardz_root_publish_quiet [OF assms] first_stamp_Cons o_def)
qed

lemma record_all_epochs_free:
  assumes "quiet pg" "free_of_conflicts same_root_epoch (rewardz_root_epochs (db s))"
  shows "free_of_conflicts same_root_epoch (rewardz_root_epochs (db (record_all pg ps s)))"
  using assms(2)
proof (induction ps arbitrary: s)
  case Nil
  then show ?case by (simp add: record_all_def)
next
  case (Cons p ps)
  then show ?case
    by (simp add: record_all_def record_rewardz_root_publish_quiet [OF assms(1)] insert_rows_free
        del: insert_rows.simps)
qed

text \<open>
  After any sequence of recorded publishes, an earnings row carries the first epoch whose
  publish covered it by authority and cutoff, unless it was stamped before; a row inserted
  after the cutoff of a publish never takes that publish's epoch; no other column of any row
  changes, and the table of root epochs keeps at most one row an epoch.
\<close>

theorem root_record_stamps_first_epoch:
  assumes "quiet pg" and "free_of_conflicts same_root_epoch (rewardz_root_epochs (db s))"
  shows "rewardz_earnings (db (record_all pg ps s)) = map (first_stamp ps) (rewardz_earnings (db s))
    \<and> (\<forall>e. length (filter (\<lambda>r. ro_epoch r = e) (rewardz_root_epochs (db (record_all pg ps s)))) \<le> 1)"
proof -
  have "length (filter (\<lambda>r. ro_epoch r = e) (rewardz_root_epochs (db (record_all pg ps s)))) \<le> 1" for e
    using root_epoch_index.at_most_one [OF record_all_epochs_free [OF assms, of ps],
        of "\<lparr>ro_epoch = e, ro_merkle_root = [], ro_tx_sig = [], ro_total_included = 0\<rparr>"]
    by (simp add: same_root_epoch_def [abs_def] eq_commute)
  with record_all_stamps [OF assms(1)] show ?thesis by simp
qed

text \<open>
  Recording a publish is all or nothing. When the call fails, at whatever round trip, the
  tables are those that other sessions left: no epoch row without its stamps and no stamp
  without its epoch row.
\<close>

theorem root_record_atomic:
  assumes "record_rewardz_root_publish pg epoch merkle_root tx_sig issued authorities cutoff s = (Inl e, t)"
  shows "db t = db s \<or> db t = pg_others pg (snd (pg_error pg (world s))) (db s)"
  using assms unfolding record_rewardz_root_publish_def by (rule transaction_atomic)

subsection \<open>A concrete session\<close>

definition empty_db :: database where
  "empty_db =
     \<lparr>protocols = [], point_events = [], abuse_flags = [], rewardz_earnings = [], milestones = [],
      milestone_rewards = [], wallet_weights = [], league_leaderboard_snapshots = [], users = [],
      user_balances = [], merkle_proofs = [], rewardz_root_epochs = [], subscriptions = [],
      protocol_events = []\<rparr>"

definition interval_of_bigint :: "string \<Rightarrow> int \<Rightarrow> string + int" where
  "interval_of_bigint unit n =
     (if unit = ''hours'' then Inr (n * 3600000000)
      else if unit = ''days'' then Inr (n * 86400000000) else Inl ''no such unit'')"

definition decimal_of_f64 :: "f64 \<Rightarrow> string + rat" where
  "decimal_of_f64 x =
     (case x of
        Fin q \<Rightarrow>
          if \<bar>q\<bar> < 9 then Inr (of_int \<lfloor>q * 10000 + 1 / 2\<rfloor> / 10000) else Inl ''numeric field overflow''
      | _ \<Rightarrow> Inl ''numeric field overflow'')"

definition quiet_pg :: "unit pg" where
  "quiet_pg = \<lparr>pg_error = (\<lambda>w. (None, w)), pg_now = (\<lambda>w. 1000), pg_others = (\<lambda>w d. d), pg_collate = id,
      pg_make_interval = interval_of_bigint, pg_decimal_5_4 = decimal_of_f64,
      pg_whole_milestone_index = True,
      pg_epoch_days = (\<lambda>m. JInt (m div 86400000000)),
      pg_current_date = (\<lambda>t. t div 86400000000), pg_date_text = dec_int, pg_extract_float8 = True\<rparr>"

definition flaky_pg :: "nat pg" where
  \<comment> \<open>every third round trip fails\<close>
  "flaky_pg = \<lparr>pg_error = (\<lambda>w. (if w mod 3 = 2 then Some ''connection reset'' else None, Suc w)),
     pg_now = int, pg_others = (\<lambda>w d. d), pg_collate = id,
      pg_make_interval = interval_of_bigint, pg_decimal_5_4 = decimal_of_f64,
      pg_whole_milestone_index = True,
      pg_epoch_days = (\<lambda>m. JInt (m div 86400000000)),
      pg_current_date = (\<lambda>t. t div 86400000000), pg_date_text = dec_int, pg_extract_float8 = True\<rparr>"

lemma quiet_pg [simp]: "quiet quiet_pg"
  by (simp add: quiet_def quiet_pg_def)

lemma near_decimal:
  fixes x y :: rat
  assumes "y \<le> x * 10000 + 1 / 2" "x * 10000 + 1 / 2 < y + 1"
  shows "\<bar>y / 10000 - x\<bar> \<le> 1 / 20000 + 1 / 10 ^ 15"
proof -
  have "y / 10000 - x \<le> 1 / 20000" "x - y / 10000 \<le> 1 / 20000" using assms by (simp_all add: field_simps)
  then have "\<bar>y / 10000 - x\<bar> \<le> 1 / 20000" by linarith
  also have "\<dots> \<le> 1 / 20000 + 1 / 10 ^ 15" by simp
  finally show ?thesis .
qed

lemma rounds_decimals_quiet_pg [simp]: "rounds_decimals quiet_pg"
  unfolding rounds_decimals_def
proof (intro allI impI)
  fix x :: rat assume x: "0 \<le> x \<and> x \<le> 1"
  let ?k = "\<lfloor>x * 10000 + 1 / 2\<rfloor>"
  have near: "of_int ?k \<le> x * 10000 + 1 / 2" "x * 10000 + 1 / 2 < of_int ?k + 1" by linarith+
  have "0 \<le> ?k" using x by simp
  moreover have "?k \<le> 10000"
  proof -
    have "(of_int ?k :: rat) < of_int 10001" using near x by simp
    then show ?thesis by (simp only: of_int_less_iff)
  qed
  moreover have "\<bar>of_int ?k / 10000 - x\<bar> \<le> 1 / 20000 + 1 / 10 ^ 15"
    using near by (rule near_decimal)
  moreover have "pg_decimal_5_4 quiet_pg (Fin x) = Inr (of_int ?k / 10000)"
    using x by (simp add: quiet_pg_def decimal_of_f64_def)
  ultimately show "\<exists>k. pg_decimal_5_4 quiet_pg (Fin x) = Inr (of_int k / 10000) \<and> 0 \<le> k \<and> k \<le> 10000
      \<and> \<bar>of_int k / 10000 - x\<bar> \<le> 1 / 20000 + 1 / 10 ^ 15" by blast
qed

lemma takes_bigint_quiet_pg [simp]: "takes_bigint quiet_pg"
  by (simp add: takes_bigint_def quiet_pg_def interval_of_bigint_def)

definition app_of :: "'w \<Rightarrow> database \<Rightarrow> 'w app" where
  "app_of w d = \<lparr>world = w, sent = [], db = d\<rparr>"

lemma app_of_simps [simp]: "world (app_of w d) = w" "sent (app_of w d) = []" "db (app_of w d) = d"
  by (simp_all add: app_of_def)

definition league_protocol :: protocol where
  "league_protocol =
     \<lparr>p_id = 1, p_admin_wallet = replicate 32 CHR ''A'', p_status = ''active'', p_visibility = ''active'',
      p_quality_score = None, p_remaining_capacity = None, p_capacity_window_start = None,
      p_capacity_unlocked_at = None, p_active_stake = None, p_referral_code = Some ''ref''\<rparr>"

definition one_protocol :: database where
  "one_protocol = empty_db\<lparr>protocols := [league_protocol]\<rparr>"

lemma league_protocol_simps [simp]:
  "p_id league_protocol = 1" "p_status league_protocol = ''active''" "p_visibility league_protocol = ''active''"
  "p_capacity_unlocked_at league_protocol = None" "p_capacity_window_start league_protocol = None"
  "p_remaining_capacity league_protocol = None" "p_quality_score league_protocol = None"
  by (simp_all add: league_protocol_def)

lemma one_protocol_simps [simp]:
  "protocols one_protocol = [league_protocol]" "point_events one_protocol = []" "abuse_flags one_protocol = []"
  "protocol_events one_protocol = []" "rewardz_earnings one_protocol = []"
  by (simp_all add: one_protocol_def empty_db_def)

lemma quiet_pg_simps [simp]:
  "no_other_writers quiet_pg" "pg_extract_float8 quiet_pg" "pg_whole_milestone_index quiet_pg" "pg_now quiet_pg w = 1000"
  by (simp_all add: quiet_no_other_writers) (simp_all add: quiet_pg_def)

definition sample_earning :: "string \<Rightarrow> int \<Rightarrow> time \<Rightarrow> earning" where
  "sample_earning a n t =
     \<lparr>re_protocol_id = 1, re_protocol_authority = a, re_amount = n, re_reason = ''milestone:first_blink'',
      re_milestone_id = Some 1, re_created_at = t, re_included_in_root_epoch = None\<rparr>"

theorem save_then_get_merkle_proof_witness:
  "get_merkle_proof quiet_pg (hex_encode [171]) ''bob''
     (snd (save_merkle_proofs quiet_pg 2 [171] [(''ann'', 5, []), (''bob'', 7, [[1], [2]])] (app_of () empty_db)))
   = (Inr (Some \<lparr>pr_root = ''ab'', pr_authority = ''bob'', pr_amount = 7, pr_proof = [[1], [2]], pr_epoch = 2\<rparr>),
      snd (save_merkle_proofs quiet_pg 2 [171] [(''ann'', 5, []), (''bob'', 7, [[1], [2]])] (app_of () empty_db)))"
proof -
  have hex: "hex_encode [171] = ''ab''" by code_simp
  show ?thesis
    using save_then_get_merkle_proof [OF quiet_pg,
        of "[(''ann'', 5, []), (''bob'', 7, [[1], [2]])]" "''bob''" 7 "[[1], [2]]" "app_of () empty_db" 2 "[171]"]
    by (auto simp: hex save_merkle_proofs_quiet empty_db_def)
qed

theorem root_record_stamps_first_epoch_witness:
  "map re_included_in_root_epoch (rewardz_earnings (db (record_all quiet_pg
      [\<lparr>rp_epoch = 1, rp_root = [], rp_sig = ''s'', rp_total = 5, rp_authorities = [''ann''], rp_cutoff = 10\<rparr>,
       \<lparr>rp_epoch = 2, rp_root = [], rp_sig = ''t'', rp_total = 9, rp_authorities = [''ann'', ''bob''], rp_cutoff = 20\<rparr>]
      (app_of () (empty_db\<lparr>rewardz_earnings :=
         [sample_earning ''ann'' 5 10, sample_earning ''ann'' 4 11, sample_earning ''bob'' 3 21]\<rparr>)))))
   = [Some 1, Some 2, None]"
proof -
  have "free_of_conflicts same_root_epoch (rewardz_root_epochs (db (app_of () (empty_db\<lparr>rewardz_earnings := es\<rparr>))))" for es
    by (simp add: empty_db_def)
  from root_record_stamps_first_epoch [OF quiet_pg this] show ?thesis
    by (simp add: empty_db_def first_stamp_def covers_def sample_earning_def)
qed

theorem root_record_atomic_witness:
  "db (snd (record_rewardz_root_publish flaky_pg 1 [] ''s'' 5 [''ann''] 10
     (app_of 0 (empty_db\<lparr>rewardz_earnings := [sample_earning ''ann'' 5 10]\<rparr>)))) =
   empty_db\<lparr>rewardz_earnings := [sample_earning ''ann'' 5 10]\<rparr>"
proof -
  let ?s = "app_of 0 (empty_db\<lparr>rewardz_earnings := [sample_earning ''ann'' 5 10]\<rparr>) :: nat app"
  let ?run = "record_rewardz_root_publish flaky_pg 1 [] ''s'' 5 [''ann''] 10 ?s"
  have "fst ?run = Inl (Fault ''connection reset'')"
    by (simp add: record_rewardz_root_publish_def transaction_def begin_tx_def round_trip_def
        see_others_def execute_in_def run_statement_def or_rollback_def insert_root_epoch_def
        flaky_pg_def prog_simps)
  then have "?run = (Inl (Fault ''connection reset''), snd ?run)" by (metis prod.collapse)
  from root_record_atomic [OF this] show ?thesis by (simp add: flaky_pg_def)
qed

end
