(* ===== verification/Publisher.thy ===== *)
theory Publisher
  imports Merkle Db
begin

section \<open>publisher.rs: the root of the point rail\<close>

text \<open>
  \<^verbatim>\<open>src/src/publisher.rs\<close>: one publish of the Merkle root of all points, and the cron that
  counts the epochs. The theorems follow a root from the users table through the instruction on
  chain to the proof that the database serves for it.
\<close>

definition POINT_ROOT_SEED :: bytes where
  "POINT_ROOT_SEED = map of_char ''point_root''"

definition CONFIG_SEED :: bytes where
  "CONFIG_SEED = map of_char ''config''"

definition SET_POINT_ROOT_DISCRIMINATOR :: u8 where
  "SET_POINT_ROOT_DISCRIMINATOR = 15"

definition point_entry :: "sdk \<Rightarrow> user_points_row \<Rightarrow> (pubkey \<times> u64) option" where
  "point_entry sdk u =
     Option.bind (sdk_pubkey_from_str sdk (up_wallet_address u)) (\<lambda>pk.
       if up_total_points u \<le> 0 then None else Some (pk, i64_as_u64 (up_total_points u)))"

definition sum_u128 :: "(pubkey \<times> u64) list \<Rightarrow> u128" where
  "sum_u128 entries = sum_list (map (\<lambda>(_, amount). ucast amount) entries)"

definition point_root_ix_data :: "bytes \<Rightarrow> u64 \<Rightarrow> u128 \<Rightarrow> bytes" where
  "point_root_ix_data root_bytes epoch total_issued =
     SET_POINT_ROOT_DISCRIMINATOR # root_bytes @ u64_le epoch @ u128_le total_issued"

definition point_root_ix ::
    "sdk \<Rightarrow> pubkey \<Rightarrow> pubkey \<Rightarrow> bytes \<Rightarrow> instruction" where
  "point_root_ix sdk signer program_id ix_data_bytes =
     (let point_root_pda = sdk_find_program_address sdk [POINT_ROOT_SEED] program_id;
          config_pda = sdk_find_program_address sdk [CONFIG_SEED] program_id in
      \<lparr>ix_program_id = program_id,
       ix_accounts =
         [meta_new signer True,
          meta_new_readonly config_pda False,
          meta_new point_root_pda False,
          meta_new_readonly (sdk_system_program_id sdk) False],
       ix_data = ix_data_bytes\<rparr>)"

definition proofs_for_db ::
    "sdk \<Rightarrow> merkle_tree \<Rightarrow> (pubkey \<times> u64) list \<Rightarrow> (string \<times> int \<times> bytes list) list" where
  "proofs_for_db sdk tree entries =
     filter_map (\<lambda>(pk, pts).
       map_option (\<lambda>hashes. (sdk_pubkey_to_string sdk pk, u64_as_i64 pts, hashes))
         (mt_proofs tree pk)) entries"

definition publish_root ::
    "sdk \<Rightarrow> 'w rpc \<Rightarrow> 'w pg \<Rightarrow> pubkey \<Rightarrow> pubkey \<Rightarrow> u64 \<Rightarrow> ('w app, unit) prog" where
  "publish_root sdk r pg signer program_id epoch =
     andThen (get_users_with_points pg) (\<lambda>users.
     if users = [] then ret ()
     else
       let entries = filter_map (point_entry sdk) users in
       if entries = [] then ret ()
       else
         andThen (or_throw ''Failed to build Merkle tree (no entries)''
             (build_merkle_tree (sdk_keccak sdk) entries)) (\<lambda>tree.
         andThen (send_instruction r signer (point_root_ix sdk signer program_id
             (point_root_ix_data (mt_root tree) epoch (sum_u128 entries)))) (\<lambda>sig.
         andThen (attempt (save_merkle_proofs pg (u64_as_i64 epoch) (mt_root tree)
             (proofs_for_db sdk tree entries))) (\<lambda>saved.
         ret ()))))"

definition read_point_root_epoch :: "bytes \<Rightarrow> u64 option" where
  "read_point_root_epoch data = (if 74 \<le> length data then read_u64_at data 66 else None)"

definition load_current_epoch ::
    "sdk \<Rightarrow> 'w rpc \<Rightarrow> pubkey \<Rightarrow> (('w, 'z) keeper_scheme, u64 option) prog" where
  "load_current_epoch sdk r program_id =
     andThen (attempt (call (rpc_get_account r
         (sdk_find_program_address sdk [POINT_ROOT_SEED] program_id)))) (\<lambda>acct.
       case acct of
         Inr data \<Rightarrow> ret (read_point_root_epoch data)
       | Inl e \<Rightarrow> ret None)"

fun publisher_turns ::
    "profile \<Rightarrow> sdk \<Rightarrow> 'w rpc \<Rightarrow> 'w pg \<Rightarrow> pubkey \<Rightarrow> pubkey \<Rightarrow> nat \<Rightarrow> u64 \<Rightarrow> ('w app, u64) prog" where
  \<comment> \<open>\<open>n\<close> turns of the loop from the counter \<open>epoch\<close>; a panic ends the task\<close>
  "publisher_turns p sdk r pg signer program_id 0 epoch = ret epoch"
| "publisher_turns p sdk r pg signer program_id (Suc n) epoch =
     andThen (or_panic ''attempt to add with overflow'' (plus_u64 p epoch 1)) (\<lambda>epoch'.
     andThen (attempt (publish_root sdk r pg signer program_id epoch')) (\<lambda>logged.
     publisher_turns p sdk r pg signer program_id n epoch'))"

definition publisher_cron ::
    "profile \<Rightarrow> sdk \<Rightarrow> 'w rpc \<Rightarrow> 'w pg \<Rightarrow> pubkey \<Rightarrow> pubkey \<Rightarrow> nat \<Rightarrow> ('w app, u64) prog" where
  "publisher_cron p sdk r pg signer program_id n =
     andThen (load_current_epoch sdk r program_id) (\<lambda>loaded.
     publisher_turns p sdk r pg signer program_id n (case loaded of Some e \<Rightarrow> e | None \<Rightarrow> 0))"

subsection \<open>Reading an instruction back\<close>

definition decode_point_root_ix :: "bytes \<Rightarrow> (bytes \<times> u64 \<times> u128) option" where
  \<comment> \<open>the layout the on-chain program reads: 1 + 32 + 8 + 16 bytes\<close>
  "decode_point_root_ix data =
     (if length data = 57 \<and> hd data = SET_POINT_ROOT_DISCRIMINATOR
      then Some (take 32 (drop 1 data), word_of_nat (of_le_bytes (take 8 (drop 33 data))),
                 word_of_nat (of_le_bytes (drop 41 data)))
      else None)"

lemma decode_point_root_ix_data:
  "length root_bytes = 32 \<Longrightarrow>
   decode_point_root_ix (point_root_ix_data root_bytes epoch issued) = Some (root_bytes, epoch, issued)"
  by (simp add: decode_point_root_ix_def point_root_ix_data_def)

lemma point_entries_positive:
  "(pk, amount) \<in> set (filter_map (point_entry sdk) us) \<Longrightarrow>
   \<exists>u \<in> set us. sdk_pubkey_from_str sdk (up_wallet_address u) = Some pk \<and> up_total_points u > 0
     \<and> amount = i64_as_u64 (up_total_points u)"
  by (fastforce simp: set_filter_map point_entry_def bind_eq_Some_conv split: if_splits)

definition canonical_keys :: "sdk \<Rightarrow> bool" where
  \<comment> \<open>base58 text and key determine each other\<close>
  "canonical_keys sdk \<longleftrightarrow>
     (\<forall>s k. sdk_pubkey_from_str sdk s = Some k \<longrightarrow> sdk_pubkey_to_string sdk k = s \<and> length k = 32)"

lemma canonical_keysD:
  "canonical_keys sdk \<Longrightarrow> sdk_pubkey_from_str sdk s = Some k \<Longrightarrow> sdk_pubkey_to_string sdk k = s"
  by (simp add: canonical_keys_def)

lemma distinct_point_entries:
  assumes "canonical_keys sdk" "distinct (map up_wallet_address us)"
  shows "distinct (map fst (filter_map (point_entry sdk) us))"
  using distinct_filter_map [OF assms(2), of "point_entry sdk" "sdk_pubkey_to_string sdk" fst]
    canonical_keysD [OF assms(1)]
  by (fastforce simp: point_entry_def bind_eq_Some_conv distinct_map split: if_splits)

subsection \<open>From the users table to the chain and back\<close>

definition selected_users :: "'w pg \<Rightarrow> database \<Rightarrow> user_row list" where
  "selected_users pg d =
     sort_key (\<lambda>u. pg_collate pg (u_wallet_address u)) (filter (\<lambda>u. u_total_points u > 0) (users d))"

definition points_row :: "user_row \<Rightarrow> user_points_row" where
  "points_row u = \<lparr>up_wallet_address = u_wallet_address u, up_total_points = u_total_points u\<rparr>"

lemma points_row_simps [simp]:
  "up_wallet_address (points_row u) = u_wallet_address u" "up_total_points (points_row u) = u_total_points u"
  by (simp_all add: points_row_def)

lemma select_users_with_points_eq: "select_users_with_points pg d = map points_row (selected_users pg d)"
  by (simp add: select_users_with_points_def selected_users_def points_row_def)

lemma set_selected_users: "set (selected_users pg d) = {u \<in> set (users d). u_total_points u > 0}"
  by (auto simp: selected_users_def)

lemma distinct_selected_users:
  "distinct (map u_wallet_address (users d)) \<Longrightarrow> distinct (map u_wallet_address (selected_users pg d))"
  by (auto simp: selected_users_def distinct_map intro: inj_on_subset)

definition point_entries :: "sdk \<Rightarrow> 'w pg \<Rightarrow> database \<Rightarrow> (pubkey \<times> u64) list" where
  "point_entries sdk pg d = filter_map (point_entry sdk) (select_users_with_points pg d)"

lemma point_entries_distinct:
  "canonical_keys sdk \<Longrightarrow> distinct (map u_wallet_address (users d)) \<Longrightarrow>
   distinct (map fst (point_entries sdk pg d))"
  unfolding point_entries_def
  by (intro distinct_point_entries)
    (simp_all add: select_users_with_points_eq o_def distinct_selected_users)

lemma point_entries_member:
  assumes "u \<in> set (users d)" "u_total_points u > 0"
    and "sdk_pubkey_from_str sdk (u_wallet_address u) = Some pk"
  shows "(pk, i64_as_u64 (u_total_points u)) \<in> set (point_entries sdk pg d)"
  using assms
  by (force simp: point_entries_def set_filter_map select_users_with_points_eq set_selected_users
      point_entry_def intro!: bexI [of _ "points_row u"])

lemma point_entries_from_str:
  "(pk, amount) \<in> set (point_entries sdk pg d) \<Longrightarrow> \<exists>s. sdk_pubkey_from_str sdk s = Some pk"
  unfolding point_entries_def by (blast dest: point_entries_positive)

lemma call_db [simp]: "db (snd (call f s)) = db s"
  by (auto simp: call_def split: prod.splits sum.splits)

lemma send_instruction_Inr:
  assumes "send_instruction r signer ix s = (Inr sig, t)"
  shows "\<exists>tx. sent t = sent s @ [tx] \<and> tx_instructions tx = [ix] \<and> tx_payer tx = signer \<and> db t = db s"
  using assms
  by (auto simp: send_instruction_def submit_def call_def andThen_def split: prod.splits sum.splits)

lemma distinct_proofs_for_db:
  assumes "distinct (map fst entries)"
    and "\<And>a b x y. (a, x) \<in> set entries \<Longrightarrow> (b, y) \<in> set entries \<Longrightarrow>
      sdk_pubkey_to_string sdk a = sdk_pubkey_to_string sdk b \<Longrightarrow> a = b"
  shows "distinct (map fst (proofs_for_db sdk tree entries))"
  using assms
proof (induction entries)
  case Nil
  then show ?case by (simp add: proofs_for_db_def)
next
  case (Cons e entries)
  obtain pk pts where e: "e = (pk, pts)" by (cases e)
  have "sdk_pubkey_to_string sdk pk \<notin> fst ` set (proofs_for_db sdk tree entries)"
  proof
    assume "sdk_pubkey_to_string sdk pk \<in> fst ` set (proofs_for_db sdk tree entries)"
    then obtain k x where "(k, x) \<in> set entries" "sdk_pubkey_to_string sdk pk = sdk_pubkey_to_string sdk k"
      by (auto simp: proofs_for_db_def set_filter_map)
    with Cons.prems(2) [of pk pts k x] e have "(pk, x) \<in> set entries" by auto
    with Cons.prems(1) e show False by force
  qed
  moreover have "distinct (map fst (proofs_for_db sdk tree entries))"
    using Cons.prems by (intro Cons.IH) auto
  ultimately show ?case by (simp add: proofs_for_db_def e split: option.splits)
qed

lemma proofs_for_db_member:
  "(pk, pts) \<in> set entries \<Longrightarrow> mt_proofs tree pk = Some hashes \<Longrightarrow>
   (sdk_pubkey_to_string sdk pk, u64_as_i64 pts, hashes) \<in> set (proofs_for_db sdk tree entries)"
  by (auto simp: proofs_for_db_def set_filter_map intro!: bexI [of _ "(pk, pts)"])

text \<open>A publish that sent something: its tree, its transaction and the state before the save.\<close>

lemma publish_root_sent:
  assumes "quiet pg" and "publish_root sdk r pg signer program_id epoch s = (Inr (), t)" and "sent t \<noteq> sent s"
  obtains tree tx u where
    "build_merkle_tree (sdk_keccak sdk) (point_entries sdk pg (db s)) = Some tree"
    "sent t = sent s @ [tx]"
    "tx_instructions tx = [point_root_ix sdk signer program_id
       (point_root_ix_data (mt_root tree) epoch (sum_u128 (point_entries sdk pg (db s))))]"
    "db u = db s"
    "save_merkle_proofs pg (u64_as_i64 epoch) (mt_root tree)
       (proofs_for_db sdk tree (point_entries sdk pg (db s))) u = (Inr (), t)"
proof -
  let ?us = "select_users_with_points pg (db s)"
  have get: "get_users_with_points pg s = (Inr ?us, s)"
    by (simp add: get_users_with_points_def quiet_execute [OF assms(1)] run_statement_def)
  have ne: "?us \<noteq> []" "point_entries sdk pg (db s) \<noteq> []"
    using assms(2,3) get by (auto simp: publish_root_def andThen_def ret_def point_entries_def Let_def split: if_splits)
  then obtain tree where tree: "build_merkle_tree (sdk_keccak sdk) (point_entries sdk pg (db s)) = Some tree"
    by fastforce
  let ?ix = "point_root_ix sdk signer program_id
       (point_root_ix_data (mt_root tree) epoch (sum_u128 (point_entries sdk pg (db s))))"
  have run: "publish_root sdk r pg signer program_id epoch s =
      andThen (send_instruction r signer ?ix) (\<lambda>sig.
        andThen (attempt (save_merkle_proofs pg (u64_as_i64 epoch) (mt_root tree)
             (proofs_for_db sdk tree (point_entries sdk pg (db s))))) (\<lambda>saved. ret ())) s"
    using ne tree by (simp add: publish_root_def andThen_def [of "get_users_with_points pg"] get
        point_entries_def Let_def or_throw_def)
  from assms(2) [unfolded run] obtain sig u where u: "send_instruction r signer ?ix s = (Inr sig, u)"
    and rest: "andThen (attempt (save_merkle_proofs pg (u64_as_i64 epoch) (mt_root tree)
             (proofs_for_db sdk tree (point_entries sdk pg (db s))))) (\<lambda>saved. ret ()) u = (Inr (), t)"
    by (rule andThen_Inr)
  from send_instruction_Inr [OF u] obtain tx where
    tx: "sent u = sent s @ [tx]" "tx_instructions tx = [?ix]" "db u = db s" by blast
  have save: "save_merkle_proofs pg (u64_as_i64 epoch) (mt_root tree)
       (proofs_for_db sdk tree (point_entries sdk pg (db s))) u = (Inr (), t)"
    using rest
    by (simp add: andThen_def attempt_def ret_def save_merkle_proofs_quiet [OF assms(1)])
  then have "sent t = sent u" by (auto simp: save_merkle_proofs_quiet [OF assms(1)])
  with that tree tx save show ?thesis by simp
qed

lemma length_tree_root:
  "(\<And>x. length (keccak x) = 32) \<Longrightarrow> build_merkle_tree keccak entries = Some tree \<Longrightarrow>
   length (mt_root tree) = 32"
  using length_tree_node root_in_tree by blast

text \<open>
  C6: what a publish puts on chain is what the database serves. When a publish on a quiet
  session succeeds and sent something, the instruction decodes to a root, the epoch and the
  issued total, and for every user with positive points and a valid wallet the lookup under
  that root answers with exactly the user's points and a proof that \<open>verify_proof\<close> accepts
  against the root in the instruction.
\<close>

theorem published_points_are_provable:
  assumes "quiet pg" and "canonical_keys sdk" and "\<And>x. length (sdk_keccak sdk x) = 32"
    and "distinct (map u_wallet_address (users (db s)))"
    and "\<And>u. u \<in> set (users (db s)) \<Longrightarrow> in_i64 (u_total_points u)"
    and "\<And>m. m \<in> set (merkle_proofs (db s)) \<Longrightarrow> mp_epoch m \<le> u64_as_i64 epoch"
    and "publish_root sdk r pg signer program_id epoch s = (Inr (), t)" and "sent t \<noteq> sent s"
  shows "\<exists>tx ix rt issued. sent t = sent s @ [tx] \<and> tx_instructions tx = [ix]
    \<and> decode_point_root_ix (ix_data ix) = Some (rt, epoch, issued)
    \<and> (\<forall>u \<in> set (users (db s)). \<forall>pk. u_total_points u > 0 \<longrightarrow>
        sdk_pubkey_from_str sdk (u_wallet_address u) = Some pk \<longrightarrow>
        (\<exists>row. get_merkle_proof pg (hex_encode rt) (u_wallet_address u) t = (Inr (Some row), t)
          \<and> pr_amount row = u_total_points u
          \<and> verify_proof (sdk_keccak sdk) (hash_leaf (sdk_keccak sdk) pk (i64_as_u64 (u_total_points u)))
              (pr_proof row) rt))"
proof -
  let ?entries = "point_entries sdk pg (db s)"
  from publish_root_sent [OF assms(1,7,8)] obtain tree tx v where
    tree: "build_merkle_tree (sdk_keccak sdk) ?entries = Some tree" and tx: "sent t = sent s @ [tx]"
      "tx_instructions tx = [point_root_ix sdk signer program_id
         (point_root_ix_data (mt_root tree) epoch (sum_u128 ?entries))]"
    and v: "db v = db s"
    and save: "save_merkle_proofs pg (u64_as_i64 epoch) (mt_root tree) (proofs_for_db sdk tree ?entries) v = (Inr (), t)"
    by blast
  have distinct: "distinct (map fst ?entries)" by (rule point_entries_distinct [OF assms(2,4)])
  have rows: "distinct (map fst (proofs_for_db sdk tree ?entries))"
  proof (rule distinct_proofs_for_db [OF distinct])
    fix a b x y
    assume "(a, x) \<in> set ?entries" "(b, y) \<in> set ?entries"
      and eq: "sdk_pubkey_to_string sdk a = sdk_pubkey_to_string sdk b"
    then obtain q q' where "sdk_pubkey_from_str sdk q = Some a" "sdk_pubkey_from_str sdk q' = Some b"
      by (blast dest: point_entries_from_str)
    with eq canonical_keysD [OF assms(2)] show "a = b" by (metis option.inject)
  qed
  have served: "\<exists>row. get_merkle_proof pg (hex_encode (mt_root tree)) (u_wallet_address u) t = (Inr (Some row), t)
      \<and> pr_amount row = u_total_points u
      \<and> verify_proof (sdk_keccak sdk) (hash_leaf (sdk_keccak sdk) pk (i64_as_u64 (u_total_points u)))
          (pr_proof row) (mt_root tree)"
    if u: "u \<in> set (users (db s))" "u_total_points u > 0" "sdk_pubkey_from_str sdk (u_wallet_address u) = Some pk"
    for u pk
  proof -
    note entry = point_entries_member [OF u, of pg]
    from entry_proof_verifies [OF distinct entry tree] obtain pf where
      pf: "mt_proofs tree pk = Some pf"
        "verify_proof (sdk_keccak sdk) (hash_leaf (sdk_keccak sdk) pk (i64_as_u64 (u_total_points u))) pf (mt_root tree)"
      by blast
    have "u64_as_i64 (i64_as_u64 (u_total_points u)) = u_total_points u"
      using assms(5) [OF u(1)] u(2) by (intro i64_as_u64_as_i64) auto
    with proofs_for_db_member [OF entry pf(1), where sdk = sdk] canonical_keysD [OF assms(2) u(3)]
    have row: "(u_wallet_address u, u_total_points u, pf) \<in> set (proofs_for_db sdk tree ?entries)" by simp
    have later: "mp_root m \<noteq> hex_encode (mt_root tree)"
      if "m \<in> set (merkle_proofs (db v))" "mp_epoch m > u64_as_i64 epoch" for m
      using that assms(6) [of m] v by simp
    from saved_proof_is_found [OF assms(1) rows row later save] pf(2) show ?thesis by simp
  qed
  have "decode_point_root_ix (ix_data (point_root_ix sdk signer program_id
      (point_root_ix_data (mt_root tree) epoch (sum_u128 ?entries)))) = Some (mt_root tree, epoch, sum_u128 ?entries)"
    using decode_point_root_ix_data [OF length_tree_root [OF assms(3) tree]] by (simp add: point_root_ix_def Let_def)
  with tx served show ?thesis by blast
qed


subsection \<open>The epochs of the cron\<close>

definition tx_point_epoch :: "transaction \<Rightarrow> u64 option" where
  "tx_point_epoch tx =
     (case tx_instructions tx of
        [ix] \<Rightarrow> map_option (\<lambda>(_, e, _). e) (decode_point_root_ix (ix_data ix))
      | _ \<Rightarrow> None)"

lemma sends_get_users [sends_intros]: "sends_only P n (get_users_with_points pg)"
  unfolding get_users_with_points_def by (intro sends_intros)

lemma sends_save_each [sends_intros]: "sends_only P n (save_each pg now epoch root_hex proofs)"
  by (induction pg now epoch root_hex proofs rule: save_each.induct) (auto intro!: sends_intros)

lemma sends_save_merkle_proofs [sends_intros]: "sends_only P n (save_merkle_proofs pg epoch rt proofs)"
  unfolding save_merkle_proofs_def by (intro sends_intros)

lemma sends_publish_root:
  assumes "\<And>x. length (sdk_keccak sdk x) = 32"
  shows "sends_only (\<lambda>tx. tx_point_epoch tx = Some epoch) (Suc 0)
    (publish_root sdk r pg signer program_id epoch)"
  unfolding publish_root_def Let_def
proof (intro sends_andThen_reads [OF sends_get_users] sends_if sends_ret)
  fix us
  let ?entries = "filter_map (point_entry sdk) us"
  show "sends_only (\<lambda>tx. tx_point_epoch tx = Some epoch) (Suc 0)
    (andThen (or_throw ''Failed to build Merkle tree (no entries)'' (build_merkle_tree (sdk_keccak sdk) ?entries))
      (\<lambda>tree. andThen (send_instruction r signer (point_root_ix sdk signer program_id
           (point_root_ix_data (mt_root tree) epoch (sum_u128 ?entries))))
        (\<lambda>sig. andThen (attempt (save_merkle_proofs pg (u64_as_i64 epoch) (mt_root tree)
             (proofs_for_db sdk tree ?entries))) (\<lambda>saved. ret ()))))"
  proof (cases "build_merkle_tree (sdk_keccak sdk) ?entries")
    case None
    then show ?thesis by (simp add: or_throw_def sends_intros)
  next
    case (Some tree)
    note decode = decode_point_root_ix_data [OF length_tree_root [OF assms Some]]
    show ?thesis
      unfolding Some or_throw_def option.case andThen_ret
      by (intro sends_andThen_last sends_send_instruction sends_attempt sends_save_merkle_proofs sends_ret)
        (simp add: tx_point_epoch_def point_root_ix_def Let_def decode)
  qed
qed

lemma publisher_turns_epochs:
  assumes "\<And>x. length (sdk_keccak sdk x) = 32" and "unat epoch + n < 2 ^ 64"
  shows "\<exists>txs es. sent (snd (publisher_turns p sdk r pg signer program_id n epoch s)) = sent s @ txs
    \<and> map tx_point_epoch txs = map Some es \<and> sorted_wrt (<) es
    \<and> (\<forall>e \<in> set es. unat epoch < unat e \<and> unat e \<le> unat epoch + n)"
  using assms(2)
proof (induction n arbitrary: epoch s)
  case 0
  show ?case by (intro exI [of _ "[]"]) (simp add: ret_def)
next
  case (Suc n)
  let ?e = "epoch + 1"
  have e: "plus_u64 p epoch 1 = Some ?e" "unat ?e = unat epoch + 1"
    using Suc.prems by (simp_all add: plus_u64_def unat_word_ariths)
  let ?m = "attempt (publish_root sdk r pg signer program_id ?e)"
  obtain txs where txs: "length txs \<le> Suc 0" "\<forall>tx \<in> set txs. tx_point_epoch tx = Some ?e"
    "sent (snd (?m s)) = sent s @ txs"
    using sends_attempt [OF sends_publish_root [OF assms(1)]] by (rule sendsE)
  define es where "es = (if txs = [] then [] else [?e])"
  then have es: "map tx_point_epoch txs = map Some es" "es = [] \<or> es = [?e]"
    using txs(1,2) by (cases txs; simp)+
  show ?case
  proof (cases "?m s")
    case (Pair res t)
    have run: "publisher_turns p sdk r pg signer program_id (Suc n) epoch s =
        (case res of Inl f \<Rightarrow> (Inl f, t) | Inr x \<Rightarrow> publisher_turns p sdk r pg signer program_id n ?e t)"
      using Pair by (simp add: e or_panic_def andThen_def split: sum.splits)
    show ?thesis
    proof (cases res)
      case (Inl f)
      with run txs es Pair Suc.prems e show ?thesis
        by (intro exI [of _ txs] exI [of _ es]) auto
    next
      case (Inr x)
      obtain tys fs where more: "sent (snd (publisher_turns p sdk r pg signer program_id n ?e t)) = sent t @ tys"
        "map tx_point_epoch tys = map Some fs" "sorted_wrt (<) fs"
        "\<forall>e \<in> set fs. unat ?e < unat e \<and> unat e \<le> unat ?e + n"
        using Suc.IH [of ?e t] Suc.prems e by auto
      then have "sorted_wrt (<) (es @ fs)"
        using es by (auto simp: sorted_wrt_append word_less_nat_alt)
      with run Inr txs es Pair more e show ?thesis
        by (intro exI [of _ "txs @ tys"] exI [of _ "es @ fs"]) auto
    qed
  qed
qed

text \<open>
  C11: the publisher never repeats an epoch. Over \<open>n\<close> turns of the cron, whatever fails, the
  transactions it sends carry strictly increasing epochs, all above the epoch it started from
  and at most \<open>n\<close> above it; it starts from the epoch of the PointRoot account, and from 0 when
  that account cannot be read, whatever the chain holds.
\<close>

theorem publisher_epochs_increase:
  assumes "\<And>x. length (sdk_keccak sdk x) = 32"
    and "rpc_get_account r (sdk_find_program_address sdk [POINT_ROOT_SEED] program_id) (world s) = (acct, w)"
    and "start = (case acct of
        Inr data \<Rightarrow> (case read_point_root_epoch data of Some e \<Rightarrow> e | None \<Rightarrow> 0)
      | Inl err \<Rightarrow> 0)"
    and "unat start + n < 2 ^ 64"
  shows "\<exists>txs es. sent (snd (publisher_cron p sdk r pg signer program_id n s)) = sent s @ txs
    \<and> map tx_point_epoch txs = map Some es \<and> sorted_wrt (<) es
    \<and> (\<forall>e \<in> set es. unat start < unat e \<and> unat e \<le> unat start + n)"
proof -
  have "publisher_cron p sdk r pg signer program_id n s =
      publisher_turns p sdk r pg signer program_id n start (s\<lparr>world := w\<rparr>)"
    using assms(2,3)
    by (auto simp: publisher_cron_def load_current_epoch_def call_def prog_simps split: sum.splits)
  then show ?thesis
    using publisher_turns_epochs [OF assms(1,4), of p r pg signer program_id "s\<lparr>world := w\<rparr>"] by simp
qed

subsection \<open>A concrete publish\<close>

definition key_sdk :: sdk where
  "key_sdk =
     \<lparr>sdk_keccak = checksum32,
      sdk_find_program_address = (\<lambda>seeds k. take 32 (concat seeds @ replicate 32 0)),
      sdk_pubkey_from_str = text_key, sdk_pubkey_to_string = key_text,
      sdk_slot_hashes_id = replicate 32 6, sdk_system_program_id = replicate 32 0,
      sdk_bs58_encode = key_text, sdk_bs58_decode = Some \<circ> text_bytes,
      sdk_sign = (\<lambda>k m. k @ m), sdk_verify = (\<lambda>sig k m. sig = k @ m)\<rparr>"

lemma canonical_key_sdk [simp]: "canonical_keys key_sdk"
  by (simp add: canonical_keys_def key_sdk_def key_text_text_key)

lemma length_keccak_key_sdk [simp]: "length (sdk_keccak key_sdk x) = 32"
  by (simp add: key_sdk_def length_checksum32)

definition two_users :: database where
  "two_users = empty_db\<lparr>users :=
     [\<lparr>u_wallet_address = replicate 32 CHR ''B'', u_total_points = 7\<rparr>,
      \<lparr>u_wallet_address = replicate 32 CHR ''A'', u_total_points = 5\<rparr>]\<rparr>"

lemma publish_root_runs:
  assumes "quiet pg" and "point_entries sdk pg (db s) \<noteq> []"
  shows "\<exists>t. publish_root sdk (open_rpc accounts) pg signer program_id epoch s = (Inr (), t) \<and> sent t \<noteq> sent s"
proof -
  from assms(2) obtain tree where "build_merkle_tree (sdk_keccak sdk) (point_entries sdk pg (db s)) = Some tree"
    by fastforce
  moreover have "select_users_with_points pg (db s) \<noteq> []"
    using assms(2) by (auto simp: point_entries_def)
  moreover have "get_users_with_points pg s = (Inr (select_users_with_points pg (db s)), s)"
    by (simp add: get_users_with_points_def quiet_execute [OF assms(1)] run_statement_def)
  ultimately show ?thesis
    using assms
    by (simp add: publish_root_def prog_simps point_entries_def [symmetric] open_rpc_send Let_def
        save_merkle_proofs_quiet)
qed

lemma two_users_entries: "point_entries key_sdk quiet_pg two_users \<noteq> []"
  by code_simp

theorem published_points_are_provable_witness:
  "\<exists>t rt row. publish_root key_sdk (open_rpc Map.empty) quiet_pg [] [] 1 (app_of () two_users) = (Inr (), t)
    \<and> get_merkle_proof quiet_pg (hex_encode rt) (replicate 32 CHR ''A'') t = (Inr (Some row), t)
    \<and> pr_amount row = 5"
proof -
  have "point_entries key_sdk quiet_pg (db (app_of () two_users)) \<noteq> []" by (simp add: two_users_entries)
  from publish_root_runs [OF quiet_pg this, of "Map.empty" "[]" "[]" 1] obtain t where
    t: "publish_root key_sdk (open_rpc Map.empty) quiet_pg [] [] 1 (app_of () two_users) = (Inr (), t)"
      "sent t \<noteq> sent (app_of () two_users)" by blast
  have key: "sdk_pubkey_from_str key_sdk (replicate 32 CHR ''A'') = Some (replicate 32 65)" by code_simp
  have "distinct (map u_wallet_address (users (db (app_of () two_users))))" by code_simp
  moreover have "in_i64 (u_total_points u)" if "u \<in> set (users (db (app_of () two_users)))" for u
    using that by (auto simp: two_users_def in_i64_def)
  moreover have "mp_epoch m \<le> u64_as_i64 1" if "m \<in> set (merkle_proofs (db (app_of () two_users)))" for m
    using that by (simp add: two_users_def empty_db_def)
  ultimately show ?thesis
    using published_points_are_provable [OF quiet_pg canonical_key_sdk length_keccak_key_sdk _ _ _ t] t(1) key
    by (fastforce simp: two_users_def)
qed

theorem publisher_epochs_increase_witness:
  "\<exists>txs es. sent (snd (publisher_cron Debug key_sdk (open_rpc Map.empty) quiet_pg [] [] 5 (app_of () two_users))) = txs
    \<and> map tx_point_epoch txs = map Some es \<and> sorted_wrt (<) es \<and> (\<forall>e \<in> set es. 0 < unat e \<and> unat e \<le> 5)"
  using publisher_epochs_increase [OF length_keccak_key_sdk, of "open_rpc Map.empty" "[]" "app_of () two_users"
      "Inl ''AccountNotFound''" "()" 0 5 Debug quiet_pg "[]"]
  by (simp add: open_rpc_def)

end
