(* ===== verification/Rewardz_Publisher.thy ===== *)
theory Rewardz_Publisher
  imports Rewardz_Merkle Publisher League_Config "HOL-Library.Multiset"
begin

section \<open>rewardz\_publisher.rs: the root of the settlement rail\<close>

text \<open>
  \<^verbatim>\<open>src/src/rewardz_publisher.rs\<close>: one publish of the Rewardz root, the reads of the RewardzRoot
  account, and the cron that retries the same epoch. The readers of the account's fields are
  those of the crate \<^verbatim>\<open>rewardz-mvp-api\<close>, parameters of the record \<open>mvp_api\<close>.
\<close>

definition IX_HEADER_LEN :: nat where
  "IX_HEADER_LEN = 58"

definition is_dry_run :: "environment \<Rightarrow> bool" where
  "is_dry_run env \<longleftrightarrow>
     (case env ''REWARDZ_PUBLISHER_DRY_RUN'' of Some v \<Rightarrow> v = ''1'' \<or> v = ''true'' | None \<Rightarrow> False)"

definition rewardz_root_pda :: "sdk \<Rightarrow> mvp_api \<Rightarrow> pubkey \<Rightarrow> pubkey" where
  "rewardz_root_pda sdk api program_id = sdk_find_program_address sdk [api_rewardz_root_seed api] program_id"

definition rewardz_entry :: "sdk \<Rightarrow> rewardz_earnings_row \<Rightarrow> (pubkey \<times> u64) option" where
  "rewardz_entry sdk r =
     Option.bind (sdk_pubkey_from_str sdk (er_protocol_authority r)) (\<lambda>pk.
       if er_cumulative_amount r \<le> 0 then None else Some (pk, i64_as_u64 (er_cumulative_amount r)))"

subsection \<open>Reads of the RewardzRoot account\<close>

definition read_deny_entries :: "mvp_api \<Rightarrow> bytes \<Rightarrow> bytes list" where
  "read_deny_entries api data =
     (let live = min (api_rroot_read_deny_list_len api data) (api_rewardz_deny_list_max api) in
      filter_map (\<lambda>i. api_rroot_read_deny_entry api data (word_of_nat i)) [0..<live])"

definition read_on_chain_deny_list ::
    "mvp_api \<Rightarrow> 'w rpc \<Rightarrow> pubkey \<Rightarrow> (('w, 'z) keeper_scheme, bytes list) prog" where
  "read_on_chain_deny_list api r pda =
     andThen (call (rpc_get_account_opt r pda)) (\<lambda>response.
       case response of
         None \<Rightarrow> ret []
       | Some data \<Rightarrow>
           if length data < api_rroot_len api then ret [] else ret (read_deny_entries api data))"

definition load_rewardz_epoch ::
    "sdk \<Rightarrow> mvp_api \<Rightarrow> 'w rpc \<Rightarrow> pubkey \<Rightarrow> (('w, 'z) keeper_scheme, u64 option) prog" where
  "load_rewardz_epoch sdk api r program_id =
     andThen (call (rpc_get_account_opt r (rewardz_root_pda sdk api program_id))) (\<lambda>response.
       case response of
         None \<Rightarrow> ret None
       | Some data \<Rightarrow>
           if length data < api_rroot_len api then ret None
           else ret (Some (api_rroot_read_u64 api data (api_rroot_off_epoch api))))"

definition read_onchain_rewardz_root ::
    "sdk \<Rightarrow> mvp_api \<Rightarrow> 'w rpc \<Rightarrow> pubkey \<Rightarrow> (('w, 'z) keeper_scheme, (bytes \<times> u64) option) prog" where
  "read_onchain_rewardz_root sdk api r program_id =
     andThen (call (rpc_get_account_opt r (rewardz_root_pda sdk api program_id))) (\<lambda>response.
       case response of
         None \<Rightarrow> ret None
       | Some data \<Rightarrow>
           if length data < api_rroot_len api then ret None
           else ret (Some (api_rroot_read_root api data,
                           api_rroot_read_u64 api data (api_rroot_off_epoch api))))"

subsection \<open>One publish\<close>

definition rewardz_root_ix_data :: "mvp_api \<Rightarrow> bytes \<Rightarrow> u64 \<Rightarrow> u128 \<Rightarrow> bytes list \<Rightarrow> bytes" where
  "rewardz_root_ix_data api root_bytes epoch issued deny_list =
     api_ix_set_rewardz_root api # root_bytes @ u64_le epoch @ u128_le issued
       @ [word_of_nat (length deny_list)] @ concat deny_list"

definition rewardz_root_ix ::
    "sdk \<Rightarrow> mvp_api \<Rightarrow> pubkey \<Rightarrow> pubkey \<Rightarrow> bytes \<Rightarrow> instruction" where
  "rewardz_root_ix sdk api signer program_id ix_data_bytes =
     \<lparr>ix_program_id = program_id,
      ix_accounts =
        [meta_new signer True,
         meta_new_readonly (sdk_find_program_address sdk [api_config_seed api] program_id) False,
         meta_new (rewardz_root_pda sdk api program_id) False,
         meta_new_readonly (sdk_system_program_id sdk) False],
      ix_data = ix_data_bytes\<rparr>"

definition or_fault :: "fault + 'a \<Rightarrow> ('s, 'a) prog" where
  "or_fault x s = (case x of Inl e \<Rightarrow> (Inl e, s) | Inr y \<Rightarrow> (Inr y, s))"

definition submit_and_record ::
    "sdk \<Rightarrow> mvp_api \<Rightarrow> 'w rpc \<Rightarrow> 'w pg \<Rightarrow> pubkey \<Rightarrow> pubkey \<Rightarrow> u64 \<Rightarrow> time \<Rightarrow> (pubkey \<times> u64) list \<Rightarrow> bytes
       \<Rightarrow> ('w app, unit) prog" where
  \<comment> \<open>steps 4 and 5, after the dry-run gate\<close>
  "submit_and_record sdk api r pg signer program_id epoch cutoff entries root_bytes =
     andThen (read_on_chain_deny_list api r (rewardz_root_pda sdk api program_id)) (\<lambda>deny_list.
     andThen (send_instruction r signer (rewardz_root_ix sdk api signer program_id
         (rewardz_root_ix_data api root_bytes epoch (sum_u128 entries) deny_list))) (\<lambda>sig.
     andThen (attempt (record_rewardz_root_publish pg (u64_as_i64 epoch) root_bytes
         (sdk_bs58_encode sdk sig) (sum_u128 entries)
         (map (\<lambda>(pk, _). sdk_pubkey_to_string sdk pk) entries) cutoff)) (\<lambda>recorded.
     ret ())))"

definition publish_rewardz_root ::
    "profile \<Rightarrow> environment \<Rightarrow> sdk \<Rightarrow> mvp_api \<Rightarrow> 'w rpc \<Rightarrow> 'w pg \<Rightarrow> pubkey \<Rightarrow> pubkey \<Rightarrow> u64
       \<Rightarrow> ('w app, unit) prog" where
  "publish_rewardz_root p env sdk api r pg signer program_id epoch =
     with_config env (\<lambda>cfg.
     andThen (execute pg (\<lambda>now d. Inr (now, d))) (\<lambda>cutoff.
     andThen (get_rewardz_earnings_grouped pg) (\<lambda>rows.
     let entries = filter_map (rewardz_entry sdk) rows;
         issued = sum_u128 entries in
     if issued > ucast (lc_max_rewardz_per_epoch cfg) then
       throw ''cumulative rewardz total exceeds per-epoch cap''
     else
       andThen (or_fault (build_rewardz_tree p (sdk_keccak sdk) entries)) (\<lambda>tree.
       let root_bytes = (case tree of Some t \<Rightarrow> rt_root t | None \<Rightarrow> replicate 32 0) in
       if is_dry_run env then ret ()
       else submit_and_record sdk api r pg signer program_id epoch cutoff entries root_bytes))))"

subsection \<open>The cron\<close>

definition rewardz_turn ::
    "profile \<Rightarrow> environment \<Rightarrow> sdk \<Rightarrow> mvp_api \<Rightarrow> 'w rpc \<Rightarrow> 'w pg \<Rightarrow> pubkey \<Rightarrow> pubkey \<Rightarrow> u64
       \<Rightarrow> ('w app, u64) prog" where
  \<comment> \<open>one turn of the loop, from and to the cached \<open>last_known_epoch\<close>\<close>
  "rewardz_turn p env sdk api r pg signer program_id last_known_epoch =
     (let publish_next = (\<lambda>known current.
        andThen (or_panic ''attempt to add with overflow'' (plus_u64 p current 1)) (\<lambda>next_epoch.
        andThen (attempt (publish_rewardz_root p env sdk api r pg signer program_id next_epoch)) (\<lambda>logged.
        ret known))) in
      andThen (attempt (load_rewardz_epoch sdk api r program_id)) (\<lambda>loaded.
        case loaded of
          Inr (Some e) \<Rightarrow> publish_next e e
        | Inr None \<Rightarrow> if last_known_epoch > 0 then ret last_known_epoch else publish_next last_known_epoch 0
        | Inl err \<Rightarrow> ret last_known_epoch))"

fun rewardz_turns ::
    "profile \<Rightarrow> environment \<Rightarrow> sdk \<Rightarrow> mvp_api \<Rightarrow> 'w rpc \<Rightarrow> 'w pg \<Rightarrow> pubkey \<Rightarrow> pubkey \<Rightarrow> nat \<Rightarrow> u64
       \<Rightarrow> ('w app, u64) prog" where
  "rewardz_turns p env sdk api r pg signer program_id 0 last_known_epoch = ret last_known_epoch"
| "rewardz_turns p env sdk api r pg signer program_id (Suc n) last_known_epoch =
     andThen (rewardz_turn p env sdk api r pg signer program_id last_known_epoch) (\<lambda>known.
     rewardz_turns p env sdk api r pg signer program_id n known)"


subsection \<open>Reading an instruction back\<close>

definition decode_rewardz_ix :: "mvp_api \<Rightarrow> bytes \<Rightarrow> (bytes \<times> u64 \<times> u128 \<times> bytes list) option" where
  \<comment> \<open>the layout the on-chain program reads: a header of 58 bytes and 32 for each denied key\<close>
  "decode_rewardz_ix api data =
     (if IX_HEADER_LEN \<le> length data \<and> hd data = api_ix_set_rewardz_root api
         \<and> length data = IX_HEADER_LEN + 32 * unat (data ! 57)
      then Some (take 32 (drop 1 data), word_of_nat (of_le_bytes (take 8 (drop 33 data))),
                 word_of_nat (of_le_bytes (take 16 (drop 41 data))),
                 map (\<lambda>i. take 32 (drop (IX_HEADER_LEN + 32 * i) data)) [0..<unat (data ! 57)])
      else None)"

lemma length_concat_32: "\<forall>b \<in> set bs. length b = 32 \<Longrightarrow> length (concat bs) = 32 * length bs"
  by (induction bs) auto

lemma nth_chunk_32:
  "\<forall>b \<in> set bs. length b = 32 \<Longrightarrow> i < length bs \<Longrightarrow> take 32 (drop (32 * i) (concat bs)) = bs ! i"
  by (induction bs arbitrary: i) (auto simp: nth_Cons' less_Suc_eq_0_disj)

lemma decode_rewardz_root_ix_data:
  assumes "length root_bytes = 32" "\<forall>b \<in> set deny. length b = 32" "length deny < 256"
  shows "decode_rewardz_ix api (rewardz_root_ix_data api root_bytes epoch issued deny) =
    Some (root_bytes, epoch, issued, deny)"
proof -
  have n: "unat (word_of_nat (length deny) :: u8) = length deny"
    using assms(3) by (simp add: unsigned_of_nat take_bit_nat_eq_self)
  let ?data = "rewardz_root_ix_data api root_bytes epoch issued deny"
  have len: "length ?data = IX_HEADER_LEN + 32 * length deny"
    using assms by (simp add: rewardz_root_ix_data_def IX_HEADER_LEN_def length_concat_32)
  have at: "?data ! 57 = word_of_nat (length deny)"
    using assms(1) by (simp add: rewardz_root_ix_data_def nth_append)
  have drop: "drop (IX_HEADER_LEN + k) ?data = drop k (concat deny)" for k
  proof -
    have "drop IX_HEADER_LEN ?data = concat deny"
      using assms(1) by (simp add: rewardz_root_ix_data_def IX_HEADER_LEN_def)
    then show ?thesis by (metis add.commute drop_drop)
  qed
  have "map (\<lambda>i. take 32 (drop (IX_HEADER_LEN + 32 * i) ?data)) [0..<length deny] = deny"
    by (rule nth_equalityI) (auto simp: drop nth_chunk_32 [OF assms(2)])
  then show ?thesis
    using assms(1) by (simp add: decode_rewardz_ix_def len at n) (simp add: rewardz_root_ix_data_def)
qed

subsection \<open>The entries of the tree\<close>

definition rewardz_entries :: "sdk \<Rightarrow> rewardz_earnings_row list \<Rightarrow> (pubkey \<times> u64) list" where
  "rewardz_entries sdk rows = filter_map (rewardz_entry sdk) rows"

lemma sum_u128_exact:
  assumes "length entries \<le> 2 ^ 64"
  shows "unat (sum_u128 entries) = sum_list (map (\<lambda>(_, amount). unat amount) entries)"
proof -
  have bound: "sum_list (map (\<lambda>(_, amount). unat amount) es) \<le> length es * (2 ^ 64 - 1)"
    for es :: "(pubkey \<times> u64) list"
  proof (induction es)
    case (Cons e es)
    have "unat (snd e) \<le> 2 ^ 64 - 1" using unat_less [of "snd e"] by simp
    with Cons show ?case by (simp add: split_beta)
  qed simp
  have less: "sum_list (map (\<lambda>(_, amount). unat amount) es) < 2 ^ 128"
    if "length es \<le> 2 ^ 64" for es :: "(pubkey \<times> u64) list"
  proof -
    have "sum_list (map (\<lambda>(_, amount). unat amount) es) \<le> 2 ^ 64 * (2 ^ 64 - 1)"
      using bound [of es] mult_right_mono [OF that, of "2 ^ 64 - 1"] by linarith
    then show ?thesis by simp
  qed
  show ?thesis
    using assms
  proof (induction entries)
    case Nil
    show ?case by (simp add: sum_u128_def)
  next
    case (Cons e es)
    obtain pk a where e: "e = (pk, a)" by (cases e)
    have "unat (ucast a + sum_u128 es) = unat (ucast a :: u128) + unat (sum_u128 es)"
      using Cons less [of "e # es"] by (simp add: e unat_word_ariths unsigned_ucast_eq take_bit_nat_eq_self
          unsigned_less order_less_trans [OF unat_less])
    moreover have "unat (ucast a :: u128) = unat a"
      using unat_less [of a] by (simp add: unsigned_ucast_eq take_bit_nat_eq_self)
    ultimately show ?case using Cons by (simp add: sum_u128_def e)
  qed
qed

lemma select_rewardz_rows:
  assumes "select_rewardz_earnings pg d = Inr rows"
  shows "map er_protocol_authority rows = sort_key (pg_collate pg) (remdups (map re_protocol_authority (rewardz_earnings d)))"
    and "r \<in> set rows \<Longrightarrow> er_cumulative_amount r = authority_total (er_protocol_authority r) (rewardz_earnings d)
           \<and> in_i64 (er_cumulative_amount r)"
    and "a \<in> re_protocol_authority ` set (rewardz_earnings d) \<Longrightarrow>
         \<lparr>er_protocol_authority = a, er_cumulative_amount = authority_total a (rewardz_earnings d)\<rparr> \<in> set rows"
  using assms by (auto simp: select_rewardz_earnings_def Let_def o_def split: if_splits)

lemma distinct_rewardz_rows:
  "select_rewardz_earnings pg d = Inr rows \<Longrightarrow> distinct (map er_protocol_authority rows)"
  by (simp add: select_rewardz_rows(1))

lemma rewardz_entries_distinct:
  assumes "canonical_keys sdk" "distinct (map er_protocol_authority rows)"
  shows "distinct (map fst (rewardz_entries sdk rows))"
  using distinct_filter_map [OF assms(2), of "rewardz_entry sdk" "sdk_pubkey_to_string sdk" fst]
    canonical_keysD [OF assms(1)]
  by (fastforce simp: rewardz_entries_def rewardz_entry_def bind_eq_Some_conv distinct_map split: if_splits)

definition claimable :: "sdk \<Rightarrow> database \<Rightarrow> string \<Rightarrow> pubkey \<Rightarrow> bool" where
  \<comment> \<open>an authority with a valid key and earnings above zero\<close>
  "claimable sdk d a pk \<longleftrightarrow>
     sdk_pubkey_from_str sdk a = Some pk \<and> authority_total a (rewardz_earnings d) > 0"

lemma authority_total_outside: "a \<notin> re_protocol_authority ` set es \<Longrightarrow> authority_total a es = 0"
  by (induction es) (auto simp: authority_total_def)

lemma rewardz_entries_member:
  assumes "select_rewardz_earnings pg d = Inr rows" "claimable sdk d a pk"
  shows "(pk, i64_as_u64 (authority_total a (rewardz_earnings d))) \<in> set (rewardz_entries sdk rows)"
proof -
  have "a \<in> re_protocol_authority ` set (rewardz_earnings d)"
    using assms(2) authority_total_outside [of a "rewardz_earnings d"] by (auto simp: claimable_def)
  from select_rewardz_rows(3) [OF assms(1) this] assms(2) show ?thesis
    by (auto simp: rewardz_entries_def set_filter_map rewardz_entry_def claimable_def
        intro!: bexI [of _ "\<lparr>er_protocol_authority = a, er_cumulative_amount = authority_total a (rewardz_earnings d)\<rparr>"])
qed

subsection \<open>A publish on a quiet session\<close>

lemma publish_rewardz_quiet:
  assumes "quiet pg" "load_league_config env = Inr cfg"
  shows "publish_rewardz_root p env sdk api r pg signer program_id epoch s =
    (case select_rewardz_earnings pg (db s) of
       Inl e \<Rightarrow> (Inl (Fault e), s)
     | Inr rows \<Rightarrow>
        (if sum_u128 (rewardz_entries sdk rows) > ucast (lc_max_rewardz_per_epoch cfg) then
           (Inl (Fault ''cumulative rewardz total exceeds per-epoch cap''), s)
         else
           (case build_rewardz_tree p (sdk_keccak sdk) (rewardz_entries sdk rows) of
              Inl f \<Rightarrow> (Inl f, s)
            | Inr tree \<Rightarrow>
               (if is_dry_run env then (Inr (), s)
                else submit_and_record sdk api r pg signer program_id epoch (pg_now pg (world s))
                   (rewardz_entries sdk rows)
                   (case tree of Some t \<Rightarrow> rt_root t | None \<Rightarrow> replicate 32 0) s))))"
  using assms
  by (auto simp: publish_rewardz_root_def with_config_def get_rewardz_earnings_grouped_def quiet_execute
      run_statement_def rewardz_entries_def or_fault_def Let_def
      andThen_def [of "execute pg f" for f] andThen_def [of "or_fault x" for x]
      throw_def ret_def split: sum.splits option.splits)

lemma sends_read_deny_list [sends_intros]: "sends_only P n (read_on_chain_deny_list api r pda)"
  unfolding read_on_chain_deny_list_def by (intro sends_intros)

lemma sends_load_rewardz_epoch [sends_intros]: "sends_only P n (load_rewardz_epoch sdk api r program_id)"
  unfolding load_rewardz_epoch_def by (intro sends_intros)

lemma sends_record_publish [sends_intros]:
  "sends_only P n (record_rewardz_root_publish pg epoch rt sig issued authorities cutoff)"
  unfolding record_rewardz_root_publish_def by (intro sends_intros)

lemma db_read_deny_list [simp]: "db (snd (read_on_chain_deny_list api r pda s)) = db s"
  by (auto simp: read_on_chain_deny_list_def andThen_def call_def ret_def
      split: prod.splits sum.splits option.splits)

lemma sent_read_deny_list [simp]: "sent (snd (read_on_chain_deny_list api r pda s)) = sent s"
  by (auto simp: read_on_chain_deny_list_def andThen_def call_def ret_def
      split: prod.splits sum.splits option.splits)

lemma submit_and_record_sent:
  assumes "quiet pg"
    and "submit_and_record sdk api r pg signer program_id epoch cutoff entries rt s = (Inr (), t)"
  obtains deny tx where
    "fst (read_on_chain_deny_list api r (rewardz_root_pda sdk api program_id) s) = Inr deny"
    "sent t = sent s @ [tx]"
    "tx_instructions tx = [rewardz_root_ix sdk api signer program_id
       (rewardz_root_ix_data api rt epoch (sum_u128 entries) deny)]"
    "rewardz_earnings (db t) = map (\<lambda>r. if backfilled (map (\<lambda>(pk, _). sdk_pubkey_to_string sdk pk) entries) cutoff r
       then r\<lparr>re_included_in_root_epoch := Some (u64_as_i64 epoch)\<rparr> else r) (rewardz_earnings (db s))"
proof -
  from assms(2) obtain deny u where
    deny: "read_on_chain_deny_list api r (rewardz_root_pda sdk api program_id) s = (Inr deny, u)"
    and rest: "andThen (send_instruction r signer (rewardz_root_ix sdk api signer program_id
         (rewardz_root_ix_data api rt epoch (sum_u128 entries) deny))) (\<lambda>sig.
       andThen (attempt (record_rewardz_root_publish pg (u64_as_i64 epoch) rt
         (sdk_bs58_encode sdk sig) (sum_u128 entries)
         (map (\<lambda>(pk, _). sdk_pubkey_to_string sdk pk) entries) cutoff)) (\<lambda>recorded. ret ())) u = (Inr (), t)"
    unfolding submit_and_record_def by (rule andThen_Inr)
  have u: "db u = db s" "sent u = sent s"
    using deny db_read_deny_list [of api r _ s] sent_read_deny_list [of api r _ s] by (metis snd_conv)+
  from rest obtain sig v where
    send: "send_instruction r signer (rewardz_root_ix sdk api signer program_id
         (rewardz_root_ix_data api rt epoch (sum_u128 entries) deny)) u = (Inr sig, v)"
    and rec: "andThen (attempt (record_rewardz_root_publish pg (u64_as_i64 epoch) rt
         (sdk_bs58_encode sdk sig) (sum_u128 entries)
         (map (\<lambda>(pk, _). sdk_pubkey_to_string sdk pk) entries) cutoff)) (\<lambda>recorded. ret ()) v = (Inr (), t)"
    by (rule andThen_Inr)
  from send_instruction_Inr [OF send] obtain tx where tx: "sent v = sent u @ [tx]"
    "tx_instructions tx = [rewardz_root_ix sdk api signer program_id
       (rewardz_root_ix_data api rt epoch (sum_u128 entries) deny)]" "db v = db u" by blast
  from rec have "sent t = sent v" and
    "rewardz_earnings (db t) = map (\<lambda>r. if backfilled (map (\<lambda>(pk, _). sdk_pubkey_to_string sdk pk) entries) cutoff r
       then r\<lparr>re_included_in_root_epoch := Some (u64_as_i64 epoch)\<rparr> else r) (rewardz_earnings (db v))"
    by (auto simp: andThen_def attempt_def ret_def record_rewardz_root_publish_quiet [OF assms(1)])
  with that deny u tx show ?thesis by simp
qed

lemma publish_rewardz_sent:
  assumes "quiet pg" "load_league_config env = Inr cfg"
    and "publish_rewardz_root p env sdk api r pg signer program_id epoch s = (Inr (), t)" "sent t \<noteq> sent s"
  obtains rows tree where "select_rewardz_earnings pg (db s) = Inr rows"
    "sum_u128 (rewardz_entries sdk rows) \<le> ucast (lc_max_rewardz_per_epoch cfg)"
    "build_rewardz_tree p (sdk_keccak sdk) (rewardz_entries sdk rows) = Inr tree" "\<not> is_dry_run env"
    "submit_and_record sdk api r pg signer program_id epoch (pg_now pg (world s))
       (rewardz_entries sdk rows) (case tree of Some t \<Rightarrow> rt_root t | None \<Rightarrow> replicate 32 0) s = (Inr (), t)"
  using assms(3,4) that unfolding publish_rewardz_quiet [OF assms(1,2)]
  by (auto split: sum.splits if_splits simp: not_less)

lemma length_rewardz_root:
  assumes "\<And>x. length (keccak x) = 32" "build_rewardz_tree p keccak entries = Inr tree"
  shows "length (case tree of Some t \<Rightarrow> rt_root t | None \<Rightarrow> replicate 32 (0 :: u8)) = 32"
proof (cases tree)
  case (Some t)
  with assms(2) obtain t' where "build_merkle_tree keccak entries = Some t'" "rt_root t = mt_root t'"
    by (auto elim: build_rewardz_tree_Some)
  with Some length_tree_root [OF assms(1)] show ?thesis by simp
qed simp

lemma length_rewardz_entries:
  "select_rewardz_earnings pg d = Inr rows \<Longrightarrow>
   length (rewardz_entries sdk rows) \<le> length (rewardz_earnings d)"
proof -
  assume rows: "select_rewardz_earnings pg d = Inr rows"
  have "length (rewardz_entries sdk rows) \<le> length rows"
    by (simp add: rewardz_entries_def length_filter_map_le)
  also have "\<dots> = length (map er_protocol_authority rows)" by simp
  also have "\<dots> = length (remdups (map re_protocol_authority (rewardz_earnings d)))"
    by (simp only: select_rewardz_rows(1) [OF rows] length_sort)
  also have "\<dots> \<le> length (rewardz_earnings d)"
    using length_remdups_leq [of "map re_protocol_authority (rewardz_earnings d)"] by simp
  finally show ?thesis .
qed

text \<open>
  C1: a published Rewardz root makes every claimable amount provable. When a publish on a
  quiet session succeeds and sent something, the one instruction decodes to a root, the epoch,
  the exact sum of the claimable totals, which is within the cap, and the deny list read from
  the chain; every authority with a valid key and earnings above zero has a proof, in the tree
  with that root, of its cumulative amount; and its unstamped earnings are stamped with the
  epoch.
\<close>

theorem rewardz_root_is_claimable:
  assumes "quiet pg" and "canonical_keys sdk" and "\<And>x. length (sdk_keccak sdk x) = 32"
    and "load_league_config env = Inr cfg" and "length (rewardz_earnings (db s)) \<le> 2 ^ 64"
    and deny: "\<And>deny. fst (read_on_chain_deny_list api r (rewardz_root_pda sdk api program_id) s) = Inr deny \<Longrightarrow>
      length deny < 256 \<and> (\<forall>b \<in> set deny. length b = 32)"
    and "publish_rewardz_root p env sdk api r pg signer program_id epoch s = (Inr (), t)" and "sent t \<noteq> sent s"
  shows "\<exists>tx ix rt issued deny entries. sent t = sent s @ [tx] \<and> tx_instructions tx = [ix]
    \<and> decode_rewardz_ix api (ix_data ix) = Some (rt, epoch, issued, deny)
    \<and> fst (read_on_chain_deny_list api r (rewardz_root_pda sdk api program_id) s) = Inr deny
    \<and> unat issued = sum_list (map (\<lambda>(_, amount). unat amount) entries)
    \<and> unat issued \<le> unat (lc_max_rewardz_per_epoch cfg)
    \<and> (\<forall>a pk. claimable sdk (db s) a pk \<longrightarrow>
        (pk, i64_as_u64 (authority_total a (rewardz_earnings (db s)))) \<in> set entries
        \<and> (\<exists>tree pf. build_rewardz_tree p (sdk_keccak sdk) entries = Inr (Some tree)
            \<and> rt_root tree = rt \<and> rt_proofs tree pk = Some pf
            \<and> verify_rewardz_proof (sdk_keccak sdk)
                (hash_rewardz_leaf (sdk_keccak sdk) pk
                  (i64_as_u64 (authority_total a (rewardz_earnings (db s))))) pf rt)
        \<and> (\<forall>e \<in> set (rewardz_earnings (db s)).
            re_protocol_authority e = a \<and> re_included_in_root_epoch e = None
              \<and> re_created_at e \<le> pg_now pg (world s)
            \<longrightarrow> e\<lparr>re_included_in_root_epoch := Some (u64_as_i64 epoch)\<rparr> \<in> set (rewardz_earnings (db t))))"
proof -
  from publish_rewardz_sent [OF assms(1,4,7,8)] obtain rows tree where
    rows: "select_rewardz_earnings pg (db s) = Inr rows"
    and cap: "sum_u128 (rewardz_entries sdk rows) \<le> ucast (lc_max_rewardz_per_epoch cfg)"
    and tree: "build_rewardz_tree p (sdk_keccak sdk) (rewardz_entries sdk rows) = Inr tree"
    and run: "submit_and_record sdk api r pg signer program_id epoch (pg_now pg (world s))
       (rewardz_entries sdk rows) (case tree of Some t \<Rightarrow> rt_root t | None \<Rightarrow> replicate 32 0) s = (Inr (), t)"
    by blast
  let ?entries = "rewardz_entries sdk rows" and ?rt = "case tree of Some t \<Rightarrow> rt_root t | None \<Rightarrow> replicate 32 (0 :: u8)"
  from submit_and_record_sent [OF assms(1) run] obtain deny tx where
    read: "fst (read_on_chain_deny_list api r (rewardz_root_pda sdk api program_id) s) = Inr deny"
    and tx: "sent t = sent s @ [tx]" "tx_instructions tx = [rewardz_root_ix sdk api signer program_id
       (rewardz_root_ix_data api ?rt epoch (sum_u128 ?entries) deny)]"
    and stamped: "rewardz_earnings (db t) = map (\<lambda>r. if backfilled (map (\<lambda>(pk, _). sdk_pubkey_to_string sdk pk) ?entries)
         (pg_now pg (world s)) r
       then r\<lparr>re_included_in_root_epoch := Some (u64_as_i64 epoch)\<rparr> else r) (rewardz_earnings (db s))"
    by blast
  have "decode_rewardz_ix api (rewardz_root_ix_data api ?rt epoch (sum_u128 ?entries) deny)
      = Some (?rt, epoch, sum_u128 ?entries, deny)"
    using assms(6) [OF read] length_rewardz_root [OF assms(3) tree] by (intro decode_rewardz_root_ix_data) auto
  moreover have "unat (sum_u128 ?entries) = sum_list (map (\<lambda>(_, amount). unat amount) ?entries)"
    using length_rewardz_entries [OF rows, of sdk] assms(5) by (intro sum_u128_exact) simp
  moreover have "unat (sum_u128 ?entries) \<le> unat (lc_max_rewardz_per_epoch cfg)"
  proof -
    have "unat (lc_max_rewardz_per_epoch cfg) < 2 ^ 128"
      using unat_less [of "lc_max_rewardz_per_epoch cfg"] by (rule order_less_trans) simp
    then have "unat (ucast (lc_max_rewardz_per_epoch cfg) :: u128) = unat (lc_max_rewardz_per_epoch cfg)"
      by (simp add: unsigned_ucast_eq take_bit_nat_eq_self)
    with cap show ?thesis by (simp add: word_le_nat_alt)
  qed
  moreover have "(\<exists>t pf. build_rewardz_tree p (sdk_keccak sdk) ?entries = Inr (Some t)
            \<and> rt_root t = ?rt \<and> rt_proofs t pk = Some pf
            \<and> verify_rewardz_proof (sdk_keccak sdk)
                (hash_rewardz_leaf (sdk_keccak sdk) pk
                  (i64_as_u64 (authority_total a (rewardz_earnings (db s))))) pf ?rt)"
    if "claimable sdk (db s) a pk" for a pk
  proof -
    note entry = rewardz_entries_member [OF rows that]
    then have "?entries \<noteq> []" by auto
    with tree build_rewardz_tree_None [of p "sdk_keccak sdk" ?entries] obtain t where t: "tree = Some t"
      by (cases tree) auto
    with tree obtain t' where t': "build_merkle_tree (sdk_keccak sdk) ?entries = Some t'"
      "rt_root t = mt_root t'" "rt_proofs t = mt_proofs t'" by (auto elim: build_rewardz_tree_Some)
    from entry_proof_verifies [OF rewardz_entries_distinct [OF assms(2) distinct_rewardz_rows [OF rows]] entry t'(1)]
    show ?thesis using t t' tree by (auto simp: verify_rewardz_proof_def)
  qed
  moreover have "e\<lparr>re_included_in_root_epoch := Some (u64_as_i64 epoch)\<rparr> \<in> set (rewardz_earnings (db t))"
    if "claimable sdk (db s) a pk" "e \<in> set (rewardz_earnings (db s))" "re_protocol_authority e = a"
      "re_included_in_root_epoch e = None" "re_created_at e \<le> pg_now pg (world s)" for a pk e
  proof -
    have "sdk_pubkey_to_string sdk pk = a"
      using that(1) canonical_keysD [OF assms(2)] by (simp add: claimable_def)
    with rewardz_entries_member [OF rows that(1)] have "a \<in> (\<lambda>(pk, _). sdk_pubkey_to_string sdk pk) ` set ?entries"
      by force
    with that have "backfilled (map (\<lambda>(pk, _). sdk_pubkey_to_string sdk pk) ?entries) (pg_now pg (world s)) e"
      by (simp add: backfilled_def)
    with that(2) show ?thesis unfolding stamped by (auto intro!: image_eqI [where x = e])
  qed
  ultimately show ?thesis
    using tx read rewardz_entries_member [OF rows]
    by (intro exI [of _ tx] exI [of _ "rewardz_root_ix sdk api signer program_id
       (rewardz_root_ix_data api ?rt epoch (sum_u128 ?entries) deny)"] exI [of _ ?rt]
        exI [of _ "sum_u128 ?entries"] exI [of _ deny] exI [of _ ?entries])
      (auto simp: rewardz_root_ix_def)
qed

lemma read_deny_list_error:
  "fst (rpc_get_account_opt r pda (world s)) = Inl e \<Longrightarrow>
   \<exists>u. read_on_chain_deny_list api r pda s = (Inl (Fault e), u)"
  by (cases "rpc_get_account_opt r pda (world s)")
    (simp add: read_on_chain_deny_list_def andThen_def call_def)

text \<open>
  C9: the gates before the chain. In a dry run, above the cap, or when the RewardzRoot account
  cannot be read for the deny list, a publish sends nothing and writes nothing; above the cap
  and on the failed read it is an error, so the deny list on chain is never overwritten by an
  empty one because of a failed read.
\<close>

theorem rewardz_publish_refuses:
  assumes "quiet pg" and "load_league_config env = Inr cfg"
    and "select_rewardz_earnings pg (db s) = Inr rows"
    and "is_dry_run env
      \<or> sum_u128 (rewardz_entries sdk rows) > ucast (lc_max_rewardz_per_epoch cfg)
      \<or> fst (rpc_get_account_opt r (rewardz_root_pda sdk api program_id) (world s)) = Inl err"
  shows "sent (snd (publish_rewardz_root p env sdk api r pg signer program_id epoch s)) = sent s
    \<and> db (snd (publish_rewardz_root p env sdk api r pg signer program_id epoch s)) = db s
    \<and> (\<not> is_dry_run env \<longrightarrow>
        (\<exists>f. fst (publish_rewardz_root p env sdk api r pg signer program_id epoch s) = Inl f))"
proof (cases "is_dry_run env \<or> sum_u128 (rewardz_entries sdk rows) > ucast (lc_max_rewardz_per_epoch cfg)")
  case True
  then show ?thesis
    by (auto simp: publish_rewardz_quiet [OF assms(1,2)] assms(3) split: sum.splits)
next
  case False
  with assms(4) obtain u where u:
    "read_on_chain_deny_list api r (rewardz_root_pda sdk api program_id) s = (Inl (Fault err), u)"
    using read_deny_list_error by blast
  then have "sent u = sent s" "db u = db s"
    using db_read_deny_list [of api r _ s] sent_read_deny_list [of api r _ s] by (metis snd_conv)+
  with False u show ?thesis
    by (auto simp: publish_rewardz_quiet [OF assms(1,2)] assms(3) submit_and_record_def andThen_def split: sum.splits)
qed

lemma authority_total_append: "authority_total a (es @ fs) = authority_total a es + authority_total a fs"
  by (simp add: authority_total_def)

lemma authority_total_nonneg: "\<forall>e \<in> set es. 0 \<le> re_amount e \<Longrightarrow> 0 \<le> authority_total a es"
  by (auto simp: authority_total_def intro!: sum_list_nonneg)

definition issued_total :: "sdk \<Rightarrow> earning list \<Rightarrow> int" where
  "issued_total sdk es =
     sum (\<lambda>a. max 0 (authority_total a es)) {a \<in> re_protocol_authority ` set es. sdk_pubkey_from_str sdk a \<noteq> None}"

lemma sum_list_rewardz_entries:
  assumes "\<forall>r \<in> set rows. in_i64 (er_cumulative_amount r)" "distinct (map er_protocol_authority rows)"
  shows "sum_list (map (\<lambda>(_, amount). uint amount) (rewardz_entries sdk rows)) =
    sum (\<lambda>r. max 0 (er_cumulative_amount r)) {r \<in> set rows. sdk_pubkey_from_str sdk (er_protocol_authority r) \<noteq> None}"
  using assms
proof (induction rows)
  case Nil
  then show ?case by (simp add: rewardz_entries_def)
next
  case (Cons r rows)
  have set_eq: "{x \<in> set (r # rows). sdk_pubkey_from_str sdk (er_protocol_authority x) \<noteq> None} =
    (if sdk_pubkey_from_str sdk (er_protocol_authority r) \<noteq> None
     then insert r {x \<in> set rows. sdk_pubkey_from_str sdk (er_protocol_authority x) \<noteq> None}
     else {x \<in> set rows. sdk_pubkey_from_str sdk (er_protocol_authority x) \<noteq> None})" by auto
  have new: "r \<notin> set rows" using Cons.prems(2) by auto
  have "uint (i64_as_u64 (er_cumulative_amount r)) = er_cumulative_amount r" if "0 < er_cumulative_amount r"
    using that Cons.prems(1) by (intro uint_i64_as_u64) auto
  with Cons new show ?case
    unfolding set_eq by (auto simp: rewardz_entries_def rewardz_entry_def split: option.splits if_splits)
qed

lemma uint_sum_u128:
  assumes "length entries \<le> 2 ^ 64"
  shows "uint (sum_u128 entries) = sum_list (map (\<lambda>(_, amount). uint amount) entries)"
proof -
  have "uint (sum_u128 entries) = int (unat (sum_u128 entries))" by simp
  also have "\<dots> = int (sum_list (map (\<lambda>(_, amount). unat amount) entries))"
    by (simp only: sum_u128_exact [OF assms])
  also have "\<dots> = sum_list (map (\<lambda>(_, amount). uint amount) entries)"
    by (induction entries) (auto simp: split_beta)
  finally show ?thesis .
qed

lemma uint_issued_total:
  assumes "select_rewardz_earnings pg d = Inr rows" "length (rewardz_earnings d) \<le> 2 ^ 64"
  shows "uint (sum_u128 (rewardz_entries sdk rows)) = issued_total sdk (rewardz_earnings d)"
proof -
  let ?es = "rewardz_earnings d"
  let ?R = "{r \<in> set rows. sdk_pubkey_from_str sdk (er_protocol_authority r) \<noteq> None}"
  have "set (map er_protocol_authority rows) = re_protocol_authority ` set ?es"
    by (simp add: select_rewardz_rows(1) [OF assms(1)])
  then have keys: "er_protocol_authority ` set rows = re_protocol_authority ` set ?es" by simp
  have inj: "inj_on er_protocol_authority (set rows)"
    using distinct_rewardz_rows [OF assms(1)] by (simp add: distinct_map)
  have "length (rewardz_entries sdk rows) \<le> 2 ^ 64"
    using length_rewardz_entries [OF assms(1), of sdk] assms(2) by simp
  note eq = uint_sum_u128 [OF this]
  have "\<forall>r \<in> set rows. in_i64 (er_cumulative_amount r)" using select_rewardz_rows(2) [OF assms(1)] by blast
  from sum_list_rewardz_entries [OF this distinct_rewardz_rows [OF assms(1)], of sdk] have "uint (sum_u128 (rewardz_entries sdk rows)) =
    sum (\<lambda>r. max 0 (er_cumulative_amount r)) ?R"
    by (simp only: eq)
  also have "\<dots> = sum (\<lambda>r. max 0 (authority_total (er_protocol_authority r) ?es)) ?R"
    using select_rewardz_rows(2) [OF assms(1)] by (intro sum.cong) auto
  also have "\<dots> = sum (\<lambda>a. max 0 (authority_total a ?es)) (er_protocol_authority ` ?R)"
    using inj by (subst sum.reindex) (auto simp: inj_on_def o_def)
  also have "er_protocol_authority ` ?R =
      {a \<in> re_protocol_authority ` set ?es. sdk_pubkey_from_str sdk a \<noteq> None}"
    unfolding keys [symmetric] by auto
  finally show ?thesis by (simp add: issued_total_def)
qed

lemma issued_total_grows:
  assumes "\<forall>e \<in> set later. 0 \<le> re_amount e"
  shows "issued_total sdk es \<le> issued_total sdk (es @ later)"
proof -
  let ?A = "{a \<in> re_protocol_authority ` set es. sdk_pubkey_from_str sdk a \<noteq> None}"
  let ?B = "{a \<in> re_protocol_authority ` set (es @ later). sdk_pubkey_from_str sdk a \<noteq> None}"
  have "issued_total sdk es \<le> sum (\<lambda>a. max 0 (authority_total a (es @ later))) ?A"
    unfolding issued_total_def
    using authority_total_nonneg [OF assms] by (intro sum_mono max.mono) (auto simp: authority_total_append)
  also have "\<dots> \<le> sum (\<lambda>a. max 0 (authority_total a (es @ later))) ?B"
    by (intro sum_mono2) auto
  finally show ?thesis by (simp add: issued_total_def)
qed

text \<open>
  The cap is a cap on all time. Once a publish is refused for the cap, every later publish
  over the same rows and more earnings of amounts at least zero is refused as well: earnings
  only accumulate, so nothing but a change of configuration brings the rail back.
\<close>

theorem rewardz_cap_refusal_is_permanent:
  assumes "quiet pg" and "load_league_config env = Inr cfg"
    and "select_rewardz_earnings pg (db s) = Inr rows"
    and "sum_u128 (rewardz_entries sdk rows) > ucast (lc_max_rewardz_per_epoch cfg)"
    and "rewardz_earnings (db s') = rewardz_earnings (db s) @ later" and "\<forall>e \<in> set later. 0 \<le> re_amount e"
    and "length (rewardz_earnings (db s')) \<le> 2 ^ 64"
  shows "\<exists>msg. publish_rewardz_root p env sdk api r pg signer program_id epoch s' = (Inl (Fault msg), s')"
proof (cases "select_rewardz_earnings pg (db s')")
  case (Inl e)
  then show ?thesis by (simp add: publish_rewardz_quiet [OF assms(1,2)])
next
  case (Inr rows')
  have len: "length (rewardz_earnings (db s)) \<le> 2 ^ 64" using assms(5,7) by simp
  have "uint (ucast (lc_max_rewardz_per_epoch cfg) :: u128) < uint (sum_u128 (rewardz_entries sdk rows))"
    using assms(4) by (simp only: word_less_def)
  also have "\<dots> \<le> uint (sum_u128 (rewardz_entries sdk rows'))"
    unfolding uint_issued_total [OF assms(3) len] uint_issued_total [OF Inr assms(7)] assms(5)
    by (rule issued_total_grows [OF assms(6)])
  finally have "ucast (lc_max_rewardz_per_epoch cfg) < sum_u128 (rewardz_entries sdk rows')"
    by (simp only: word_less_def)
  then show ?thesis by (simp add: publish_rewardz_quiet [OF assms(1,2)] Inr)
qed

text \<open>
  The grouped earnings do not depend on the order in which the rows are stored, so two
  keepers over the same earnings build the same tree and publish the same root.
\<close>

theorem rewardz_rows_deterministic:
  assumes "inj (pg_collate pg)" and "mset (rewardz_earnings d) = mset (rewardz_earnings d')"
  shows "select_rewardz_earnings pg d = select_rewardz_earnings pg d'"
proof -
  have set: "re_protocol_authority ` set (rewardz_earnings d) = re_protocol_authority ` set (rewardz_earnings d')"
    using mset_eq_setD [OF assms(2)] by simp
  have total: "authority_total a (rewardz_earnings d) = authority_total a (rewardz_earnings d')" for a
  proof -
    have "mset (map re_amount (filter (\<lambda>r. re_protocol_authority r = a) (rewardz_earnings d))) =
      mset (map re_amount (filter (\<lambda>r. re_protocol_authority r = a) (rewardz_earnings d')))"
      using assms(2) by (simp add: mset_filter)
    then show ?thesis unfolding authority_total_def by (metis sum_mset_sum_list)
  qed
  let ?g = "\<lambda>d. sort_key (pg_collate pg) (remdups (map re_protocol_authority (rewardz_earnings d)))"
  have "?g d = ?g d'"
  proof (rule properties_for_sort_key)
    show "mset (?g d') = mset (remdups (map re_protocol_authority (rewardz_earnings d)))"
      using set by (simp add: set_eq_iff_mset_remdups_eq [symmetric])
    show "filter (\<lambda>x. pg_collate pg k = pg_collate pg x) (?g d') =
      filter (\<lambda>x. pg_collate pg k = pg_collate pg x) (remdups (map re_protocol_authority (rewardz_earnings d)))" for k
    proof -
      have "(\<lambda>x. pg_collate pg k = pg_collate pg x) = (\<lambda>x. x = k)"
        using assms(1) by (auto simp: inj_eq)
      moreover have "filter (\<lambda>x. x = k) xs = (if k \<in> set xs then [k] else [])" if "distinct xs" for xs :: "string list"
        using that by (induction xs) auto
      ultimately show ?thesis using set by simp
    qed
    show "sorted (map (pg_collate pg) (?g d'))" by simp
  qed
  moreover have "set (?g d) = re_protocol_authority ` set (rewardz_earnings d')"
    using set by simp
  ultimately show ?thesis
    unfolding select_rewardz_earnings_def Let_def by (simp only: total)
qed

subsection \<open>The epochs of the cron\<close>

definition tx_rewardz_epoch :: "transaction \<Rightarrow> u64 option" where
  "tx_rewardz_epoch tx =
     (case tx_instructions tx of [ix] \<Rightarrow> read_u64_at (ix_data ix) 33 | _ \<Rightarrow> None)"

lemma tx_rewardz_epoch_ix:
  "length root_bytes = 32 \<Longrightarrow>
   tx_rewardz_epoch \<lparr>tx_instructions = [rewardz_root_ix sdk api signer program_id
     (rewardz_root_ix_data api root_bytes epoch issued deny)], tx_payer = k, tx_blockhash = bh\<rparr> = Some epoch"
  by (simp add: tx_rewardz_epoch_def rewardz_root_ix_def rewardz_root_ix_data_def read_u64_at_def slice_def)

lemma sends_with_config [sends_intros]:
  "(\<And>cfg. sends_only P n (k cfg)) \<Longrightarrow> sends_only P n (with_config env k)"
  by (cases "load_league_config env") (auto simp: sends_only_def with_config_def)

lemma sends_get_rewardz_earnings [sends_intros]: "sends_only P n (get_rewardz_earnings_grouped pg)"
  unfolding get_rewardz_earnings_grouped_def by (intro sends_intros)

lemma sends_or_fault:
  "(\<And>x. r = Inr x \<Longrightarrow> sends_only P n (k x)) \<Longrightarrow> sends_only P n (andThen (or_fault r) k)"
  by (cases r) (auto simp: sends_only_def or_fault_def andThen_def)

lemma sends_publish_rewardz:
  assumes "\<And>x. length (sdk_keccak sdk x) = 32"
  shows "sends_only (\<lambda>tx. tx_rewardz_epoch tx = Some epoch) (Suc 0)
    (publish_rewardz_root p env sdk api r pg signer program_id epoch)"
proof -
  let ?P = "\<lambda>tx. tx_rewardz_epoch tx = Some epoch"
  have tail: "sends_only ?P (Suc 0) (submit_and_record sdk api r pg signer program_id epoch cutoff entries rt)"
    if "length rt = 32" for cutoff entries rt
    unfolding submit_and_record_def
    by (intro sends_andThen_reads [OF sends_read_deny_list] sends_andThen_last sends_send_instruction
        sends_attempt sends_record_publish sends_ret tx_rewardz_epoch_ix that)
  show ?thesis
    unfolding publish_rewardz_root_def Let_def
    by (intro sends_with_config sends_andThen_reads [OF sends_execute]
        sends_andThen_reads [OF sends_get_rewardz_earnings] sends_if sends_throw sends_or_fault sends_ret tail
        length_rewardz_root [OF assms])
qed

definition next_epoch :: "mvp_api \<Rightarrow> string + bytes option \<Rightarrow> u64 \<Rightarrow> u64 option" where
  \<comment> \<open>the epoch a turn publishes, from the answer to its read and the cached epoch\<close>
  "next_epoch api response known =
     (case response of
        Inl e \<Rightarrow> None
      | Inr None \<Rightarrow> if known > 0 then None else Some 1
      | Inr (Some data) \<Rightarrow>
          if length data < api_rroot_len api then (if known > 0 then None else Some 1)
          else Some (api_rroot_read_u64 api data (api_rroot_off_epoch api) + 1))"

lemma sends_turn_publish:
  assumes "\<And>x. length (sdk_keccak sdk x) = 32"
  shows "sends_only (\<lambda>tx. tx_rewardz_epoch tx = Some (current + 1)) (Suc 0)
    (andThen (or_panic msg (plus_u64 p current 1)) (\<lambda>epoch.
     andThen (attempt (publish_rewardz_root p env sdk api r pg signer program_id epoch)) (\<lambda>logged. ret known)))"
proof (cases "plus_u64 p current 1")
  case None
  then show ?thesis by (simp add: or_panic_def sends_intros)
next
  case (Some e)
  then have "e = current + 1" by (simp add: plus_u64_def split: if_splits)
  then show ?thesis
    unfolding Some or_panic_def option.case andThen_ret
    by (auto intro!: sends_andThen_last sends_attempt sends_publish_rewardz assms sends_ret)
qed

lemma rewardz_turn_cases:
  assumes "fst (rpc_get_account_opt r (rewardz_root_pda sdk api program_id) (world s)) = response"
  obtains (skip) u where "next_epoch api response known = None" "sent u = sent s"
      "rewardz_turn p env sdk api r pg signer program_id known s = (Inr known, u)"
  | (publish) u current known' where "next_epoch api response known = Some (current + 1)" "sent u = sent s"
      "next_epoch api response known' = next_epoch api response known"
      "rewardz_turn p env sdk api r pg signer program_id known s =
        andThen (or_panic ''attempt to add with overflow'' (plus_u64 p current 1)) (\<lambda>epoch.
        andThen (attempt (publish_rewardz_root p env sdk api r pg signer program_id epoch)) (\<lambda>logged.
        ret known')) u"
proof -
  obtain w where w: "rpc_get_account_opt r (rewardz_root_pda sdk api program_id) (world s) = (response, w)"
    using assms by (metis prod.collapse)
  let ?load = "attempt (load_rewardz_epoch sdk api r program_id)"
  have load: "?load s = (Inr (case response of Inl e \<Rightarrow> Inl e | Inr None \<Rightarrow> Inr None
      | Inr (Some data) \<Rightarrow> Inr (if length data < api_rroot_len api then None
          else Some (api_rroot_read_u64 api data (api_rroot_off_epoch api)))), s\<lparr>world := w\<rparr>)"
    using w by (auto simp: load_rewardz_epoch_def call_def andThen_def attempt_def ret_def
        split: sum.splits option.splits)
  note defs = rewardz_turn_def next_epoch_def andThen_def [of ?load] load ret_def Let_def
  show ?thesis
  proof (cases response)
    case (Inl e)
    then show ?thesis by (intro skip [of "s\<lparr>world := w\<rparr>"]) (simp_all add: defs)
  next
    case (Inr a)
    show ?thesis
    proof (cases "\<exists>data. a = Some data \<and> \<not> length data < api_rroot_len api")
      case True
      then obtain data where "a = Some data" "\<not> length data < api_rroot_len api" by blast
      with Inr show ?thesis
        by (intro publish [of "api_rroot_read_u64 api data (api_rroot_off_epoch api)" "s\<lparr>world := w\<rparr>"
              "api_rroot_read_u64 api data (api_rroot_off_epoch api)"]) (simp_all add: defs)
    next
      case False
      show ?thesis
      proof (cases "known > 0")
        case True
        with False Inr show ?thesis
          by (intro skip [of "s\<lparr>world := w\<rparr>"]) (auto simp: defs split: option.splits)
      next
        case zero: False
        with False Inr show ?thesis
          by (intro publish [of 0 "s\<lparr>world := w\<rparr>" known]) (auto simp: defs split: option.splits)
      qed
    qed
  qed
qed


subsection \<open>A concrete publish\<close>

definition devnet_env :: environment where
  "devnet_env = [''SOLANA_NETWORK'' \<mapsto> ''devnet'']"

definition dry_run_env :: environment where
  "dry_run_env = devnet_env(''REWARDZ_PUBLISHER_DRY_RUN'' \<mapsto> ''1'')"

lemma devnet_env_simps [simp]:
  "load_league_config devnet_env = Inr DEVNET" "load_league_config dry_run_env = Inr DEVNET"
  "\<not> is_dry_run devnet_env" "is_dry_run dry_run_env"
  by (simp_all add: load_league_config_def devnet_env_def dry_run_env_def is_dry_run_def)

lemma DEVNET_cap [simp]: "lc_max_rewardz_per_epoch DEVNET = 10000"
  by (simp add: DEVNET_def)

definition rroot_account :: "u64 \<Rightarrow> bytes" where
  "rroot_account epoch =
     [9, 1] @ replicate 32 0 @ u64_le epoch @ replicate 8 0 @ [1] @ replicate 32 9 @ replicate 34 0"

definition rroot_node :: "unit rpc" where
  "rroot_node = open_rpc [rewardz_root_pda key_sdk sample_api [] \<mapsto> rroot_account 4]"

definition two_earners :: "int \<Rightarrow> database" where
  "two_earners n = empty_db\<lparr>rewardz_earnings :=
     [sample_earning (replicate 32 CHR ''B'') n 10, sample_earning (replicate 32 CHR ''A'') 30 20]\<rparr>"

definition two_rows :: "int \<Rightarrow> rewardz_earnings_row list" where
  "two_rows n =
     [\<lparr>er_protocol_authority = replicate 32 CHR ''A'', er_cumulative_amount = 30\<rparr>,
      \<lparr>er_protocol_authority = replicate 32 CHR ''B'', er_cumulative_amount = n\<rparr>]"

lemma two_earners_rows: "select_rewardz_earnings quiet_pg (two_earners 12) = Inr (two_rows 12)"
  "select_rewardz_earnings quiet_pg (two_earners 10000) = Inr (two_rows 10000)"
  by code_simp+

lemma two_rows_issued: "sum_u128 (rewardz_entries key_sdk (two_rows 12)) = 42"
  "sum_u128 (rewardz_entries key_sdk (two_rows 10000)) = 10030"
  by code_simp+

lemma rroot_node_deny: "read_on_chain_deny_list sample_api rroot_node (rewardz_root_pda key_sdk sample_api []) s =
    (Inr [replicate 32 9], s)"
proof -
  have "read_deny_entries sample_api (rroot_account 4) = [replicate 32 9]"
    "\<not> length (rroot_account 4) < api_rroot_len sample_api" by code_simp+
  then show ?thesis
    by (cases s) (simp add: read_on_chain_deny_list_def rroot_node_def open_rpc_def call_def andThen_def ret_def)
qed

lemma release_tree: "\<exists>tree. build_rewardz_tree Release keccak entries = Inr tree"
  using build_rewardz_tree_eq [of Release entries keccak] by auto

lemma sample_rewardz_publish:
  "\<exists>t. publish_rewardz_root Release devnet_env key_sdk sample_api rroot_node quiet_pg [] [] 5
      (app_of () (two_earners 12)) = (Inr (), t) \<and> sent t \<noteq> []"
proof -
  obtain tree where tree: "build_rewardz_tree Release (sdk_keccak key_sdk) (rewardz_entries key_sdk (two_rows 12)) = Inr tree"
    using release_tree by blast
  have cap: "\<not> ucast (10000 :: u64) < (42 :: u128)" by simp
  show ?thesis
    using tree cap
    by (simp add: publish_rewardz_quiet two_earners_rows two_rows_issued submit_and_record_def
        andThen_def rroot_node_deny) (simp add: rroot_node_def open_rpc_send andThen_def [symmetric]
        attempt_def ret_def andThen_def record_rewardz_root_publish_quiet)
qed

theorem rewardz_root_is_claimable_witness:
  "\<exists>t tx ix rt issued deny. publish_rewardz_root Release devnet_env key_sdk sample_api rroot_node quiet_pg [] [] 5
      (app_of () (two_earners 12)) = (Inr (), t)
    \<and> sent t = [tx] \<and> tx_instructions tx = [ix]
    \<and> decode_rewardz_ix sample_api (ix_data ix) = Some (rt, 5, issued, deny) \<and> deny = [replicate 32 9]"
proof -
  from sample_rewardz_publish obtain t where
    t: "publish_rewardz_root Release devnet_env key_sdk sample_api rroot_node quiet_pg [] [] 5
      (app_of () (two_earners 12)) = (Inr (), t)" "sent t \<noteq> sent (app_of () (two_earners 12))" by auto
  have "length (rewardz_earnings (db (app_of () (two_earners 12)))) \<le> 2 ^ 64"
    by (simp add: two_earners_def)
  from rewardz_root_is_claimable [OF quiet_pg canonical_key_sdk length_keccak_key_sdk devnet_env_simps(1) this _ t]
  have "\<exists>tx ix rt issued deny. sent t = [tx] \<and> tx_instructions tx = [ix]
    \<and> decode_rewardz_ix sample_api (ix_data ix) = Some (rt, 5, issued, deny) \<and> deny = [replicate 32 9]"
    by (auto simp: rroot_node_deny)
  with t(1) show ?thesis by blast
qed

theorem rewardz_publish_refuses_witness:
  "sent (snd (publish_rewardz_root Debug dry_run_env key_sdk sample_api rroot_node quiet_pg [] [] 5
      (app_of () (two_earners 12)))) = []
   \<and> (\<exists>f. fst (publish_rewardz_root Debug devnet_env key_sdk sample_api rroot_node quiet_pg [] [] 5
      (app_of () (two_earners 10000))) = Inl f)"
proof -
  have over: "ucast (lc_max_rewardz_per_epoch DEVNET) < sum_u128 (rewardz_entries key_sdk (two_rows 10000))"
    by (simp add: two_rows_issued)
  have "select_rewardz_earnings quiet_pg (db (app_of () (two_earners 12))) = Inr (two_rows 12)"
    "select_rewardz_earnings quiet_pg (db (app_of () (two_earners 10000))) = Inr (two_rows 10000)"
    by (simp_all add: two_earners_rows)
  then show ?thesis
    using rewardz_publish_refuses [of quiet_pg dry_run_env DEVNET "app_of () (two_earners 12)" "two_rows 12"
        key_sdk rroot_node sample_api "[]" "''''" Debug "[]" 5]
      rewardz_publish_refuses [of quiet_pg devnet_env DEVNET "app_of () (two_earners 10000)" "two_rows 10000"
        key_sdk rroot_node sample_api "[]" "''''" Debug "[]" 5] over
    by simp
qed

theorem rewardz_cap_refusal_is_permanent_witness:
  "\<exists>msg. publish_rewardz_root Debug devnet_env key_sdk sample_api rroot_node quiet_pg [] [] 6
      (app_of () ((two_earners 10000)\<lparr>rewardz_earnings := rewardz_earnings (two_earners 10000) @
         [sample_earning (replicate 32 CHR ''C'') 1 30]\<rparr>))
    = (Inl (Fault msg), app_of () ((two_earners 10000)\<lparr>rewardz_earnings := rewardz_earnings (two_earners 10000) @
         [sample_earning (replicate 32 CHR ''C'') 1 30]\<rparr>))"
proof (rule rewardz_cap_refusal_is_permanent [OF quiet_pg devnet_env_simps(1)])
  show "select_rewardz_earnings quiet_pg (db (app_of () (two_earners 10000))) = Inr (two_rows 10000)"
    by (simp add: two_earners_rows)
  show "ucast (lc_max_rewardz_per_epoch DEVNET) < sum_u128 (rewardz_entries key_sdk (two_rows 10000))"
    by (simp add: two_rows_issued)
qed (auto simp: two_earners_def sample_earning_def)

theorem rewardz_rows_deterministic_witness:
  "select_rewardz_earnings quiet_pg (empty_db\<lparr>rewardz_earnings := rev (rewardz_earnings (two_earners 12))\<rparr>) =
     Inr (two_rows 12)"
  using rewardz_rows_deterministic [of quiet_pg "empty_db\<lparr>rewardz_earnings := rev (rewardz_earnings (two_earners 12))\<rparr>"
      "two_earners 12"] two_earners_rows(1)
  by (simp add: quiet_pg_def)


end
