(* ===== verification/Api.thy ===== *)
theory Api
  imports Rewardz_Publisher Text
begin

section \<open>api.rs: the HTTP handlers\<close>

text \<open>
  \<^verbatim>\<open>src/src/api.rs\<close>: the handlers of \<open>/sign-receipt\<close>, \<open>/bootstrap-award\<close> and
  \<open>/rewardz/proof/:authority\<close>. A handler is a program whose value is an HTTP error with its
  status and text, or the body of the answer. The router, its CORS layer and \<open>/healthz\<close> are in
  the theory \<open>Router\<close>. The wall clock is a parameter in seconds; the text of an error that a library
  formats is cut at its fixed part.
\<close>

record app_state =
  as_keypair :: pubkey
  as_program_id :: pubkey
  as_points_request_ttl_seconds :: int
  as_points_receipt_ttl_seconds :: int
  as_rewardz_publish_interval_secs :: int

record sign_receipt_request =
  sr_authority :: string
  sr_points_claim :: u64
  sr_proof :: "string list"
  sr_root :: string
  sr_timestamp :: int
  sr_signature :: string

record receipt =
  rc_prev_total :: u64
  rc_new_total :: u64
  rc_epoch :: u64
  rc_nonce :: u64
  rc_expiry :: int
  rc_signature :: string

record bootstrap_award_request =
  br_authority :: string
  br_timestamp :: int
  br_signature :: string

record rewardz_proof_response =
  rp_cumulative_amount :: u64
  rp_onchain_epoch :: u64
  rp_proof :: "string list"
  rp_root_hex :: string
  rp_valid_until :: int

type_synonym http_error = "nat \<times> string"
type_synonym ('w, 'a) handler = "('w app, http_error + 'a) prog"

definition reject :: "nat \<Rightarrow> string \<Rightarrow> ('w, 'a) handler" where
  "reject status msg = ret (Inl (status, msg))"

definition require :: "nat \<Rightarrow> string \<Rightarrow> 'b option \<Rightarrow> ('b \<Rightarrow> ('w, 'a) handler) \<Rightarrow> ('w, 'a) handler" where
  \<comment> \<open>\<open>map_err(|e| (status, ...))?\<close> on a parse\<close>
  "require status msg x k = (case x of None \<Rightarrow> reject status msg | Some y \<Rightarrow> k y)"

definition or_reject ::
    "nat \<Rightarrow> string \<Rightarrow> ('w app, 'b) prog \<Rightarrow> ('b \<Rightarrow> ('w, 'a) handler) \<Rightarrow> ('w, 'a) handler" where
  \<comment> \<open>\<open>map_err(|e| (status, ...))?\<close> on a call\<close>
  "or_reject status msg m k =
     andThen (attempt m) (\<lambda>r. case r of Inl e \<Rightarrow> reject status msg | Inr y \<Rightarrow> k y)"

subsection \<open>The checks the two POST handlers share\<close>

definition abs_i64 :: "profile \<Rightarrow> int \<Rightarrow> int option" where
  "abs_i64 p x = i64_result p \<bar>x\<bar>"

definition expired :: "profile \<Rightarrow> int \<Rightarrow> int \<Rightarrow> int \<Rightarrow> bool option" where
  \<comment> \<open>\<open>(now - timestamp).abs() > ttl\<close>; \<open>None\<close> is the panic of an overflow check\<close>
  "expired p now timestamp ttl =
     Option.bind (i64_result p (now - timestamp)) (\<lambda>d.
     Option.bind (abs_i64 p d) (\<lambda>a. Some (a > ttl)))"

definition verify_wallet ::
    "sdk \<Rightarrow> string \<Rightarrow> string \<Rightarrow> string \<Rightarrow> (pubkey \<Rightarrow> ('w, 'a) handler) \<Rightarrow> ('w, 'a) handler" where
  \<comment> \<open>steps 1 and 2: the authority, the signature's encoding, its length, its verification\<close>
  "verify_wallet sdk authority_text message signature_text k =
     require 400 ''Invalid authority pubkey'' (sdk_pubkey_from_str sdk authority_text) (\<lambda>authority.
     require 400 ''Invalid signature encoding'' (sdk_bs58_decode sdk signature_text) (\<lambda>sig_bytes.
     if length sig_bytes \<noteq> 64 then reject 400 ''Invalid signature''
     else if \<not> sdk_verify sdk sig_bytes authority (text_bytes message) then
       reject 401 ''Invalid wallet signature''
     else k authority))"

definition check_fresh ::
    "profile \<Rightarrow> int \<Rightarrow> int \<Rightarrow> int \<Rightarrow> ('w, 'a) handler \<Rightarrow> ('w, 'a) handler" where
  "check_fresh p now timestamp ttl k =
     andThen (or_panic ''attempt to subtract with overflow'' (expired p now timestamp ttl)) (\<lambda>old.
     if old then reject 400 ''Request timestamp expired'' else k)"

definition read_clock :: "('w \<Rightarrow> int) \<Rightarrow> ('w app, int) prog" where
  "read_clock clock s = (Inr (clock (world s)), s)"

subsection \<open>POST /sign-receipt\<close>

definition points_receipt_message :: "string \<Rightarrow> string \<Rightarrow> u64 \<Rightarrow> int \<Rightarrow> string" where
  "points_receipt_message authority root_text points_claim timestamp =
     ''rewardz:points-receipt:v1:'' @ with_colon authority
       (with_colon root_text (with_colon (dec_u64 points_claim) (dec_int timestamp)))"

definition receipt_message :: "string \<Rightarrow> u64 \<Rightarrow> u64 \<Rightarrow> u64 \<Rightarrow> int \<Rightarrow> string" where
  "receipt_message authority points_claim latest nonce expiry =
     ''rewardz:receipt:v1:'' @ with_colon authority
       (with_colon (dec_u64 points_claim) (with_colon (dec_u64 latest)
         (with_colon (dec_u64 nonce) (dec_int expiry))))"

definition fetch_current_epoch ::
    "sdk \<Rightarrow> 'w rpc \<Rightarrow> pubkey \<Rightarrow> ('w app, u64 option) prog" where
  "fetch_current_epoch sdk r program_id =
     andThen (attempt (call (rpc_get_account r
         (sdk_find_program_address sdk [map of_char ''point_root''] program_id)))) (\<lambda>acct.
       case acct of
         Inr data \<Rightarrow> ret (if 74 \<le> length data then read_u64_at data 66 else None)
       | Inl e \<Rightarrow> ret None)"

definition sign_receipt ::
    "profile \<Rightarrow> sdk \<Rightarrow> 'w rpc \<Rightarrow> 'w pg \<Rightarrow> ('w \<Rightarrow> int) \<Rightarrow> app_state \<Rightarrow> sign_receipt_request
       \<Rightarrow> ('w, receipt option) handler" where
  "sign_receipt p sdk r pg clock state req =
     verify_wallet sdk (sr_authority req)
       (points_receipt_message (sr_authority req) (sr_root req) (sr_points_claim req) (sr_timestamp req))
       (sr_signature req) (\<lambda>authority.
     andThen (read_clock clock) (\<lambda>now.
     check_fresh p now (sr_timestamp req) (as_points_request_ttl_seconds state) (
     or_reject 500 ''Database error'' (get_user_total_points pg (sr_authority req)) (\<lambda>db_total.
     let latest = i64_as_u64 (case db_total of Some t \<Rightarrow> t | None \<Rightarrow> 0) in
     if latest = sr_points_claim req then ret (Inr None)
     else if latest < sr_points_claim req then
       reject 409 ''Stale DB: claimed points exceed current total''
     else
       andThen (or_panic ''attempt to add with overflow''
           (i64_result p (now + as_points_receipt_ttl_seconds state))) (\<lambda>expiry.
       let nonce = i64_as_u64 now;
           admin_sig = sdk_sign sdk (as_keypair state) (text_bytes
             (receipt_message (sr_authority req) (sr_points_claim req) latest nonce expiry)) in
       andThen (fetch_current_epoch sdk r (as_program_id state)) (\<lambda>epoch.
       ret (Inr (Some
         \<lparr>rc_prev_total = sr_points_claim req, rc_new_total = latest,
          rc_epoch = (case epoch of Some e \<Rightarrow> e | None \<Rightarrow> 0), rc_nonce = nonce, rc_expiry = expiry,
          rc_signature = sdk_bs58_encode sdk admin_sig\<rparr>))))))))"

subsection \<open>POST /bootstrap-award\<close>

definition bootstrap_message :: "string \<Rightarrow> int \<Rightarrow> string" where
  "bootstrap_message authority timestamp =
     ''rewardz:points-bootstrap-award:v1:'' @ with_colon authority (dec_int timestamp)"

definition bootstrap_amount :: int where
  "bootstrap_amount = 100"

definition same_user :: "user_row \<Rightarrow> user_row \<Rightarrow> bool" where
  "same_user a b \<longleftrightarrow> u_wallet_address a = u_wallet_address b"

definition same_balance :: "user_balance \<Rightarrow> user_balance \<Rightarrow> bool" where
  "same_balance a b \<longleftrightarrow> ub_wallet_address a = ub_wallet_address b"

definition insert_user :: "string \<Rightarrow> nat statement" where
  "insert_user wallet now d =
     (let (table, n) = insert_rows same_user
        [\<lparr>u_wallet_address = wallet, u_total_points = bootstrap_amount\<rparr>] (users d) in
      Inr (n, d\<lparr>users := table\<rparr>))"

definition insert_balance :: "string \<Rightarrow> nat statement" where
  "insert_balance wallet now d =
     (let (table, n) = insert_rows same_balance
        [\<lparr>ub_wallet_address = wallet, ub_total_earned = bootstrap_amount, ub_total_pending = 0,
          ub_total_spent = 0, ub_total_reserved = 0\<rparr>] (user_balances d) in
      Inr (n, d\<lparr>user_balances := table\<rparr>))"

definition user_stake_exists ::
    "sdk \<Rightarrow> 'w rpc \<Rightarrow> pubkey \<Rightarrow> pubkey \<Rightarrow> ('w app, bool) prog" where
  "user_stake_exists sdk r program_id authority =
     andThen (attempt (call (rpc_get_account r
         (sdk_find_program_address sdk [map of_char ''user_stake'', authority] program_id)))) (\<lambda>acct.
       ret (case acct of Inr _ \<Rightarrow> True | Inl _ \<Rightarrow> False))"

definition award_or_rollback :: "database \<Rightarrow> ('w, 'a) handler \<Rightarrow> ('w, 'a) handler" where
  \<comment> \<open>an early return drops the transaction\<close>
  "award_or_rollback d m s =
     (case m s of
        (Inr (Inr x), s') \<Rightarrow> (Inr (Inr x), s')
      | (res, s') \<Rightarrow> (res, s'\<lparr>db := d\<rparr>))"

definition award_points :: "'w pg \<Rightarrow> string \<Rightarrow> ('w, string) handler" where
  \<comment> \<open>steps 5 and 6\<close>
  "award_points pg wallet =
     or_reject 500 ''Database error'' (begin_tx pg) (\<lambda>(now, d).
     award_or_rollback d (
       or_reject 500 ''Database error'' (execute_in pg now (insert_user wallet)) (\<lambda>rows_affected.
       if rows_affected = 0 then
         andThen (attempt (round_trip pg)) (\<lambda>_.
         reject 409 ''User already exists (bootstrap already applied or has points)'')
       else
         or_reject 500 ''Database error'' (execute_in pg now (insert_balance wallet)) (\<lambda>_.
         or_reject 500 ''Database error'' (commit pg) (\<lambda>_.
         ret (Inr ''Awarded 100 bootstrap points''))))))"

definition bootstrap_award ::
    "profile \<Rightarrow> sdk \<Rightarrow> 'w rpc \<Rightarrow> 'w pg \<Rightarrow> ('w \<Rightarrow> int) \<Rightarrow> app_state \<Rightarrow> bootstrap_award_request
       \<Rightarrow> ('w, string) handler" where
  "bootstrap_award p sdk r pg clock state req =
     verify_wallet sdk (br_authority req)
       (bootstrap_message (br_authority req) (br_timestamp req)) (br_signature req) (\<lambda>authority.
     andThen (read_clock clock) (\<lambda>now.
     check_fresh p now (br_timestamp req) (as_points_request_ttl_seconds state) (
     andThen (user_stake_exists sdk r (as_program_id state) authority) (\<lambda>exists_on_chain.
     if exists_on_chain then reject 409 ''Already bootstrapped: UserStake account exists''
     else award_points pg (br_authority req)))))"

subsection \<open>GET /rewardz/proof/:authority\<close>

definition hex_0x :: "bytes \<Rightarrow> string" where
  "hex_0x bs = ''0x'' @ hex_encode bs"

definition proof_for_target ::
    "('w \<Rightarrow> int) \<Rightarrow> app_state \<Rightarrow> bytes \<Rightarrow> u64 \<Rightarrow> (pubkey \<times> u64) list \<Rightarrow> rewardz_merkle_tree \<Rightarrow> pubkey
       \<Rightarrow> ('w, rewardz_proof_response) handler" where
  \<comment> \<open>steps 6 and 7\<close>
  "proof_for_target clock state onchain_root onchain_epoch entries tree target =
     (case (map_of (rev entries) target, rt_proofs tree target) of
        (Some cumulative_amount, Some pf) \<Rightarrow>
          andThen (read_clock clock) (\<lambda>now.
          ret (Inr
            \<lparr>rp_cumulative_amount = cumulative_amount, rp_onchain_epoch = onchain_epoch,
             rp_proof = map hex_0x pf, rp_root_hex = hex_0x onchain_root,
             rp_valid_until = now + as_rewardz_publish_interval_secs state\<rparr>))
      | _ \<Rightarrow> reject 404 ''No rewardz earnings for authority'')"

definition get_rewardz_proof ::
    "profile \<Rightarrow> sdk \<Rightarrow> mvp_api \<Rightarrow> 'w rpc \<Rightarrow> 'w pg \<Rightarrow> ('w \<Rightarrow> int) \<Rightarrow> app_state \<Rightarrow> string
       \<Rightarrow> ('w, rewardz_proof_response) handler" where
  "get_rewardz_proof p sdk api r pg clock state authority_text =
     require 400 ''Invalid authority pubkey'' (sdk_pubkey_from_str sdk authority_text) (\<lambda>target.
     or_reject 503 ''Could not read on-chain RewardzRoot''
       (read_onchain_rewardz_root sdk api r (as_program_id state)) (\<lambda>onchain.
     case onchain of
       None \<Rightarrow> reject 503 ''RewardzRoot not yet initialised on-chain''
     | Some (onchain_root, onchain_epoch) \<Rightarrow>
     or_reject 500 ''Database error'' (get_rewardz_earnings_grouped pg) (\<lambda>rows.
     let entries = filter_map (rewardz_entry sdk) rows in
     andThen (or_fault (build_rewardz_tree p (sdk_keccak sdk) entries)) (\<lambda>tree.
     case tree of
       None \<Rightarrow>
         if onchain_root = replicate 32 0 then reject 404 ''No rewardz earnings recorded yet''
         else reject 503 ''Keeper state diverged from chain''
     | Some tree \<Rightarrow>
         if rt_root tree \<noteq> onchain_root then
           reject 503 ''Keeper has unpublished earnings''
         else proof_for_target clock state onchain_root onchain_epoch entries tree target))))"

subsection \<open>The signed messages\<close>

lemma message_kinds_apart:
  "points_receipt_message a1 rt claim ts \<noteq> receipt_message a2 c2 l2 n2 e2"
  "points_receipt_message a1 rt claim ts \<noteq> bootstrap_message a3 ts3"
  "receipt_message a2 c2 l2 n2 e2 \<noteq> bootstrap_message a3 ts3"
  by (simp_all add: points_receipt_message_def receipt_message_def bootstrap_message_def)



subsection \<open>The window of a timestamp\<close>

lemma expired_exact:
  "in_i64 (now - ts) \<Longrightarrow> now - ts \<noteq> - (2 ^ 63) \<Longrightarrow> expired p now ts ttl = Some (\<bar>now - ts\<bar> > ttl)"
  by (auto simp: expired_def i64_result_def abs_i64_def in_i64_def)



subsection \<open>Receipts\<close>

lemma or_reject_Inr:
  assumes "or_reject status msg m k s = (Inr (Inr x), t)"
  obtains y u where "m s = (Inr y, u)" "k y u = (Inr (Inr x), t)"
  using assms
  by (auto simp: or_reject_def reject_def andThen_def attempt_def ret_def
      split: prod.splits sum.splits fault.splits)

lemma verify_wallet_Inr:
  assumes "verify_wallet sdk a msg sig k s = (Inr (Inr x), t)"
  obtains authority sig_bytes where "sdk_pubkey_from_str sdk a = Some authority"
    "sdk_bs58_decode sdk sig = Some sig_bytes" "length sig_bytes = 64"
    "sdk_verify sdk sig_bytes authority (text_bytes msg)" "k authority s = (Inr (Inr x), t)"
  using assms
  by (auto simp: verify_wallet_def require_def reject_def ret_def split: option.splits if_splits)

lemma check_fresh_Inr:
  assumes "check_fresh p now ts ttl k s = (Inr (Inr x), t)"
  shows "expired p now ts ttl = Some False \<and> k s = (Inr (Inr x), t)"
  using assms
  by (auto simp: check_fresh_def reject_def andThen_def or_panic_def panic_def ret_def
      split: option.splits if_splits)

lemma read_clock_then: "andThen (read_clock clock) k s = k (clock (world s)) s"
  by (simp add: andThen_def read_clock_def)

lemma db_fetch_epoch [simp]: "db (snd (fetch_current_epoch sdk r program_id s)) = db s"
  by (auto simp: fetch_current_epoch_def andThen_def attempt_def call_def ret_def
      split: prod.splits sum.splits fault.splits if_splits)

lemma sent_fetch_epoch [simp]: "sent (snd (fetch_current_epoch sdk r program_id s)) = sent s"
  by (auto simp: fetch_current_epoch_def andThen_def attempt_def call_def ret_def
      split: prod.splits sum.splits fault.splits if_splits)

definition stored_total :: "string \<Rightarrow> database \<Rightarrow> int" where
  "stored_total wallet d =
     (case find (\<lambda>u. u_wallet_address u = wallet) (users d) of Some u \<Rightarrow> u_total_points u | None \<Rightarrow> 0)"

lemma get_user_total_points_quiet:
  "quiet pg \<Longrightarrow> get_user_total_points pg wallet s =
    (Inr (map_option u_total_points (find (\<lambda>u. u_wallet_address u = wallet) (users (db s)))), s)"
  by (simp add: get_user_total_points_def quiet_execute run_statement_def)

text \<open>
  C25: what a receipt attests. When the handler issues a receipt on a quiet session, the wallet
  has signed exactly this request, its timestamp is within the window, the new total is the
  total stored for the wallet and is above the claimed one, and the signature is the keeper's
  on the message of exactly these values; nothing is written and nothing is sent. For a stored
  total at least zero the new total is that number.
\<close>

theorem receipt_attests_stored_total:
  assumes "quiet pg"
    and "sign_receipt p sdk r pg clock state req s = (Inr (Inr (Some rc)), t)"
    and "in_i64 (stored_total (sr_authority req) (db s))"
  shows "(\<exists>authority sig. sdk_pubkey_from_str sdk (sr_authority req) = Some authority
      \<and> sdk_bs58_decode sdk (sr_signature req) = Some sig \<and> length sig = 64
      \<and> sdk_verify sdk sig authority (text_bytes (points_receipt_message (sr_authority req)
          (sr_root req) (sr_points_claim req) (sr_timestamp req))))
    \<and> expired p (clock (world s)) (sr_timestamp req) (as_points_request_ttl_seconds state) = Some False
    \<and> rc_prev_total rc = sr_points_claim req \<and> rc_prev_total rc < rc_new_total rc
    \<and> rc_new_total rc = i64_as_u64 (stored_total (sr_authority req) (db s))
    \<and> (0 \<le> stored_total (sr_authority req) (db s) \<longrightarrow>
        int (unat (rc_new_total rc)) = stored_total (sr_authority req) (db s))
    \<and> rc_signature rc = sdk_bs58_encode sdk (sdk_sign sdk (as_keypair state) (text_bytes
        (receipt_message (sr_authority req) (rc_prev_total rc) (rc_new_total rc) (rc_nonce rc) (rc_expiry rc))))
    \<and> db t = db s \<and> sent t = sent s"
proof -
  let ?total = "stored_total (sr_authority req) (db s)"
  from assms(2) obtain authority sig where wallet: "sdk_pubkey_from_str sdk (sr_authority req) = Some authority"
      "sdk_bs58_decode sdk (sr_signature req) = Some sig" "length sig = 64"
      "sdk_verify sdk sig authority (text_bytes (points_receipt_message (sr_authority req)
          (sr_root req) (sr_points_claim req) (sr_timestamp req)))"
    and 1: "andThen (read_clock clock) (\<lambda>now.
      check_fresh p now (sr_timestamp req) (as_points_request_ttl_seconds state) (
      or_reject 500 ''Database error'' (get_user_total_points pg (sr_authority req)) (\<lambda>db_total.
      let latest = i64_as_u64 (case db_total of Some t \<Rightarrow> t | None \<Rightarrow> 0) in
      if latest = sr_points_claim req then ret (Inr None)
      else if latest < sr_points_claim req then reject 409 ''Stale DB: claimed points exceed current total''
      else andThen (or_panic ''attempt to add with overflow''
           (i64_result p (now + as_points_receipt_ttl_seconds state))) (\<lambda>expiry.
         let nonce = i64_as_u64 now;
           admin_sig = sdk_sign sdk (as_keypair state) (text_bytes
             (receipt_message (sr_authority req) (sr_points_claim req) latest nonce expiry)) in
         andThen (fetch_current_epoch sdk r (as_program_id state)) (\<lambda>epoch.
         ret (Inr (Some \<lparr>rc_prev_total = sr_points_claim req, rc_new_total = latest,
          rc_epoch = (case epoch of Some e \<Rightarrow> e | None \<Rightarrow> 0), rc_nonce = nonce, rc_expiry = expiry,
          rc_signature = sdk_bs58_encode sdk admin_sig\<rparr>))))))) s = (Inr (Inr (Some rc)), t)"
    unfolding sign_receipt_def by (rule verify_wallet_Inr)
  note 2 = check_fresh_Inr [OF 1 [unfolded read_clock_then]]
  from 2 [THEN conjunct2] obtain y u where y: "get_user_total_points pg (sr_authority req) s = (Inr y, u)"
    and 3: "(let latest = i64_as_u64 (case y of Some t \<Rightarrow> t | None \<Rightarrow> 0) in
      if latest = sr_points_claim req then ret (Inr None)
      else if latest < sr_points_claim req then reject 409 ''Stale DB: claimed points exceed current total''
      else andThen (or_panic ''attempt to add with overflow''
           (i64_result p (clock (world s) + as_points_receipt_ttl_seconds state))) (\<lambda>expiry.
         let nonce = i64_as_u64 (clock (world s));
           admin_sig = sdk_sign sdk (as_keypair state) (text_bytes
             (receipt_message (sr_authority req) (sr_points_claim req) latest nonce expiry)) in
         andThen (fetch_current_epoch sdk r (as_program_id state)) (\<lambda>epoch.
         ret (Inr (Some \<lparr>rc_prev_total = sr_points_claim req, rc_new_total = latest,
          rc_epoch = (case epoch of Some e \<Rightarrow> e | None \<Rightarrow> 0), rc_nonce = nonce, rc_expiry = expiry,
          rc_signature = sdk_bs58_encode sdk admin_sig\<rparr>))))) u = (Inr (Inr (Some rc)), t)"
    by (rule or_reject_Inr)
  from y have u: "u = s" and total: "(case y of Some t \<Rightarrow> t | None \<Rightarrow> 0) = ?total"
    by (auto simp: get_user_total_points_quiet [OF assms(1)] stored_total_def split: option.splits)
  from 3 have rest: "sr_points_claim req < i64_as_u64 ?total
      \<and> rc_prev_total rc = sr_points_claim req \<and> rc_new_total rc = i64_as_u64 ?total
      \<and> rc_signature rc = sdk_bs58_encode sdk (sdk_sign sdk (as_keypair state) (text_bytes
        (receipt_message (sr_authority req) (rc_prev_total rc) (rc_new_total rc) (rc_nonce rc) (rc_expiry rc))))
      \<and> (\<exists>x. fetch_current_epoch sdk r (as_program_id state) s = (Inr x, t))"
    unfolding total u
    by (auto simp: reject_def andThen_def ret_def Let_def or_panic_def panic_def
        split: if_splits option.splits prod.splits sum.splits)
  then have "db t = db s" "sent t = sent s"
    using db_fetch_epoch [of sdk r "as_program_id state" s] sent_fetch_epoch [of sdk r "as_program_id state" s]
    by (metis snd_conv)+
  moreover have "int (unat (i64_as_u64 ?total)) = ?total" if "0 \<le> ?total"
    using unat_i64_as_u64 [OF that assms(3)] that by simp
  ultimately show ?thesis using wallet 2 rest by auto
qed

subsection \<open>Bootstrap awards\<close>

interpretation user_index: unique_index same_user
  by unfold_locales (auto simp: same_user_def)

interpretation balance_index: unique_index same_balance
  by unfold_locales (auto simp: same_balance_def)

definition awarded :: "string \<Rightarrow> database \<Rightarrow> database" where
  "awarded wallet d =
     d\<lparr>users := users d @ [\<lparr>u_wallet_address = wallet, u_total_points = bootstrap_amount\<rparr>],
       user_balances := fst (insert_rows same_balance
         [\<lparr>ub_wallet_address = wallet, ub_total_earned = bootstrap_amount, ub_total_pending = 0,
           ub_total_spent = 0, ub_total_reserved = 0\<rparr>] (user_balances d))\<rparr>"

definition has_user :: "string \<Rightarrow> database \<Rightarrow> bool" where
  "has_user wallet d \<longleftrightarrow> (\<exists>u \<in> set (users d). u_wallet_address u = wallet)"

definition succeeded :: "fault + http_error + 'a \<Rightarrow> bool" where
  "succeeded res \<longleftrightarrow> (case res of Inr (Inr _) \<Rightarrow> True | _ \<Rightarrow> False)"

lemma insert_user_new:
  "\<not> has_user wallet d \<Longrightarrow> insert_user wallet now d =
     Inr (1, d\<lparr>users := users d @ [\<lparr>u_wallet_address = wallet, u_total_points = bootstrap_amount\<rparr>]\<rparr>)"
  by (auto simp: insert_user_def has_user_def same_user_def)

lemma insert_user_known: "has_user wallet d \<Longrightarrow> insert_user wallet now d = Inr (0, d)"
  by (auto simp: insert_user_def has_user_def same_user_def)

lemma world_round_trip_db [simp]: "db (snd (round_trip pg s)) = db s"
  by (simp add: round_trip_def split: prod.splits option.splits)

lemma award_points_outcome:
  assumes "award_points pg wallet s = (res, t)"
  shows "\<exists>d. (d = db s \<or> (\<exists>w. d = pg_others pg w (db s)))
    \<and> (if succeeded res then \<not> has_user wallet d \<and> db t = awarded wallet d else db t = d)"
proof -
  obtain b u where began: "begin_tx pg s = (b, u)" by (cases "begin_tx pg s")
  show ?thesis
  proof (cases b)
    case (Inl e)
    then have "db u = db s"
      using began by (auto simp: begin_tx_def round_trip_def see_others_def andThen_def
          split: prod.splits option.splits)
    moreover have "\<not> succeeded res \<and> t = u"
      using assms began Inl by (cases e) (auto simp: award_points_def or_reject_def andThen_def attempt_def
          reject_def ret_def succeeded_def)
    ultimately show ?thesis by auto
  next
    case (Inr nd)
    obtain now d where nd: "nd = (now, d)" by (cases nd)
    have d: "\<exists>w. d = pg_others pg w (db s)" and u: "db u = d"
      using began Inr nd by (auto simp: begin_tx_def round_trip_def see_others_def andThen_def
          split: prod.splits option.splits)
    let ?body = "or_reject 500 ''Database error'' (execute_in pg now (insert_user wallet)) (\<lambda>rows_affected.
       if rows_affected = 0 then
         andThen (attempt (round_trip pg)) (\<lambda>_.
         reject 409 ''User already exists (bootstrap already applied or has points)'')
       else
         or_reject 500 ''Database error'' (execute_in pg now (insert_balance wallet)) (\<lambda>_.
         or_reject 500 ''Database error'' (commit pg) (\<lambda>_.
         ret (Inr ''Awarded 100 bootstrap points''))))"
    have run: "award_or_rollback d ?body u = (res, t)"
      using assms began Inr nd
      by (simp add: award_points_def or_reject_def [of _ _ "begin_tx pg"] andThen_def [of "attempt (begin_tx pg)"]
          attempt_def [of "begin_tx pg"])
    show ?thesis
    proof (cases "succeeded res")
      case False
      with run have "db t = d"
        by (auto simp: award_or_rollback_def succeeded_def split: prod.splits sum.splits)
      with False d show ?thesis by auto
    next
      case True
      then obtain x where res: "res = Inr (Inr x)" by (auto simp: succeeded_def split: sum.splits)
      with run have body: "?body u = (Inr (Inr x), t)"
        by (auto simp: award_or_rollback_def split: prod.splits sum.splits)
      then obtain n v where ins: "execute_in pg now (insert_user wallet) u = (Inr n, v)"
        and 2: "(if n = 0 then
             andThen (attempt (round_trip pg)) (\<lambda>_.
             reject 409 ''User already exists (bootstrap already applied or has points)'')
           else
             or_reject 500 ''Database error'' (execute_in pg now (insert_balance wallet)) (\<lambda>_.
             or_reject 500 ''Database error'' (commit pg) (\<lambda>_.
             ret (Inr ''Awarded 100 bootstrap points'')))) v = (Inr (Inr x), t)"
        by (rule or_reject_Inr)
      have "n \<noteq> 0"
      proof
        assume "n = 0"
        with 2 show False by (auto simp: andThen_def reject_def ret_def split: prod.splits sum.splits)
      qed
      then have new: "\<not> has_user wallet d"
        and v: "db v = d\<lparr>users := users d @ [\<lparr>u_wallet_address = wallet, u_total_points = bootstrap_amount\<rparr>]\<rparr>"
        using ins u insert_user_known [of wallet d now] insert_user_new [of wallet d now]
        by (cases "has_user wallet d"; auto simp: execute_in_def round_trip_def run_statement_def andThen_def
            split: prod.splits option.splits)+
      from 2 \<open>n \<noteq> 0\<close> have "or_reject 500 ''Database error'' (execute_in pg now (insert_balance wallet)) (\<lambda>_.
             or_reject 500 ''Database error'' (commit pg) (\<lambda>_.
             ret (Inr ''Awarded 100 bootstrap points''))) v = (Inr (Inr x), t)" by simp
      then obtain m v' where bal: "execute_in pg now (insert_balance wallet) v = (Inr m, v')"
        and 3: "or_reject 500 ''Database error'' (commit pg) (\<lambda>_.
             ret (Inr ''Awarded 100 bootstrap points'')) v' = (Inr (Inr x), t)"
        by (rule or_reject_Inr)
      have "db t = db v'"
        using 3 by (auto simp: or_reject_def reject_def commit_def round_trip_def andThen_def attempt_def ret_def
            split: prod.splits option.splits sum.splits)
      moreover have "db v' = awarded wallet d"
        using bal v by (auto simp: execute_in_def round_trip_def run_statement_def andThen_def insert_balance_def
            awarded_def split_beta split: prod.splits option.splits)
      ultimately show ?thesis using True new d by auto
    qed
  qed
qed

lemma db_user_stake [simp]: "db (snd (user_stake_exists sdk r program_id authority s)) = db s"
  by (auto simp: user_stake_exists_def andThen_def attempt_def call_def ret_def
      split: prod.splits sum.splits fault.splits)

lemma bootstrap_award_outcome:
  assumes "bootstrap_award p sdk r pg clock state req s = (res, t)"
  shows "\<exists>d. (d = db s \<or> (\<exists>w. d = pg_others pg w (db s)))
    \<and> (if succeeded res then \<not> has_user (br_authority req) d \<and> db t = awarded (br_authority req) d
        else db t = d)"
proof (cases "\<exists>u. award_points pg (br_authority req) u = (res, t) \<and> db u = db s")
  case True
  then show ?thesis using award_points_outcome by metis
next
  case False
  have "\<not> succeeded res \<and> db t = db s"
  proof -
    let ?now = "clock (world s)"
    define e where "e k = fst (user_stake_exists sdk r (as_program_id state) k s)" for k
    define u where "u k = snd (user_stake_exists sdk r (as_program_id state) k s)" for k
    have stake: "user_stake_exists sdk r (as_program_id state) k s = (e k, u k)" for k
      by (simp add: e_def u_def)
    have "db (u k) = db s" for k
      using stake [of k] db_user_stake [of sdk r "as_program_id state" k s] by (metis snd_conv)
    with assms False show ?thesis
      by (auto simp: bootstrap_award_def verify_wallet_def require_def reject_def check_fresh_def
          read_clock_then andThen_def [of "or_panic m x" for m x] andThen_def [of "user_stake_exists sdk r q k" for q k]
          or_panic_def panic_def ret_def succeeded_def stake
          split: option.splits if_splits sum.splits)
  qed
  then show ?thesis by auto
qed

text \<open>
  A bootstrap award is all or nothing, at whatever round trip it fails. Either the handler
  succeeds and the wallet, absent before, has its row of 100 points and a balance row, or it
  does not and the tables are those it found.
\<close>

theorem bootstrap_award_all_or_nothing:
  "\<exists>d. (d = db s \<or> (\<exists>w. d = pg_others pg w (db s)))
    \<and> (if succeeded (fst (bootstrap_award p sdk r pg clock state req s))
       then \<not> has_user (br_authority req) d
         \<and> db (snd (bootstrap_award p sdk r pg clock state req s)) = awarded (br_authority req) d
       else db (snd (bootstrap_award p sdk r pg clock state req s)) = d)"
  using bootstrap_award_outcome [of p sdk r pg clock state req s] by (metis prod.collapse)

fun run_awards ::
    "profile \<Rightarrow> sdk \<Rightarrow> 'w rpc \<Rightarrow> 'w pg \<Rightarrow> ('w \<Rightarrow> int) \<Rightarrow> app_state \<Rightarrow> bootstrap_award_request list
       \<Rightarrow> 'w app \<Rightarrow> string list \<times> 'w app" where
  \<comment> \<open>requests one after the other; the wallets of those that succeeded\<close>
  "run_awards p sdk r pg clock state [] s = ([], s)"
| "run_awards p sdk r pg clock state (req # reqs) s =
     (let (res, t) = bootstrap_award p sdk r pg clock state req s;
          (wallets, u) = run_awards p sdk r pg clock state reqs t in
      (if succeeded res then br_authority req # wallets else wallets, u))"

lemma has_user_awarded: "has_user w (awarded wallet d) \<longleftrightarrow> w = wallet \<or> has_user w d"
  by (auto simp: has_user_def awarded_def)

lemma run_awards_once:
  assumes "\<And>w d. pg_others pg w d = d" and "run_awards p sdk r pg clock state reqs s = (wallets, t)"
  shows "distinct wallets \<and> (\<forall>w \<in> set wallets. \<not> has_user w (db s)) \<and> set (users (db s)) \<subseteq> set (users (db t))
    \<and> (free_of_conflicts same_user (users (db s)) \<longrightarrow> free_of_conflicts same_user (users (db t)))"
  using assms(2)
proof (induction reqs arbitrary: s wallets)
  case Nil
  then show ?case by simp
next
  case (Cons req reqs)
  obtain res u where step: "bootstrap_award p sdk r pg clock state req s = (res, u)"
    by (cases "bootstrap_award p sdk r pg clock state req s")
  obtain ws where rest: "run_awards p sdk r pg clock state reqs u = (ws, t)"
    and wallets: "wallets = (if succeeded res then br_authority req # ws else ws)"
    using Cons.prems step by (auto split: prod.splits)
  have out: "if succeeded res then \<not> has_user (br_authority req) (db s) \<and> db u = awarded (br_authority req) (db s)
      else db u = db s"
    using bootstrap_award_outcome [OF step] assms(1) by auto
  note ih = Cons.IH [OF rest]
  show ?case
  proof (cases "succeeded res")
    case True
    with out have new: "\<not> has_user (br_authority req) (db s)" and u: "db u = awarded (br_authority req) (db s)" by auto
    then have "free_of_conflicts same_user (users (db s)) \<longrightarrow> free_of_conflicts same_user (users (db u))"
      by (auto simp: awarded_def has_user_def same_user_def)
    with ih new u True wallets show ?thesis
      by (auto simp: has_user_awarded) (auto simp: awarded_def)
  next
    case False
    with out ih wallets show ?thesis by simp
  qed
qed

text \<open>
  C21: one award a wallet. Over any sequence of requests, repeated ones included and with any
  failures, with no other writer, no wallet is awarded twice and no wallet that already had a
  row is awarded at all; a table of one row a wallet stays one, and the rows before stay.
\<close>

theorem bootstrap_award_at_most_once:
  assumes "\<And>w d. pg_others pg w d = d" and "free_of_conflicts same_user (users (db s))"
    and "run_awards p sdk r pg clock state reqs s = (wallets, t)"
  shows "distinct wallets \<and> (\<forall>w \<in> set wallets. \<not> has_user w (db s))
    \<and> set (users (db s)) \<subseteq> set (users (db t))
    \<and> (\<forall>w. length (filter (\<lambda>u. u_wallet_address u = w) (users (db t))) \<le> 1)"
proof -
  note once = run_awards_once [OF assms(1,3)]
  have "length (filter (\<lambda>u. u_wallet_address u = w) (users (db t))) \<le> 1" for w
    using user_index.at_most_one [of "users (db t)" "\<lparr>u_wallet_address = w, u_total_points = 0\<rparr>"] once assms(2)
    by (simp add: same_user_def [abs_def] eq_commute)
  with once show ?thesis by blast
qed

subsection \<open>Proofs served\<close>

lemma db_read_onchain [simp]: "db (snd (read_onchain_rewardz_root sdk api r program_id s)) = db s"
  by (auto simp: read_onchain_rewardz_root_def andThen_def call_def ret_def
      split: prod.splits sum.splits option.splits)

lemma world_db_eq: "quiet pg \<Longrightarrow> get_rewardz_earnings_grouped pg u =
    (case select_rewardz_earnings pg (db u) of Inl e \<Rightarrow> (Inl (Fault e), u) | Inr rows \<Rightarrow> (Inr rows, u))"
  by (simp add: get_rewardz_earnings_grouped_def quiet_execute run_statement_def split: sum.splits)

lemma rewardz_entries_key:
  assumes "canonical_keys sdk" "select_rewardz_earnings pg d = Inr rows"
    and "sdk_pubkey_from_str sdk a = Some pk" "(pk, n) \<in> set (rewardz_entries sdk rows)"
  shows "claimable sdk d a pk \<and> n = i64_as_u64 (authority_total a (rewardz_earnings d))"
proof -
  from assms(4) obtain row where row: "row \<in> set rows"
    "sdk_pubkey_from_str sdk (er_protocol_authority row) = Some pk" "0 < er_cumulative_amount row"
    "n = i64_as_u64 (er_cumulative_amount row)"
    by (auto simp: rewardz_entries_def set_filter_map rewardz_entry_def bind_eq_Some_conv split: if_splits)
  have "er_protocol_authority row = a"
    using row(2) assms(3) canonical_keysD [OF assms(1)] by metis
  with row select_rewardz_rows(2) [OF assms(2) row(1)] show ?thesis by (simp add: claimable_def)
qed

lemma get_rewardz_proof_quiet:
  assumes "quiet pg" "sdk_pubkey_from_str sdk a = Some target"
    and "read_onchain_rewardz_root sdk api r (as_program_id state) s = (Inr (Some (rt, epoch)), u)"
    and "select_rewardz_earnings pg (db s) = Inr rows"
    and "build_rewardz_tree p (sdk_keccak sdk) (rewardz_entries sdk rows) = Inr (Some tree)"
  shows "get_rewardz_proof p sdk api r pg clock state a s =
    (if rt_root tree \<noteq> rt then (Inr (Inl (503, ''Keeper has unpublished earnings'')), u)
     else (case (map_of (rev (rewardz_entries sdk rows)) target, rt_proofs tree target) of
         (Some n, Some pf) \<Rightarrow> (Inr (Inr \<lparr>rp_cumulative_amount = n, rp_onchain_epoch = epoch,
             rp_proof = map hex_0x pf, rp_root_hex = hex_0x rt,
             rp_valid_until = clock (world u) + as_rewardz_publish_interval_secs state\<rparr>), u)
       | _ \<Rightarrow> (Inr (Inl (404, ''No rewardz earnings for authority'')), u)))"
proof -
  have "db u = db s" using assms(3) db_read_onchain [of sdk api r "as_program_id state" s] by simp
  then show ?thesis
    using assms
    by (auto simp: get_rewardz_proof_def proof_for_target_def require_def or_reject_def andThen_def attempt_def ret_def reject_def
        world_db_eq or_fault_def rewardz_entries_def Let_def read_clock_def split: option.splits)
qed

text \<open>
  The proof endpoint is right and complete. While the chain holds the root of the tree over
  the present earnings, every authority with a valid key and earnings above zero is answered
  with exactly its cumulative amount, the root and epoch on chain, and a proof that
  \<open>verify_rewardz_proof\<close> accepts against that root; once the root differs, because earnings
  have been added since, the answer is 503 for every authority.
\<close>

theorem rewardz_proof_endpoint:
  assumes "quiet pg" and "canonical_keys sdk" and "claimable sdk (db s) a target"
    and "read_onchain_rewardz_root sdk api r (as_program_id state) s = (Inr (Some (rt, epoch)), u)"
    and "select_rewardz_earnings pg (db s) = Inr rows"
    and "build_rewardz_tree p (sdk_keccak sdk) (rewardz_entries sdk rows) = Inr (Some tree)"
  shows "if rt_root tree = rt
    then \<exists>pf resp. get_rewardz_proof p sdk api r pg clock state a s = (Inr (Inr resp), u)
      \<and> rp_cumulative_amount resp = i64_as_u64 (authority_total a (rewardz_earnings (db s)))
      \<and> rp_onchain_epoch resp = epoch \<and> rp_root_hex resp = hex_0x rt \<and> rp_proof resp = map hex_0x pf
      \<and> verify_rewardz_proof (sdk_keccak sdk)
          (hash_rewardz_leaf (sdk_keccak sdk) target (rp_cumulative_amount resp)) pf rt
    else \<exists>msg. get_rewardz_proof p sdk api r pg clock state a s = (Inr (Inl (503, msg)), u)"
proof -
  have key: "sdk_pubkey_from_str sdk a = Some target" using assms(3) by (simp add: claimable_def)
  note run = get_rewardz_proof_quiet [OF assms(1) key assms(4,5,6)]
  let ?n = "i64_as_u64 (authority_total a (rewardz_earnings (db s)))"
  note entry = rewardz_entries_member [OF assms(5,3)]
  have distinct: "distinct (map fst (rewardz_entries sdk rows))"
    by (rule rewardz_entries_distinct [OF assms(2) distinct_rewardz_rows [OF assms(5)]])
  then have amount: "map_of (rev (rewardz_entries sdk rows)) target = Some ?n"
    using entry by (intro map_of_is_SomeI) (simp_all add: rev_map [symmetric])
  from assms(6) obtain t' where t': "build_merkle_tree (sdk_keccak sdk) (rewardz_entries sdk rows) = Some t'"
    "rt_root tree = mt_root t'" "rt_proofs tree = mt_proofs t'" by (auto elim: build_rewardz_tree_Some)
  from entry_proof_verifies [OF distinct entry t'(1)] obtain pf where
    "rt_proofs tree target = Some pf"
    "verify_proof (sdk_keccak sdk) (hash_leaf (sdk_keccak sdk) target ?n) pf (rt_root tree)"
    using t' by metis
  then show ?thesis by (auto simp: run amount verify_rewardz_proof_def)
qed

lemma read_onchain_sample:
  "read_onchain_rewardz_root key_sdk sample_api (open_rpc [rewardz_root_pda key_sdk sample_api [] \<mapsto> data]) [] s =
    (if length data < api_rroot_len sample_api then (Inr None, s)
     else (Inr (Some (api_rroot_read_root sample_api data,
       api_rroot_read_u64 sample_api data (api_rroot_off_epoch sample_api))), s))"
  by (cases s) (simp add: read_onchain_rewardz_root_def open_rpc_def call_def andThen_def ret_def)

definition sample_state :: app_state where
  "sample_state =
     \<lparr>as_keypair = replicate 32 8, as_program_id = [], as_points_request_ttl_seconds = 300,
      as_points_receipt_ttl_seconds = 600, as_rewardz_publish_interval_secs = 3600\<rparr>"

definition rroot_with :: "bytes \<Rightarrow> bytes" where
  "rroot_with rt = [9, 1] @ rt @ u64_le 5 @ replicate 75 0"

theorem rewardz_proof_endpoint_witness:
  "\<exists>rt resp. get_rewardz_proof Release key_sdk sample_api
      (open_rpc [rewardz_root_pda key_sdk sample_api [] \<mapsto> rroot_with rt]) quiet_pg (\<lambda>_. 100) sample_state
      (replicate 32 CHR ''B'') (app_of () (two_earners 12)) = (Inr (Inr resp), app_of () (two_earners 12))
    \<and> rp_cumulative_amount resp = 12"
proof -
  let ?s = "app_of () (two_earners 12)" and ?a = "replicate 32 CHR ''B''"
  obtain tree where tree: "build_merkle_tree (sdk_keccak key_sdk) (rewardz_entries key_sdk (two_rows 12)) = Some tree"
    by (cases "build_merkle_tree (sdk_keccak key_sdk) (rewardz_entries key_sdk (two_rows 12))")
      (auto simp: rewardz_entries_def rewardz_entry_def two_rows_def key_sdk_def text_key_def)
  then have rel: "build_rewardz_tree Release (sdk_keccak key_sdk) (rewardz_entries key_sdk (two_rows 12)) =
      Inr (Some (rewardz_tree_of tree))"
    using build_rewardz_tree_eq [of Release] by simp
  let ?rt = "mt_root tree"
  let ?r = "open_rpc [rewardz_root_pda key_sdk sample_api [] \<mapsto> rroot_with ?rt] :: unit rpc"
  have len: "length ?rt = 32" by (rule length_tree_root [OF length_keccak_key_sdk tree])
  have read: "read_onchain_rewardz_root key_sdk sample_api ?r (as_program_id sample_state) ?s =
      (Inr (Some (?rt, api_rroot_read_u64 sample_api (rroot_with ?rt) 34)), ?s)"
    using len by (simp add: read_onchain_sample sample_state_def) (simp add: rroot_with_def sample_api_def)
  have claim: "claimable key_sdk (db ?s) ?a (replicate 32 66)"
    "authority_total ?a (rewardz_earnings (db ?s)) = 12" by code_simp+
  have rows: "select_rewardz_earnings quiet_pg (db ?s) = Inr (two_rows 12)" by (simp add: two_earners_rows)
  from rewardz_proof_endpoint [OF quiet_pg canonical_key_sdk claim(1) read rows rel, of "\<lambda>_. 100"] claim(2)
  show ?thesis by (auto simp: rewardz_tree_of_def i64_as_u64_def)
qed

subsection \<open>Concrete requests\<close>

definition ann :: string where
  "ann = replicate 32 CHR ''A''"

definition ann_key :: pubkey where
  "ann_key = replicate 32 65"

definition verify_all_sdk :: sdk where
  \<comment> \<open>signatures of 64 bytes are taken as they come\<close>
  "verify_all_sdk = key_sdk\<lparr>sdk_verify := (\<lambda>sig k m. length sig = 64)\<rparr>"

definition receipt_request :: sign_receipt_request where
  "receipt_request =
     \<lparr>sr_authority = ann, sr_points_claim = 2, sr_proof = [], sr_root = ''ab'', sr_timestamp = 900,
      sr_signature = replicate 64 CHR ''s''\<rparr>"

definition award_request :: bootstrap_award_request where
  "award_request = \<lparr>br_authority = ann, br_timestamp = 900, br_signature = replicate 64 CHR ''s''\<rparr>"

lemma sample_wallet: "verify_wallet verify_all_sdk ann msg (replicate 64 CHR ''s'') k = k ann_key"
proof -
  have "sdk_pubkey_from_str verify_all_sdk ann = Some ann_key" by code_simp
  moreover have "sdk_bs58_decode verify_all_sdk (replicate 64 CHR ''s'') = Some (text_bytes (replicate 64 CHR ''s''))"
    by (simp add: verify_all_sdk_def key_sdk_def)
  moreover have "length (text_bytes (replicate 64 CHR ''s'')) = 64" by (simp add: text_bytes_def)
  ultimately show ?thesis by (simp add: verify_wallet_def require_def) (simp add: verify_all_sdk_def)
qed

lemma sample_fresh: "check_fresh p 1000 900 300 k = k"
  by (simp add: check_fresh_def expired_def i64_result_def abs_i64_def in_i64_def or_panic_def)

lemma sample_receipt:
  "\<exists>rc t. sign_receipt Debug verify_all_sdk (open_rpc Map.empty) quiet_pg (\<lambda>_. 1000) sample_state receipt_request
     (app_of () two_users) = (Inr (Inr (Some rc)), t)"
proof -
  have find: "find (\<lambda>u. u_wallet_address u = ann) (users two_users) =
    Some \<lparr>u_wallet_address = ann, u_total_points = 5\<rparr>" by code_simp
  have five: "i64_as_u64 5 = 5" by (simp add: i64_as_u64_def)
  show ?thesis
    by (simp add: sign_receipt_def receipt_request_def sample_wallet read_clock_then andThen_def [of "read_clock c" for c]
        read_clock_def sample_fresh or_reject_def get_user_total_points_quiet find five sample_state_def
        fetch_current_epoch_def open_rpc_def call_def prog_simps i64_result_def in_i64_def Let_def)
qed

theorem receipt_attests_stored_total_witness:
  "\<exists>rc t. sign_receipt Debug verify_all_sdk (open_rpc Map.empty) quiet_pg (\<lambda>_. 1000) sample_state receipt_request
     (app_of () two_users) = (Inr (Inr (Some rc)), t) \<and> rc_prev_total rc = 2 \<and> rc_new_total rc = 5 \<and> db t = two_users"
proof -
  obtain rc t where run: "sign_receipt Debug verify_all_sdk (open_rpc Map.empty) quiet_pg (\<lambda>_. 1000) sample_state
     receipt_request (app_of () two_users) = (Inr (Inr (Some rc)), t)" using sample_receipt by blast
  have total: "stored_total ann two_users = 5" by code_simp
  have "in_i64 (stored_total (sr_authority receipt_request) (db (app_of () two_users)))"
    by (simp add: total in_i64_def receipt_request_def)
  from receipt_attests_stored_total [OF quiet_pg run this] run show ?thesis
    by (intro exI [of _ rc] exI [of _ t]) (simp add: total i64_as_u64_def receipt_request_def)
qed

theorem bootstrap_award_at_most_once_witness:
  "\<exists>wallets t. run_awards Debug verify_all_sdk (open_rpc Map.empty) flaky_pg (\<lambda>_. 1000) sample_state
      [award_request, award_request, award_request] (app_of 0 empty_db) = (wallets, t)
    \<and> distinct wallets \<and> length (filter (\<lambda>u. u_wallet_address u = ann) (users (db t))) \<le> 1"
proof -
  obtain wallets t where run: "run_awards Debug verify_all_sdk (open_rpc Map.empty) flaky_pg (\<lambda>_. 1000) sample_state
      [award_request, award_request, award_request] (app_of 0 empty_db) = (wallets, t)" by (rule prod.exhaust)
  have "pg_others flaky_pg w d = d" for w d by (simp add: flaky_pg_def)
  from bootstrap_award_at_most_once [OF this _ run] run show ?thesis by (simp add: empty_db_def)
qed

end
