(* ===== verification/Router.thy ===== *)
theory Router
  imports Api
begin

section \<open>api.rs: the router\<close>

text \<open>
  \<^verbatim>\<open>src/src/api.rs\<close>: the routes of \<open>create_router\<close>, the answer of \<open>healthz\<close>, and the origins that the
  CORS layer allows, read from the variable \<open>POINTS_CORS_ORIGINS\<close>. The parser of header values and
  the constructor \<^verbatim>\<open>AllowOrigin::list\<close> are parameters; matching a request against the routes is the
  business of axum.
\<close>

datatype http_method = Get | Post

datatype endpoint = SignReceipt | BootstrapAward | RewardzProof | Healthz

datatype allow_origin = AnyOrigin | OriginList "string list"

record router =
  router_routes :: "(string \<times> http_method \<times> endpoint) list"
  router_origins :: allow_origin
  router_state :: app_state

record http_crates =
  header_value :: "string \<Rightarrow> string option"
    \<comment> \<open>\<^verbatim>\<open>HeaderValue::from_str\<close>\<close>
  origin_list :: "string list \<Rightarrow> fault + allow_origin"
    \<comment> \<open>\<^verbatim>\<open>AllowOrigin::list\<close>\<close>

record health_response =
  hr_status :: string
  hr_timestamp :: string

definition configured_origins :: "http_crates \<Rightarrow> string \<Rightarrow> string list" where
  \<comment> \<open>a piece that is no header value is left out\<close>
  "configured_origins hc cors_origins =
     filter_map (\<lambda>s. header_value hc (trim s)) (split_on CHR '','' cors_origins)"

definition create_router :: "http_crates \<Rightarrow> app_state \<Rightarrow> string \<Rightarrow> fault + router" where
  "create_router hc state cors_origins =
     (case (if cors_origins = ''*'' then Inr AnyOrigin else origin_list hc (configured_origins hc cors_origins)) of
        Inl e \<Rightarrow> Inl e
      | Inr origins \<Rightarrow> Inr
          \<lparr>router_routes =
             [(''/sign-receipt'', Post, SignReceipt),
              (''/bootstrap-award'', Post, BootstrapAward),
              (''/rewardz/proof/:authority'', Get, RewardzProof),
              (''/healthz'', Get, Healthz)],
           router_origins = origins,
           router_state = state\<rparr>)"

definition healthz :: "(int \<Rightarrow> string) \<Rightarrow> int \<Rightarrow> health_response" where
  \<comment> \<open>from the text of a moment under RFC 3339 and the clock\<close>
  "healthz to_rfc3339 now = \<lparr>hr_status = ''ok'', hr_timestamp = to_rfc3339 now\<rparr>"

subsection \<open>The origins of a configuration\<close>

definition documented_crates :: "http_crates \<Rightarrow> bool" where
  \<comment> \<open>visible characters make a header value, and a list of origins may not hold the wildcard\<close>
  "documented_crates hc \<longleftrightarrow>
     (\<forall>s. list_all (\<lambda>c. 32 \<le> (of_char c :: nat) \<and> (of_char c :: nat) < 127) s \<longrightarrow> header_value hc s = Some s)
     \<and> (\<forall>os. origin_list hc os = (if ''*'' \<in> set os then Inl (Panic ''Wildcard origin'') else Inr (OriginList os)))"

definition plain_origin :: "string \<Rightarrow> bool" where
  \<comment> \<open>printable, without spaces and commas\<close>
  "plain_origin s \<longleftrightarrow> list_all (\<lambda>c. 32 < (of_char c :: nat) \<and> (of_char c :: nat) < 127 \<and> c \<noteq> CHR '','') s"

fun listed :: "string \<Rightarrow> string list \<Rightarrow> string" where
  \<comment> \<open>origins one after the other, with a comma and some space between two\<close>
  "listed sp [] = []"
| "listed sp [x] = x"
| "listed sp (x # y # zs) = x @ CHR '','' # sp @ listed sp (y # zs)"

lemma plain_originD:
  assumes "plain_origin s"
  shows "CHR '','' \<notin> set s" and "documented_crates hc \<Longrightarrow> header_value hc s = Some s"
    and "c \<in> set s \<Longrightarrow> \<not> ascii_whitespace c"
proof -
  have chars: "32 < (of_char c :: nat) \<and> (of_char c :: nat) < 127 \<and> c \<noteq> CHR '',''" if "c \<in> set s" for c
    using assms that unfolding plain_origin_def list_all_iff by blast
  show "CHR '','' \<notin> set s" using chars by blast
  have "list_all (\<lambda>c. 32 \<le> (of_char c :: nat) \<and> (of_char c :: nat) < 127) s"
    using chars unfolding list_all_iff by (meson less_imp_le)
  then show "documented_crates hc \<Longrightarrow> header_value hc s = Some s" unfolding documented_crates_def by blast
  show "c \<in> set s \<Longrightarrow> \<not> ascii_whitespace c" using chars [of c] unfolding ascii_whitespace_def by linarith
qed

lemma whitespace_no_comma: "list_all ascii_whitespace pad \<Longrightarrow> CHR '','' \<notin> set pad"
  by (auto simp only: list_all_iff) (auto simp: ascii_whitespace_def)

lemma trim_padded:
  assumes "list_all ascii_whitespace pad" "plain_origin s"
  shows "trim (pad @ s) = s"
proof -
  note plain = plain_originD(3) [OF assms(2)]
  have "dropWhile ascii_whitespace (pad @ s) = dropWhile ascii_whitespace s"
    using assms(1) by (simp add: dropWhile_append2 list_all_iff)
  also have "\<dots> = s" using plain by (rule dropWhile_none)
  finally have front: "dropWhile ascii_whitespace (pad @ s) = s" .
  have "dropWhile ascii_whitespace (rev s) = rev s" by (rule dropWhile_none) (simp add: plain)
  with front show ?thesis by (simp add: trim_def)
qed

lemma configured_origins_listed:
  assumes "documented_crates hc" "list_all ascii_whitespace sp"
  shows "list_all plain_origin os \<Longrightarrow> os \<noteq> [] \<Longrightarrow> configured_origins hc (listed sp os) = os"
proof -
  have "configured_origins hc (pad @ listed sp os) = os"
    if "list_all ascii_whitespace pad" "list_all plain_origin os" "os \<noteq> []" for pad
    using that
  proof (induction os arbitrary: pad)
    case (Cons x os)
    have x: "CHR '','' \<notin> set (pad @ x)" using whitespace_no_comma [OF Cons.prems(1)] plain_originD(1) [of x] Cons.prems(2) by simp
    have parsed: "header_value hc (trim (pad @ x)) = Some x"
      using Cons.prems plain_originD(2) [OF _ assms(1)] by (simp add: trim_padded)
    show ?case
    proof (cases os)
      case Nil
      with split_on_plain [OF x] parsed show ?thesis by (simp add: configured_origins_def)
    next
      case (Cons y ys)
      from Cons.IH [OF assms(2)] Cons.prems(2) Cons
      have "configured_origins hc (sp @ listed sp os) = os" by simp
      with Cons split_on_append [OF x, of "sp @ listed sp os"] parsed show ?thesis
        by (simp add: configured_origins_def)
    qed
  qed simp
  from this [of "[]"] show "list_all plain_origin os \<Longrightarrow> os \<noteq> [] \<Longrightarrow> configured_origins hc (listed sp os) = os" by simp
qed

text \<open>
  The configured origins are the allowed ones. The value \<open>*\<close> allows every origin. A list of
  origins, separated by commas with or without space after them, allows exactly those origins,
  in their order, and serves the four routes over the given state. A list that holds \<open>*\<close> beside
  other origins is not read as the wildcard: building the router panics.
\<close>

theorem cors_origins_as_configured:
  assumes "documented_crates hc" and "list_all ascii_whitespace sp" and "list_all plain_origin os" and "os \<noteq> []"
  shows "map_sum id router_origins (create_router hc state (listed sp os)) =
     (if listed sp os = ''*'' then Inr AnyOrigin
      else if ''*'' \<in> set os then Inl (Panic ''Wildcard origin'')
      else Inr (OriginList os))
   \<and> (\<forall>r. create_router hc state (listed sp os) = Inr r \<longrightarrow>
        router_state r = state \<and> map (\<lambda>(path, method, e). e) (router_routes r) = [SignReceipt, BootstrapAward, RewardzProof, Healthz])"
  using assms(1) configured_origins_listed [OF assms]
  by (auto simp: create_router_def documented_crates_def split: sum.splits if_splits)

definition sample_http_crates :: http_crates where
  "sample_http_crates =
     \<lparr>header_value = (\<lambda>s. if list_all (\<lambda>c. 32 \<le> (of_char c :: nat) \<and> (of_char c :: nat) < 127) s then Some s else None),
      origin_list = (\<lambda>os. if ''*'' \<in> set os then Inl (Panic ''Wildcard origin'') else Inr (OriginList os))\<rparr>"

theorem cors_origins_as_configured_witness:
  "map_sum id router_origins (create_router sample_http_crates sample_state ''https://a.example, https://b.example'') =
     Inr (OriginList [''https://a.example'', ''https://b.example''])
   \<and> map_sum id router_origins (create_router sample_http_crates sample_state ''https://a.example,*'') =
     Inl (Panic ''Wildcard origin'')"
proof -
  have "documented_crates sample_http_crates" by (simp add: documented_crates_def sample_http_crates_def)
  from cors_origins_as_configured [OF this, of "'' ''" "[''https://a.example'', ''https://b.example'']" sample_state]
    cors_origins_as_configured [OF this, of "''''" "[''https://a.example'', ''*'']" sample_state]
  show ?thesis by (simp add: ascii_whitespace_def plain_origin_def)
qed

end
