(* ===== verification/Settlement.thy ===== *)
theory Settlement
  imports Api
begin

section \<open>Settlement: from a publish to a proof\<close>

text \<open>
  The two ends of the settlement rail together: the cron of \<^verbatim>\<open>rewardz_publisher.rs\<close> sends a root
  and stamps the earnings it includes, and the handler of \<^verbatim>\<open>api.rs\<close> builds the tree again
  from the stamped earnings and compares its root with the one on chain.
\<close>

lemma select_rewardz_cong:
  assumes "map re_protocol_authority (rewardz_earnings d) = map re_protocol_authority (rewardz_earnings e)"
    and "\<And>a. authority_total a (rewardz_earnings d) = authority_total a (rewardz_earnings e)"
  shows "select_rewardz_earnings pg d = select_rewardz_earnings pg e"
  unfolding select_rewardz_earnings_def Let_def assms ..

lemma backfill_keeps_rows:
  assumes "rewardz_earnings e = map (\<lambda>r. if backfilled authorities cutoff r
      then r\<lparr>re_included_in_root_epoch := Some k\<rparr> else r) (rewardz_earnings d)"
  shows "select_rewardz_earnings pg e = select_rewardz_earnings pg d"
    and "authority_total a (rewardz_earnings e) = authority_total a (rewardz_earnings d)"
    and "claimable sdk e a pk \<longleftrightarrow> claimable sdk d a pk"
proof -
  let ?f = "\<lambda>r. if backfilled authorities cutoff r then r\<lparr>re_included_in_root_epoch := Some k\<rparr> else r"
  have total: "authority_total a (map ?f es) = authority_total a es" for a es
    by (induction es) (auto simp: authority_total_def)
  then show "select_rewardz_earnings pg e = select_rewardz_earnings pg d"
    unfolding assms by (intro select_rewardz_cong) (auto simp: assms)
  show "authority_total a (rewardz_earnings e) = authority_total a (rewardz_earnings d)" by (simp add: assms total)
  show "claimable sdk e a pk \<longleftrightarrow> claimable sdk d a pk" by (simp add: claimable_def assms total)
qed

text \<open>
  C2: what is published can be claimed. After a publish of the Rewardz root that sent something,
  the stamps it leaves do not disturb the tree: as long as the earnings stay as the publish left
  them, an authority with earnings above zero that asks for its proof is answered, when the chain
  holds the root of that very instruction, with its exact cumulative amount and a proof that
  verifies against that root; when the chain holds another root the answer is 503.
\<close>

theorem published_root_is_served:
  assumes "quiet pg" and "canonical_keys sdk" and "\<And>x. length (sdk_keccak sdk x) = 32"
    and "load_league_config env = Inr cfg"
    and deny: "\<And>deny. fst (read_on_chain_deny_list api r (rewardz_root_pda sdk api program_id) s) = Inr deny \<Longrightarrow>
      length deny < 256 \<and> (\<forall>b \<in> set deny. length b = 32)"
    and "publish_rewardz_root p env sdk api r pg signer program_id epoch s = (Inr (), t)" and "sent t \<noteq> sent s"
    and "rewardz_earnings (db u) = rewardz_earnings (db t)" and "claimable sdk (db u) a target"
    and "read_onchain_rewardz_root sdk api r' (as_program_id state) u = (Inr (Some (rt, onchain_epoch)), v)"
  shows "\<exists>sent_root issued deny.
      decode_rewardz_ix api (ix_data (hd (tx_instructions (last (sent t))))) = Some (sent_root, epoch, issued, deny)
    \<and> (if rt = sent_root
       then \<exists>pf resp. get_rewardz_proof p sdk api r' pg clock state a u = (Inr (Inr resp), v)
         \<and> rp_cumulative_amount resp = i64_as_u64 (authority_total a (rewardz_earnings (db s)))
         \<and> rp_onchain_epoch resp = onchain_epoch \<and> rp_root_hex resp = hex_0x sent_root \<and> rp_proof resp = map hex_0x pf
         \<and> verify_rewardz_proof (sdk_keccak sdk)
             (hash_rewardz_leaf (sdk_keccak sdk) target (rp_cumulative_amount resp)) pf sent_root
       else \<exists>msg. get_rewardz_proof p sdk api r' pg clock state a u = (Inr (Inl (503, msg)), v))"
proof -
  from publish_rewardz_sent [OF assms(1,4,6,7)] obtain rows tree where
    rows: "select_rewardz_earnings pg (db s) = Inr rows"
    and tree: "build_rewardz_tree p (sdk_keccak sdk) (rewardz_entries sdk rows) = Inr tree"
    and run: "submit_and_record sdk api r pg signer program_id epoch (pg_now pg (world s))
       (rewardz_entries sdk rows) (case tree of Some t \<Rightarrow> rt_root t | None \<Rightarrow> replicate 32 0) s = (Inr (), t)"
    by blast
  let ?rt = "case tree of Some t \<Rightarrow> rt_root t | None \<Rightarrow> replicate 32 (0 :: u8)"
  from submit_and_record_sent [OF assms(1) run] obtain deny tx where
    read: "fst (read_on_chain_deny_list api r (rewardz_root_pda sdk api program_id) s) = Inr deny"
    and tx: "sent t = sent s @ [tx]" "tx_instructions tx = [rewardz_root_ix sdk api signer program_id
       (rewardz_root_ix_data api ?rt epoch (sum_u128 (rewardz_entries sdk rows)) deny)]"
    and stamps: "rewardz_earnings (db t) = map (\<lambda>r. if backfilled (map (\<lambda>(pk, _). sdk_pubkey_to_string sdk pk)
         (rewardz_entries sdk rows)) (pg_now pg (world s)) r
       then r\<lparr>re_included_in_root_epoch := Some (u64_as_i64 epoch)\<rparr> else r) (rewardz_earnings (db s))"
    by blast
  have decoded: "decode_rewardz_ix api (ix_data (hd (tx_instructions (last (sent t))))) =
      Some (?rt, epoch, sum_u128 (rewardz_entries sdk rows), deny)"
    using assms(5) [OF read] length_rewardz_root [OF assms(3) tree]
    by (simp add: tx rewardz_root_ix_def) (intro decode_rewardz_root_ix_data; simp)
  note kept = backfill_keeps_rows [OF stamps [folded assms(8)]]
  have rows_u: "select_rewardz_earnings pg (db u) = Inr rows" by (simp add: kept(1) rows)
  have claim: "claimable sdk (db s) a target" using assms(9) kept(3) by blast
  have "rewardz_entries sdk rows \<noteq> []" using rewardz_entries_member [OF rows claim] by auto
  with tree build_rewardz_tree_None [of p "sdk_keccak sdk" "rewardz_entries sdk rows"] obtain tr where tr: "tree = Some tr"
    by (cases tree) auto
  from rewardz_proof_endpoint [OF assms(1,2,9,10) rows_u, of p tr clock] tree tr decoded kept(2)
  show ?thesis by (auto split: if_splits)
qed

lemma decoded_root_length: "decode_rewardz_ix api data = Some (rt, epoch, issued, deny) \<Longrightarrow> length rt = 32"
  by (auto simp: decode_rewardz_ix_def IX_HEADER_LEN_def split: if_splits)

lemma read_rroot_with:
  assumes "length rt = 32"
  shows "\<exists>epoch. read_onchain_rewardz_root key_sdk sample_api (open_rpc [rewardz_root_pda key_sdk sample_api [] \<mapsto> rroot_with rt])
      (as_program_id sample_state) s = (Inr (Some (rt, epoch)), s)"
  using assms by (simp add: read_onchain_sample sample_state_def) (simp add: rroot_with_def sample_api_def)

theorem published_root_is_served_witness:
  "\<exists>t rt resp. publish_rewardz_root Release devnet_env key_sdk sample_api rroot_node quiet_pg [] [] 5
        (app_of () (two_earners 12)) = (Inr (), t)
    \<and> get_rewardz_proof Release key_sdk sample_api (open_rpc [rewardz_root_pda key_sdk sample_api [] \<mapsto> rroot_with rt])
        quiet_pg (\<lambda>_. 100) sample_state (replicate 32 CHR ''B'') t = (Inr (Inr resp), t)
    \<and> rp_cumulative_amount resp = 12"
proof -
  let ?s = "app_of () (two_earners 12)" and ?a = "replicate 32 CHR ''B''"
  let ?chain = "\<lambda>rt. open_rpc [rewardz_root_pda key_sdk sample_api [] \<mapsto> rroot_with rt] :: unit rpc"
  from sample_rewardz_publish obtain t where
    t: "publish_rewardz_root Release devnet_env key_sdk sample_api rroot_node quiet_pg [] [] 5 ?s = (Inr (), t)"
      "sent t \<noteq> sent ?s" by auto
  have claim: "claimable key_sdk (db ?s) ?a (replicate 32 66)" "authority_total ?a (rewardz_earnings (db ?s)) = 12"
    by code_simp+
  have claim_t: "claimable key_sdk (db t) ?a (replicate 32 66)"
  proof -
    obtain rows and tree :: "rewardz_merkle_tree option" where run:
      "submit_and_record key_sdk sample_api rroot_node quiet_pg [] [] 5 (pg_now quiet_pg (world ?s))
         (rewardz_entries key_sdk rows) (case tree of Some t \<Rightarrow> rt_root t | None \<Rightarrow> replicate 32 0) ?s = (Inr (), t)"
      by (rule publish_rewardz_sent [OF quiet_pg devnet_env_simps(1) t]) (rule that)
    obtain authorities where
      "rewardz_earnings (db t) = map (\<lambda>r. if backfilled authorities (pg_now quiet_pg (world ?s)) r
         then r\<lparr>re_included_in_root_epoch := Some (u64_as_i64 5)\<rparr> else r) (rewardz_earnings (db ?s))"
      by (rule submit_and_record_sent [OF quiet_pg run]) (rule that)
    from backfill_keeps_rows(3) [OF this] claim(1) show ?thesis by simp
  qed
  have served: "\<exists>sent_root issued deny.
      decode_rewardz_ix sample_api (ix_data (hd (tx_instructions (last (sent t))))) = Some (sent_root, 5, issued, deny)
      \<and> (rt = sent_root \<longrightarrow> (\<exists>resp. get_rewardz_proof Release key_sdk sample_api (?chain rt) quiet_pg (\<lambda>_. 100) sample_state ?a t =
          (Inr (Inr resp), t) \<and> rp_cumulative_amount resp = 12))" if rt: "length rt = 32" for rt
  proof -
    obtain e where "read_onchain_rewardz_root key_sdk sample_api (?chain rt) (as_program_id sample_state) t = (Inr (Some (rt, e)), t)"
      using read_rroot_with [OF rt] by blast
    from published_root_is_served [OF quiet_pg canonical_key_sdk length_keccak_key_sdk devnet_env_simps(1) _ t refl claim_t this,
        of "\<lambda>_. 100"] claim(2) show ?thesis by (auto simp: rroot_node_deny i64_as_u64_def)
  qed
  have "length (replicate 32 (0 :: u8)) = 32" by simp
  from served [OF this] obtain rt issued deny where
    decoded: "decode_rewardz_ix sample_api (ix_data (hd (tx_instructions (last (sent t))))) = Some (rt, 5, issued, deny)"
    by blast
  from served [OF decoded_root_length [OF decoded]] decoded have "\<exists>resp. get_rewardz_proof Release key_sdk sample_api (?chain rt)
      quiet_pg (\<lambda>_. 100) sample_state ?a t = (Inr (Inr resp), t) \<and> rp_cumulative_amount resp = 12"
    by auto
  with t(1) show ?thesis by blast
qed

end
