(* ===== verification/Stake_Watcher.thy ===== *)
theory Stake_Watcher
  imports Db League_Config Text
begin

section \<open>stake\_watcher.rs: the mirror of the stake and the capacity unlock\<close>

text \<open>
  \<^verbatim>\<open>src/src/stake_watcher.rs\<close>: one poll over the protocols of the league. Each protocol's stake
  account is read and mirrored, and the first stake above zero unlocks its capacity. The
  commitment level of the read is part of the parameter \<open>rpc\<close>.
\<close>

definition PROTOCOL_STAKE_SEED :: bytes where
  "PROTOCOL_STAKE_SEED = map of_char ''protocol_stake''"

definition OFF_DIRECT_STAKE :: nat where
  "OFF_DIRECT_STAKE = 2 + 32"

definition OFF_RENTED_STAKE :: nat where
  "OFF_RENTED_STAKE = 2 + 40"

definition MIN_ACCOUNT_LEN :: nat where
  "MIN_ACCOUNT_LEN = OFF_RENTED_STAKE + 8"

record protocol_row =
  sw_id :: uuid
  sw_admin_wallet :: string
  sw_active_stake :: "int option"
  sw_already_unlocked :: bool

definition protocol_row_of :: "protocol \<Rightarrow> protocol_row" where
  "protocol_row_of p =
     \<lparr>sw_id = p_id p, sw_admin_wallet = p_admin_wallet p, sw_active_stake = p_active_stake p,
      sw_already_unlocked = (p_capacity_unlocked_at p \<noteq> None)\<rparr>"

definition load_protocols :: "'w pg \<Rightarrow> ('w app, protocol_row list) prog" where
  "load_protocols pg = execute pg (\<lambda>now d.
     Inr (map protocol_row_of (filter (\<lambda>p. p_referral_code p \<noteq> None) (protocols d)), d))"

definition parse_active_stake :: "bytes \<Rightarrow> u64 option" where
  \<comment> \<open>\<open>None\<close> is the error of an account that is too small\<close>
  "parse_active_stake data =
     (if length data < MIN_ACCOUNT_LEN then None
      else
        Option.bind (read_u64_at data OFF_DIRECT_STAKE) (\<lambda>direct.
        Option.bind (read_u64_at data OFF_RENTED_STAKE) (\<lambda>rented.
          Some (saturating_add_u64 direct rented))))"

definition read_active_stake ::
    "sdk \<Rightarrow> 'w rpc \<Rightarrow> pubkey \<Rightarrow> pubkey \<Rightarrow> ('w app, u64 option) prog" where
  "read_active_stake sdk r program_id authority =
     andThen (call (rpc_get_account_opt r
         (sdk_find_program_address sdk [PROTOCOL_STAKE_SEED, authority] program_id))) (\<lambda>response.
       case response of
         None \<Rightarrow> ret None
       | Some data \<Rightarrow>
           andThen (or_throw ''ProtocolStake account too small'' (parse_active_stake data)) (\<lambda>stake.
           ret (Some stake)))"

definition i64_max :: nat where
  "i64_max = 2 ^ 63 - 1"

definition clamp_i64 :: "nat \<Rightarrow> int" where
  "clamp_i64 n = int (min n i64_max)"

definition mirror_stake :: "uuid \<Rightarrow> int \<Rightarrow> unit statement" where
  "mirror_stake i stake now d =
     Inr ((), update_protocol i (\<lambda>p.
       if p_active_stake p \<noteq> Some stake then p\<lparr>p_active_stake := Some stake\<rparr> else p) d)"

definition unlock_capacity :: "uuid \<Rightarrow> int \<Rightarrow> unit statement" where
  "unlock_capacity i capacity now d =
     Inr ((), update_protocol i (\<lambda>p.
       p\<lparr>p_remaining_capacity := Some capacity, p_capacity_window_start := Some now,
         p_capacity_unlocked_at := Some now\<rparr>) d)"

definition unlock_event :: "league_config \<Rightarrow> uuid \<Rightarrow> u64 \<Rightarrow> int \<Rightarrow> protocol_event" where
  "unlock_event cfg i observed_stake capacity =
     \<lparr>ev_protocol_id = i, ev_kind = ''capacity_unlocked'', ev_level = ''info'',
      ev_payload = JObj
        [(''active_stake'', JStr (dec_u64 observed_stake)),
         (''issuance_ratio'', JInt (int (unat (lc_issuance_ratio cfg)))),
         (''new_capacity'', JStr (dec_int capacity))]\<rparr>"

definition new_capacity :: "league_config \<Rightarrow> u64 \<Rightarrow> int" where
  \<comment> \<open>the product is of two \<open>u64\<close> in \<open>u128\<close>, so it does not overflow\<close>
  "new_capacity cfg observed_stake =
     clamp_i64 (unat ((ucast (lc_issuance_ratio cfg) :: u128) * ucast observed_stake))"

definition apply_sample ::
    "'w pg \<Rightarrow> league_config \<Rightarrow> uuid \<Rightarrow> u64 \<Rightarrow> int option \<Rightarrow> bool \<Rightarrow> ('w app, bool) prog" where
  "apply_sample pg cfg protocol_id observed_stake prev_stake already_unlocked =
     (let observed_i64 = clamp_i64 (unat observed_stake);
          is_first_unlock = (observed_stake > 0 \<and> \<not> already_unlocked) in
      if \<not> is_first_unlock \<and> prev_stake = Some observed_i64 then ret False
      else
        transaction pg (\<lambda>now.
          andThen (execute_in pg now (mirror_stake protocol_id observed_i64)) (\<lambda>_.
          if is_first_unlock then
            andThen (execute_in pg now (unlock_capacity protocol_id (new_capacity cfg observed_stake))) (\<lambda>_.
            andThen (execute_in pg now (insert_event
               (unlock_event cfg protocol_id observed_stake (new_capacity cfg observed_stake)))) (\<lambda>_.
            ret is_first_unlock))
          else ret is_first_unlock)))"

fun sample_each ::
    "sdk \<Rightarrow> 'w rpc \<Rightarrow> 'w pg \<Rightarrow> league_config \<Rightarrow> pubkey \<Rightarrow> protocol_row list \<Rightarrow> nat \<times> nat
       \<Rightarrow> ('w app, nat \<times> nat) prog" where
  "sample_each sdk r pg cfg program_id [] counts = ret counts"
| "sample_each sdk r pg cfg program_id (proto # protos) (observed, unlocked) =
     (case sdk_pubkey_from_str sdk (sw_admin_wallet proto) of
        None \<Rightarrow> sample_each sdk r pg cfg program_id protos (observed, unlocked)
      | Some authority \<Rightarrow>
          andThen (attempt (read_active_stake sdk r program_id authority)) (\<lambda>stake.
          case stake of
            Inr (Some stake) \<Rightarrow>
              andThen (attempt (apply_sample pg cfg (sw_id proto) stake (sw_active_stake proto)
                  (sw_already_unlocked proto))) (\<lambda>applied.
              sample_each sdk r pg cfg program_id protos
                (observed + 1, if applied = Inr True then unlocked + 1 else unlocked))
          | _ \<Rightarrow> sample_each sdk r pg cfg program_id protos (observed, unlocked)))"

definition stake_tick ::
    "sdk \<Rightarrow> 'w rpc \<Rightarrow> 'w pg \<Rightarrow> league_config \<Rightarrow> pubkey \<Rightarrow> ('w app, nat \<times> nat) prog" where
  "stake_tick sdk r pg cfg program_id =
     andThen (load_protocols pg) (\<lambda>protos. sample_each sdk r pg cfg program_id protos (0, 0))"

definition start_stake_watcher_cron ::
    "environment \<Rightarrow> sdk \<Rightarrow> 'w rpc \<Rightarrow> 'w pg \<Rightarrow> pubkey \<Rightarrow> nat \<Rightarrow> ('w app, unit) prog" where
  "start_stake_watcher_cron env sdk r pg program_id n =
     league_cron env (\<lambda>cfg. stake_tick sdk r pg cfg program_id) n"

subsection \<open>One sample\<close>

definition first_unlock :: "u64 \<Rightarrow> bool \<Rightarrow> bool" where
  "first_unlock stake already_unlocked \<longleftrightarrow> stake > 0 \<and> \<not> already_unlocked"

definition mirrored :: "u64 \<Rightarrow> protocol \<Rightarrow> protocol" where
  "mirrored stake p = p\<lparr>p_active_stake := Some (clamp_i64 (unat stake))\<rparr>"

definition unlocked_with :: "int \<Rightarrow> time \<Rightarrow> protocol \<Rightarrow> protocol" where
  "unlocked_with capacity now p =
     p\<lparr>p_remaining_capacity := Some capacity, p_capacity_window_start := Some now,
       p_capacity_unlocked_at := Some now\<rparr>"

definition sampled :: "league_config \<Rightarrow> time \<Rightarrow> uuid \<Rightarrow> u64 \<Rightarrow> bool \<Rightarrow> database \<Rightarrow> database" where
  \<comment> \<open>what a sample makes of the tables\<close>
  "sampled cfg now i stake already_unlocked d =
     (if first_unlock stake already_unlocked
      then (update_protocol i (unlocked_with (new_capacity cfg stake) now \<circ> mirrored stake) d)
             \<lparr>protocol_events := protocol_events d @ [unlock_event cfg i stake (new_capacity cfg stake)]\<rparr>
      else update_protocol i (mirrored stake) d)"

lemma mirror_stake_eq:
  "mirror_stake i (clamp_i64 (unat stake)) now d = Inr ((), update_protocol i (mirrored stake) d)"
proof -
  have "(\<lambda>p. if p_active_stake p \<noteq> Some (clamp_i64 (unat stake))
      then p\<lparr>p_active_stake := Some (clamp_i64 (unat stake))\<rparr> else p) = mirrored stake"
    by (auto simp: fun_eq_iff mirrored_def)
  then show ?thesis by (simp add: mirror_stake_def)
qed

lemma unlock_capacity_eq: "unlock_capacity i c now d = Inr ((), update_protocol i (unlocked_with c now) d)"
  by (simp add: unlock_capacity_def unlocked_with_def [abs_def])

lemma p_id_mirrored [simp]: "p_id (mirrored stake p) = p_id p"
  by (simp add: mirrored_def)

lemma p_id_unlocked_with [simp]: "p_id (unlocked_with c now p) = p_id p"
  by (simp add: unlocked_with_def)

definition sample_body :: "'w pg \<Rightarrow> league_config \<Rightarrow> uuid \<Rightarrow> u64 \<Rightarrow> bool \<Rightarrow> time \<Rightarrow> ('w app, bool) prog" where
  "sample_body pg cfg i stake first now =
     andThen (execute_in pg now (mirror_stake i (clamp_i64 (unat stake)))) (\<lambda>_.
          if first then
            andThen (execute_in pg now (unlock_capacity i (new_capacity cfg stake))) (\<lambda>_.
            andThen (execute_in pg now (insert_event (unlock_event cfg i stake (new_capacity cfg stake)))) (\<lambda>_.
            ret first))
          else ret first)"

lemma apply_sample_eq:
  "apply_sample pg cfg i stake prev already =
     (if \<not> first_unlock stake already \<and> prev = Some (clamp_i64 (unat stake)) then ret False
      else transaction pg (sample_body pg cfg i stake (first_unlock stake already)))"
  by (simp add: apply_sample_def first_unlock_def sample_body_def [abs_def] Let_def)

lemma sample_body_Inr:
  assumes "sample_body pg cfg i stake (first_unlock stake already) now s = (Inr x, t)"
  shows "x = first_unlock stake already \<and> db t = sampled cfg now i stake already (db s)"
proof -
  from assms obtain y u where 1: "execute_in pg now (mirror_stake i (clamp_i64 (unat stake))) s = (Inr y, u)"
    and 2: "(if first_unlock stake already then
            andThen (execute_in pg now (unlock_capacity i (new_capacity cfg stake))) (\<lambda>_.
            andThen (execute_in pg now (insert_event (unlock_event cfg i stake (new_capacity cfg stake)))) (\<lambda>_.
            ret (first_unlock stake already)))
          else ret (first_unlock stake already)) u = (Inr x, t)"
    unfolding sample_body_def by (rule andThen_Inr)
  from execute_in_Inr [OF 1] have u: "db u = update_protocol i (mirrored stake) (db s)" by (simp add: mirror_stake_eq)
  show ?thesis
  proof (cases "first_unlock stake already")
    case False
    with 2 u show ?thesis by (simp add: ret_def sampled_def)
  next
    case True
    with 2 have "andThen (execute_in pg now (unlock_capacity i (new_capacity cfg stake))) (\<lambda>_.
            andThen (execute_in pg now (insert_event (unlock_event cfg i stake (new_capacity cfg stake)))) (\<lambda>_.
            ret (first_unlock stake already))) u = (Inr x, t)" by simp
    then obtain y' v where 3: "execute_in pg now (unlock_capacity i (new_capacity cfg stake)) u = (Inr y', v)"
      and 4: "andThen (execute_in pg now (insert_event (unlock_event cfg i stake (new_capacity cfg stake)))) (\<lambda>_.
            ret (first_unlock stake already)) v = (Inr x, t)" by (rule andThen_Inr)
    from 4 obtain y'' w where 5: "execute_in pg now (insert_event (unlock_event cfg i stake (new_capacity cfg stake))) v
        = (Inr y'', w)" and 6: "ret (first_unlock stake already) w = (Inr x, t)" by (rule andThen_Inr)
    from execute_in_Inr [OF 3] u
    have v: "db v = update_protocol i (unlocked_with (new_capacity cfg stake) now \<circ> mirrored stake) (db s)"
      by (simp add: unlock_capacity_eq update_protocol_twice)
    from execute_in_Inr [OF 5] have "db w = (db v)\<lparr>protocol_events := protocol_events (db v)
        @ [unlock_event cfg i stake (new_capacity cfg stake)]\<rparr>" by (simp add: insert_event_def)
    with 6 v True show ?thesis by (simp add: ret_def sampled_def)
  qed
qed

lemma quiet_apply_sample:
  assumes "quiet pg"
  shows "apply_sample pg cfg i stake prev already s =
    (if \<not> first_unlock stake already \<and> prev = Some (clamp_i64 (unat stake)) then (Inr False, s)
     else (Inr (first_unlock stake already), s\<lparr>db := sampled cfg (pg_now pg (world s)) i stake already (db s)\<rparr>))"
  by (simp add: apply_sample_eq sample_body_def quiet_transaction [OF assms] quiet_execute_in [OF assms]
      andThen_def ret_def run_statement_def mirror_stake_eq unlock_capacity_eq insert_event_def
      update_protocol_twice sampled_def)

lemma apply_sample_outcome:
  assumes "no_other_writers pg" and "apply_sample pg cfg i stake prev already s = (res, t)"
  shows "db t = db s \<or> (\<exists>now. db t = sampled cfg now i stake already (db s))"
proof (cases "\<not> first_unlock stake already \<and> prev = Some (clamp_i64 (unat stake))")
  case True
  with assms(2) show ?thesis by (simp add: apply_sample_eq ret_def)
next
  case False
  with assms(2) have run: "transaction pg (sample_body pg cfg i stake (first_unlock stake already)) s = (res, t)"
    unfolding apply_sample_eq by (simp split: if_splits)
  show ?thesis
  proof (cases res)
    case (Inl e)
    with transaction_atomic run have "db t = db s \<or> db t = pg_others pg (snd (pg_error pg (world s))) (db s)"
      by blast
    with assms(1) show ?thesis by (simp add: no_other_writers_def)
  next
    case (Inr x)
    with run obtain now v u where "sample_body pg cfg i stake (first_unlock stake already) now v = (Inr x, u)"
      and "db t = db u" "db v = pg_others pg (world v) (db s)"
      by (auto elim: transaction_Inr)
    with sample_body_Inr [of pg cfg i stake already now v x u] assms(1) show ?thesis
      by (auto simp: no_other_writers_def)
  qed
qed

subsection \<open>One unlock a protocol\<close>

definition is_unlocked :: "protocol \<Rightarrow> bool" where
  "is_unlocked p \<longleftrightarrow> p_capacity_unlocked_at p \<noteq> None"

definition unlocks :: "uuid \<Rightarrow> database \<Rightarrow> nat" where
  "unlocks i d = length (filter (\<lambda>e. ev_protocol_id e = i \<and> ev_kind e = ''capacity_unlocked'') (protocol_events d))"

definition unlock_inv :: "database \<Rightarrow> bool" where
  \<comment> \<open>at most one unlock event a protocol, and none while its marker is empty\<close>
  "unlock_inv d \<longleftrightarrow>
     distinct (map p_id (protocols d))
     \<and> (\<forall>p \<in> set (protocols d). unlocks (p_id p) d \<le> (if is_unlocked p then 1 else 0))"

definition keeps_unlocked :: "protocol \<Rightarrow> protocol \<Rightarrow> bool" where
  \<comment> \<open>the capacity of an unlocked protocol is left alone\<close>
  "keeps_unlocked p q \<longleftrightarrow>
     p_id q = p_id p \<and>
     (is_unlocked p \<longrightarrow>
        p_capacity_unlocked_at q = p_capacity_unlocked_at p
        \<and> p_remaining_capacity q = p_remaining_capacity p
        \<and> p_capacity_window_start q = p_capacity_window_start p)"

definition same_capacity :: "database \<Rightarrow> database \<Rightarrow> bool" where
  "same_capacity d e \<longleftrightarrow> list_all2 keeps_unlocked (protocols d) (protocols e)"

lemma keeps_unlocked_refl [simp]: "keeps_unlocked p p"
  by (simp add: keeps_unlocked_def)

lemma keeps_unlocked_trans: "keeps_unlocked p q \<Longrightarrow> keeps_unlocked q r \<Longrightarrow> keeps_unlocked p r"
  by (auto simp: keeps_unlocked_def is_unlocked_def)

lemma same_capacity_refl [simp]: "same_capacity d d"
  by (simp add: same_capacity_def list_all2_refl)

lemma same_capacity_trans: "same_capacity d e \<Longrightarrow> same_capacity e f \<Longrightarrow> same_capacity d f"
  unfolding same_capacity_def by (rule list_all2_trans [of keeps_unlocked keeps_unlocked keeps_unlocked])
    (auto intro: keeps_unlocked_trans)

lemma same_capacity_ids: "same_capacity d e \<Longrightarrow> map p_id (protocols e) = map p_id (protocols d)"
  unfolding same_capacity_def
  by (intro nth_equalityI) (auto simp: list_all2_conv_all_nth keeps_unlocked_def)

definition flag_is_right :: "database \<Rightarrow> protocol_row \<Rightarrow> bool" where
  \<comment> \<open>the row read at the start of the tick still tells whether its protocol is unlocked\<close>
  "flag_is_right d row \<longleftrightarrow>
     (\<forall>p \<in> set (protocols d). p_id p = sw_id row \<longrightarrow> is_unlocked p = sw_already_unlocked row)"

lemma set_update_protocol:
  "p \<in> set (protocols (update_protocol i f d)) \<Longrightarrow>
   \<exists>q \<in> set (protocols d). p = (if p_id q = i then f q else q)"
  by (auto simp: update_protocol_def)

lemma is_unlocked_mirrored [simp]: "is_unlocked (mirrored stake p) = is_unlocked p"
  by (simp add: is_unlocked_def mirrored_def)

lemma is_unlocked_unlocked_with [simp]: "is_unlocked (unlocked_with c now p)"
  by (simp add: is_unlocked_def unlocked_with_def)

lemma unlocks_sampled:
  "unlocks j (sampled cfg now i stake already d) =
     unlocks j d + (if first_unlock stake already \<and> i = j then 1 else 0)"
  by (auto simp: unlocks_def sampled_def unlock_event_def)

lemma ids_sampled [simp]: "map p_id (protocols (sampled cfg now i stake already d)) = map p_id (protocols d)"
  by (simp add: sampled_def update_protocol_def)

lemma protocols_sampled:
  "protocols (sampled cfg now i stake already d) = map (\<lambda>p.
     if p_id p = i
     then (if first_unlock stake already then unlocked_with (new_capacity cfg stake) now (mirrored stake p)
           else mirrored stake p)
     else p) (protocols d)"
  by (simp add: sampled_def update_protocol_def)

lemma sampled_inv:
  assumes "unlock_inv d" "flag_is_right d row"
  shows "unlock_inv (sampled cfg now (sw_id row) stake (sw_already_unlocked row) d)"
    and "same_capacity d (sampled cfg now (sw_id row) stake (sw_already_unlocked row) d)"
    and "flag_is_right d other \<Longrightarrow> sw_id other \<noteq> sw_id row \<Longrightarrow>
      flag_is_right (sampled cfg now (sw_id row) stake (sw_already_unlocked row) d) other"
proof -
  let ?e = "sampled cfg now (sw_id row) stake (sw_already_unlocked row) d"
  have flag: "is_unlocked p = sw_already_unlocked row" if "p \<in> set (protocols d)" "p_id p = sw_id row" for p
    using assms(2) that by (auto simp: flag_is_right_def)
  have "unlocks (p_id p) ?e \<le> (if is_unlocked p then 1 else 0)" if p: "p \<in> set (protocols ?e)" for p
  proof -
    from p obtain q where q: "q \<in> set (protocols d)" "p = (if p_id q = sw_id row
       then (if first_unlock stake (sw_already_unlocked row)
             then unlocked_with (new_capacity cfg stake) now (mirrored stake q) else mirrored stake q)
       else q)" unfolding protocols_sampled set_map by blast
    have "unlocks (p_id q) d \<le> (if is_unlocked q then 1 else 0)"
      using assms(1) q(1) by (auto simp: unlock_inv_def)
    with flag [OF q(1)] q(2) show ?thesis
      by (auto simp: unlocks_sampled first_unlock_def split: if_splits)
  qed
  then show "unlock_inv ?e" using assms(1) by (auto simp: unlock_inv_def)
  show "same_capacity d ?e"
    using flag unfolding same_capacity_def protocols_sampled
    by (auto simp: list_all2_conv_all_nth keeps_unlocked_def first_unlock_def is_unlocked_def mirrored_def)
  show "flag_is_right ?e other" if "flag_is_right d other" "sw_id other \<noteq> sw_id row"
    using that by (auto simp: flag_is_right_def protocols_sampled)
qed

lemma db_call: "db (snd (call f s)) = db s"
  by (auto simp: call_def split: prod.splits sum.splits)

lemma db_read_active_stake [simp]: "db (snd (read_active_stake sdk r program_id authority s)) = db s"
  by (auto simp: read_active_stake_def andThen_def call_def ret_def or_throw_def throw_def
      split: prod.splits sum.splits option.splits)

lemma db_attempt [simp]: "db (snd (attempt m s)) = db (snd (m s))"
  by (simp add: attempt_def split: prod.splits sum.splits fault.splits)

lemma attempt_read_stake: "\<exists>x u. attempt (read_active_stake sdk r program_id authority) s = (Inr x, u) \<and> db u = db s"
proof -
  obtain res u where run: "read_active_stake sdk r program_id authority s = (res, u)"
    by (cases "read_active_stake sdk r program_id authority s")
  then have "db u = db s" using db_read_active_stake [of sdk r program_id authority s] by simp
  moreover have "res \<noteq> Inl (Panic msg)" for msg
    using run by (auto simp: read_active_stake_def andThen_def call_def ret_def or_throw_def throw_def
        split: prod.splits sum.splits option.splits)
  ultimately show ?thesis using run
    by (cases res) (auto simp: attempt_def split: fault.splits)
qed

lemma sample_each_inv:
  assumes "no_other_writers pg"
  shows "unlock_inv (db s) \<Longrightarrow> distinct (map sw_id protos) \<Longrightarrow> \<forall>row \<in> set protos. flag_is_right (db s) row \<Longrightarrow>
    sample_each sdk r pg cfg program_id protos counts s = (res, t) \<Longrightarrow>
    unlock_inv (db t) \<and> same_capacity (db s) (db t)"
proof (induction protos arbitrary: counts s res t)
  case Nil
  then show ?case by (cases counts) (auto simp: ret_def)
next
  case (Cons row protos)
  obtain observed unlocked where counts: "counts = (observed, unlocked)" by (cases counts)
  show ?case
  proof (cases "sdk_pubkey_from_str sdk (sw_admin_wallet row)")
    case None
    with Cons counts show ?thesis by simp
  next
    case (Some authority)
    obtain x u where read: "attempt (read_active_stake sdk r program_id authority) s = (Inr x, u)" and u: "db u = db s"
      using attempt_read_stake by blast
    show ?thesis
    proof (cases "\<exists>stake. x = Inr (Some stake)")
      case False
      with Cons.prems(4) Some read counts
      have "sample_each sdk r pg cfg program_id protos (observed, unlocked) u = (res, t)"
        by (auto simp: andThen_def split: sum.splits option.splits)
      with Cons.IH [of u] Cons.prems u show ?thesis by simp
    next
      case True
      then obtain stake where x: "x = Inr (Some stake)" by blast
      let ?m = "apply_sample pg cfg (sw_id row) stake (sw_active_stake row) (sw_already_unlocked row)"
      obtain y v where applied: "?m u = (y, v)" by (cases "?m u")
      from apply_sample_outcome [OF assms applied] u
      have v: "db v = db s \<or> (\<exists>now. db v = sampled cfg now (sw_id row) stake (sw_already_unlocked row) (db s))"
        by simp
      have right: "flag_is_right (db s) row" using Cons.prems(3) by simp
      have step: "unlock_inv (db v)" "same_capacity (db s) (db v)" "\<forall>row \<in> set protos. flag_is_right (db v) row"
        using v sampled_inv [OF Cons.prems(1) right] Cons.prems(1,2,3) by (auto simp: image_iff)
      show ?thesis
      proof (cases "\<exists>msg. y = Inl (Panic msg)")
        case True
        with Cons.prems(4) Some read counts x applied have "t = v" by (auto simp: andThen_def attempt_def)
        with step show ?thesis by simp
      next
        case False
        then have "\<exists>z. attempt ?m u = (Inr z, v)"
          using applied by (cases y) (auto simp: attempt_def split: fault.splits)
        then obtain z where "attempt ?m u = (Inr z, v)" by blast
        with Cons.prems(4) Some read counts x
        have rest: "\<exists>counts. sample_each sdk r pg cfg program_id protos counts v = (res, t)"
          by (auto simp: andThen_def)
        then obtain counts' where "sample_each sdk r pg cfg program_id protos counts' v = (res, t)" by blast
        from Cons.IH [OF step(1) _ step(3) this] Cons.prems(2) step(2) show ?thesis
          by (auto intro: same_capacity_trans)
      qed
    qed
  qed
qed

lemma stake_tick_inv:
  assumes "no_other_writers pg" "unlock_inv (db s)" "stake_tick sdk r pg cfg program_id s = (res, t)"
  shows "unlock_inv (db t) \<and> same_capacity (db s) (db t)"
proof -
  obtain x u where load: "load_protocols pg s = (x, u)" by (cases "load_protocols pg s")
  have u: "db u = db s"
    and rows: "x = Inr rows \<Longrightarrow> rows = map protocol_row_of (filter (\<lambda>p. p_referral_code p \<noteq> None) (protocols (db s)))" for rows
    using load assms(1) by (auto simp: load_protocols_def execute_def andThen_def round_trip_def see_others_def
        run_statement_def no_other_writers_def split: prod.splits option.splits)
  show ?thesis
  proof (cases x)
    case (Inl e)
    with assms(2,3) load u show ?thesis by (auto simp: stake_tick_def andThen_def)
  next
    case (Inr protos)
    have ids: "distinct (map p_id (protocols (db s)))" using assms(2) by (simp add: unlock_inv_def)
    have "map sw_id protos = map p_id (filter (\<lambda>p. p_referral_code p \<noteq> None) (protocols (db s)))"
      using rows [OF Inr] by (simp add: protocol_row_of_def)
    then have "distinct (map sw_id protos)" using ids by (simp add: distinct_map_filter)
    moreover have "\<forall>row \<in> set protos. flag_is_right (db u) row"
      using ids u unfolding rows [OF Inr]
      by (auto simp: flag_is_right_def protocol_row_of_def is_unlocked_def distinct_map dest: inj_onD)
    moreover have "sample_each sdk r pg cfg program_id protos (0, 0) u = (res, t)"
      using assms(3) load Inr by (simp add: stake_tick_def andThen_def)
    ultimately show ?thesis using sample_each_inv [OF assms(1)] assms(2) u by metis
  qed
qed

text \<open>
  An unstake and stake again does not refill. A tick of the watcher, over whatever stakes
  the chain reports and whatever round trips fail, leaves the capacity, the window and the
  marker of every protocol that was unlocked before as they are, and keeps at most one unlock
  event a protocol; so a protocol's capacity is unlocked by its stake once and for all.
\<close>

theorem stake_tick_never_refills:
  assumes "no_other_writers pg" and "unlock_inv (db s)"
  shows "unlock_inv (db (snd (stake_tick sdk r pg cfg program_id s)))
    \<and> same_capacity (db s) (db (snd (stake_tick sdk r pg cfg program_id s)))"
  using stake_tick_inv [OF assms] by (metis prod.collapse)

lemma new_capacity_exact:
  "new_capacity cfg stake = int (min (unat (lc_issuance_ratio cfg) * unat stake) (2 ^ 63 - 1))"
proof -
  have u: "unat (ucast w :: u128) = unat w" for w :: u64
  proof -
    have "unat w < 2 ^ 128" by (rule less_trans [OF unat_less]) simp
    then show ?thesis by (simp add: unsigned_ucast_eq take_bit_nat_eq_self)
  qed
  have "unat a * unat b < 2 ^ 128" for a b :: u64
  proof -
    have "unat a * unat b \<le> (2 ^ 64 - 1) * (2 ^ 64 - 1)"
      using unat_less [of a] unat_less [of b] by (intro mult_le_mono) auto
    then show ?thesis by simp
  qed
  then have "unat ((ucast (lc_issuance_ratio cfg) :: u128) * ucast stake) =
      unat (lc_issuance_ratio cfg) * unat stake"
    by (simp add: unat_word_ariths u)
  then show ?thesis by (simp add: new_capacity_def clamp_i64_def i64_max_def)
qed

text \<open>
  What one sample does. On a quiet session the protocol mirrors the stake, clamped to 63
  bits; the first stake above zero of a protocol that is not unlocked sets its capacity to the
  ratio times the stake, exact below the clamp and without overflow, opens the window, sets the
  marker and adds one event; any other sample changes the mirror alone.
\<close>

theorem apply_sample_effect:
  assumes "quiet pg" and "\<not> (\<not> first_unlock stake already \<and> prev = Some (clamp_i64 (unat stake)))"
    and "apply_sample pg cfg i stake prev already s = (res, t)"
  shows "res = Inr (first_unlock stake already)
    \<and> protocols (db t) = map (\<lambda>p. if p_id p = i then
        (if first_unlock stake already
         then p\<lparr>p_active_stake := Some (int (min (unat stake) (2 ^ 63 - 1))),
                p_remaining_capacity := Some (int (min (unat (lc_issuance_ratio cfg) * unat stake) (2 ^ 63 - 1))),
                p_capacity_window_start := Some (pg_now pg (world s)),
                p_capacity_unlocked_at := Some (pg_now pg (world s))\<rparr>
         else p\<lparr>p_active_stake := Some (int (min (unat stake) (2 ^ 63 - 1)))\<rparr>)
        else p) (protocols (db s))
    \<and> length (protocol_events (db t)) = length (protocol_events (db s)) + (if first_unlock stake already then 1 else 0)"
proof -
  have eff: "(if first_unlock stake already then unlocked_with (new_capacity cfg stake) now (mirrored stake p)
      else mirrored stake p) =
    (if first_unlock stake already
         then p\<lparr>p_active_stake := Some (int (min (unat stake) (2 ^ 63 - 1))),
                p_remaining_capacity := Some (int (min (unat (lc_issuance_ratio cfg) * unat stake) (2 ^ 63 - 1))),
                p_capacity_window_start := Some now, p_capacity_unlocked_at := Some now\<rparr>
         else p\<lparr>p_active_stake := Some (int (min (unat stake) (2 ^ 63 - 1)))\<rparr>)" for p now
    by (simp add: unlocked_with_def mirrored_def new_capacity_exact clamp_i64_def i64_max_def)
  from assms(3) assms(2) have res: "res = Inr (first_unlock stake already)"
    and t: "db t = sampled cfg (pg_now pg (world s)) i stake already (db s)"
    unfolding quiet_apply_sample [OF assms(1)] by auto
  have "length (protocol_events (db t)) = length (protocol_events (db s)) + (if first_unlock stake already then 1 else 0)"
    by (simp add: t sampled_def)
  with res show ?thesis by (simp only: t protocols_sampled eff)
qed

end
