(* ===== verification/Capacity_Reset.thy ===== *)
theory Capacity_Reset
  imports Db League_Config Text
begin

section \<open>capacity\_reset.rs: the window of the capacity\<close>

text \<open>
  \<^verbatim>\<open>src/src/capacity_reset.rs\<close>: one statement that gives every protocol whose window has
  elapsed, or never began, its starter grant and a new window. The cadence may be overridden by
  the environment; an interval of the server that exceeds its 64 bits of microseconds is an
  error.
\<close>

definition cadence_secs :: "reset_cadence \<Rightarrow> u64" where
  "cadence_secs cadence = (case cadence of Weekly \<Rightarrow> 7 * 86400 | Yearly \<Rightarrow> 365 * 86400)"

definition override_secs :: "environment \<Rightarrow> fault + u64 option" where
  "override_secs env =
     (case env ''LEAGUE_CAPACITY_RESET_OVERRIDE_SECS'' of
        None \<Rightarrow> Inr None
      | Some s \<Rightarrow>
          (case parse_u64 s of
             None \<Rightarrow> Inl (Panic ''LEAGUE_CAPACITY_RESET_OVERRIDE_SECS must be u64'')
           | Some n \<Rightarrow> Inr (Some n)))"

definition window_elapsed :: "time \<Rightarrow> int \<Rightarrow> protocol \<Rightarrow> bool" where
  "window_elapsed now cadence_micros p \<longleftrightarrow>
     (case p_capacity_window_start p of
        None \<Rightarrow> True
      | Some start \<Rightarrow> now - start \<ge> cadence_micros)"

definition reset_statement :: "int \<Rightarrow> int \<Rightarrow> nat statement" where
  "reset_statement baseline cadence now d =
     (let interval = cadence * 1000000 in
      if \<not> in_i64 interval then Inl ''interval out of range''
      else
        Inr (length (filter (window_elapsed now interval) (protocols d)),
             d\<lparr>protocols := map (\<lambda>p. if window_elapsed now interval p
                 then p\<lparr>p_remaining_capacity := Some baseline, p_capacity_window_start := Some now\<rparr>
                 else p) (protocols d)\<rparr>))"

definition reset_capacities ::
    "environment \<Rightarrow> 'w pg \<Rightarrow> league_config \<Rightarrow> ('w app, nat) prog" where
  "reset_capacities env pg cfg s =
     (case override_secs env of
        Inl e \<Rightarrow> (Inl e, s)
      | Inr secs \<Rightarrow>
          (let cadence = (case secs of Some n \<Rightarrow> n | None \<Rightarrow> cadence_secs (lc_capacity_reset_cadence cfg)) in
           execute pg (reset_statement (u64_as_i64 (lc_starter_grant_rewardz cfg)) (u64_as_i64 cadence)) s))"

definition start_capacity_reset_cron :: "environment \<Rightarrow> 'w pg \<Rightarrow> nat \<Rightarrow> ('w app, unit) prog" where
  \<comment> \<open>the override is read once more for the log, before the loop\<close>
  "start_capacity_reset_cron env pg n =
     with_config env (\<lambda>cfg s.
       (case override_secs env of
          Inl e \<Rightarrow> (Inl e, s)
        | Inr secs \<Rightarrow> turns (reset_capacities env pg cfg) n s))"

subsection \<open>What a reset does\<close>

definition reset_cadence_secs :: "league_config \<Rightarrow> u64 option \<Rightarrow> u64" where
  "reset_cadence_secs cfg secs = (case secs of Some n \<Rightarrow> n | None \<Rightarrow> cadence_secs (lc_capacity_reset_cadence cfg))"

definition granted :: "league_config \<Rightarrow> time \<Rightarrow> protocol \<Rightarrow> protocol" where
  "granted cfg now p =
     p\<lparr>p_remaining_capacity := Some (int (unat (lc_starter_grant_rewardz cfg))), p_capacity_window_start := Some now\<rparr>"

definition window_micros :: "league_config \<Rightarrow> u64 option \<Rightarrow> int" where
  "window_micros cfg secs = int (unat (reset_cadence_secs cfg secs)) * 1000000"

definition grants_fit :: "league_config \<Rightarrow> u64 option \<Rightarrow> bool" where
  \<comment> \<open>the grant and the cadence are in range for the casts and for an interval\<close>
  "grants_fit cfg secs \<longleftrightarrow> unat (lc_starter_grant_rewardz cfg) < 2 ^ 63 \<and> window_micros cfg secs < 2 ^ 63"

lemma reset_statement_fit:
  assumes "grants_fit cfg secs"
  shows "reset_statement (u64_as_i64 (lc_starter_grant_rewardz cfg)) (u64_as_i64 (reset_cadence_secs cfg secs)) now d =
    Inr (length (filter (window_elapsed now (window_micros cfg secs)) (protocols d)),
         d\<lparr>protocols := map (\<lambda>p. if window_elapsed now (window_micros cfg secs) p then granted cfg now p else p)
            (protocols d)\<rparr>)"
proof -
  let ?n = "unat (reset_cadence_secs cfg secs)"
  have "int ?n * 1000000 < 2 ^ 63" using assms by (simp add: grants_fit_def window_micros_def)
  then have n: "?n < 2 ^ 63" by (simp del: of_nat_unat)
  then have cadence: "u64_as_i64 (reset_cadence_secs cfg secs) = int ?n" by (rule u64_as_i64_id)
  have grant: "u64_as_i64 (lc_starter_grant_rewardz cfg) = int (unat (lc_starter_grant_rewardz cfg))"
    using assms by (intro u64_as_i64_id) (simp add: grants_fit_def)
  have "in_i64 (window_micros cfg secs)"
    using assms by (simp add: grants_fit_def in_i64_def window_micros_def del: of_nat_unat)
  then show ?thesis
    unfolding reset_statement_def cadence grant Let_def granted_def [abs_def]
    by (simp add: window_micros_def del: of_nat_unat)
qed

lemma reset_capacities_eq:
  "override_secs env = Inr secs \<Longrightarrow> reset_capacities env pg cfg =
     execute pg (reset_statement (u64_as_i64 (lc_starter_grant_rewardz cfg)) (u64_as_i64 (reset_cadence_secs cfg secs)))"
  by (simp add: fun_eq_iff reset_capacities_def reset_cadence_secs_def)

lemma quiet_reset:
  assumes "quiet pg" "override_secs env = Inr secs" "grants_fit cfg secs"
  shows "reset_capacities env pg cfg s =
    (Inr (length (filter (window_elapsed (pg_now pg (world s)) (window_micros cfg secs)) (protocols (db s)))),
     s\<lparr>db := (db s)\<lparr>protocols := map (\<lambda>p.
        if window_elapsed (pg_now pg (world s)) (window_micros cfg secs) p
        then granted cfg (pg_now pg (world s)) p else p) (protocols (db s))\<rparr>\<rparr>)"
  by (simp add: reset_capacities_eq [OF assms(2)] quiet_execute [OF assms(1)] run_statement_def
      reset_statement_fit [OF assms(3)])

lemma window_elapsed_granted:
  "window_elapsed later interval (granted cfg now p) \<longleftrightarrow> later - now \<ge> interval"
  by (simp add: window_elapsed_def granted_def)


lemma reset_statement_out_of_range:
  assumes "unat n < 2 ^ 63" "2 ^ 63 \<le> int (unat n) * 1000000"
  shows "reset_statement baseline (u64_as_i64 n) now d = Inl ''interval out of range''"
  using assms by (simp add: reset_statement_def u64_as_i64_id in_i64_def del: of_nat_unat)

lemma reset_out_of_range:
  assumes "no_other_writers pg" "override_secs env = Inr (Some n)" "unat n < 2 ^ 63"
    "2 ^ 63 \<le> int (unat n) * 1000000"
  shows "\<exists>e. fst (reset_capacities env pg cfg s) = Inl (Fault e) \<and> db (snd (reset_capacities env pg cfg s)) = db s"
proof -
  obtain res t where run: "reset_capacities env pg cfg s = (res, t)" by (cases "reset_capacities env pg cfg s")
  with execute_outcome [OF assms(1)] show ?thesis
    unfolding reset_capacities_eq [OF assms(2)] reset_cadence_secs_def
    by (fastforce simp: reset_statement_out_of_range [OF assms(3,4)])
qed

text \<open>
  A bad override never resets anything. One that is not a number stops the task before its
  first turn; one whose microseconds exceed an interval of the server makes every turn of the
  cron fail, however many there are, and no protocol is touched.
\<close>

theorem reset_override_rejected:
  assumes "no_other_writers pg"
    and "override_secs env = Inl e \<or>
      (override_secs env = Inr (Some secs) \<and> unat secs < 2 ^ 63 \<and> 2 ^ 63 \<le> int (unat secs) * 1000000)"
  shows "db (snd (start_capacity_reset_cron env pg n s)) = db s"
proof (cases "load_league_config env")
  case (Inl f)
  then show ?thesis by (simp add: start_capacity_reset_cron_def with_config_def)
next
  case (Inr cfg)
  have "db (snd (turns (reset_capacities env pg cfg) n s)) = db s"
    if "override_secs env = Inr (Some secs)" "unat secs < 2 ^ 63" "2 ^ 63 \<le> int (unat secs) * 1000000"
    using turns_keep [where R = "\<lambda>s t. db t = db s" and ok = "\<lambda>_. True" and m = "reset_capacities env pg cfg"]
      reset_out_of_range [OF assms(1) that] by auto
  with assms(2) Inr show ?thesis by (auto simp: start_capacity_reset_cron_def with_config_def)
qed

end
