(* ===== verification/Capacity.thy ===== *)
theory Capacity
  imports Stake_Watcher Capacity_Reset Rewardz_Publisher
begin

section \<open>Capacity: the stake watcher and the capacity reset together\<close>

text \<open>
  The two crons write the same columns of \<open>protocols\<close>. Their ticks, and the other programs on
  the database, are the steps of one relation; over every interleaving of the steps a protocol
  is unlocked by its stake at most once, and the moment of its unlock never moves. A second
  watcher on the same tables takes this away.
\<close>

subsection \<open>Steps\<close>

definition keeps_marker :: "protocol \<Rightarrow> protocol \<Rightarrow> bool" where
  "keeps_marker p q \<longleftrightarrow>
     p_id q = p_id p \<and> (is_unlocked p \<longrightarrow> p_capacity_unlocked_at q = p_capacity_unlocked_at p)"

definition markers_kept :: "database \<Rightarrow> database \<Rightarrow> bool" where
  "markers_kept d e \<longleftrightarrow> list_all2 keeps_marker (protocols d) (protocols e)"

definition unrelated_write :: "database \<Rightarrow> database \<Rightarrow> bool" where
  \<comment> \<open>another program wrote, but no marker and no unlock event\<close>
  "unrelated_write d e \<longleftrightarrow>
     list_all2 (\<lambda>p q. p_id q = p_id p \<and> p_capacity_unlocked_at q = p_capacity_unlocked_at p) (protocols d) (protocols e)
     \<and> (\<forall>i. unlocks i e = unlocks i d)"

inductive capacity_step ::
    "environment \<Rightarrow> sdk \<Rightarrow> league_config \<Rightarrow> pubkey \<Rightarrow> 'w app \<Rightarrow> 'w app \<Rightarrow> bool"
  for env sdk cfg program_id where
  watch: "no_other_writers pg \<Longrightarrow>
    capacity_step env sdk cfg program_id s (snd (stake_tick sdk r pg cfg program_id s))"
| reset: "no_other_writers pg \<Longrightarrow>
    capacity_step env sdk cfg program_id s (snd (reset_capacities env pg cfg s))"
| others: "unrelated_write (db s) d \<Longrightarrow> capacity_step env sdk cfg program_id s (s\<lparr>world := w, db := d\<rparr>)"

inductive_cases capacity_stepE: "capacity_step env sdk cfg program_id s t"

subsection \<open>The invariant and the order\<close>

lemma keeps_marker_refl [simp]: "keeps_marker p p"
  by (simp add: keeps_marker_def)

lemma markers_kept_refl [simp]: "markers_kept d d"
  by (simp add: markers_kept_def list_all2_refl)

lemma markers_kept_trans: "markers_kept d e \<Longrightarrow> markers_kept e f \<Longrightarrow> markers_kept d f"
  unfolding markers_kept_def by (rule list_all2_trans [of keeps_marker keeps_marker keeps_marker])
    (auto simp: keeps_marker_def is_unlocked_def)

lemma same_capacity_markers: "same_capacity d e \<Longrightarrow> markers_kept d e"
  unfolding same_capacity_def markers_kept_def
  by (erule list_all2_mono) (auto simp: keeps_unlocked_def keeps_marker_def)

lemma unrelated_write_keeps:
  assumes "unrelated_write d e" "unlock_inv d"
  shows "unlock_inv e \<and> markers_kept d e"
proof -
  have all2: "list_all2 (\<lambda>p q. p_id q = p_id p \<and> p_capacity_unlocked_at q = p_capacity_unlocked_at p) (protocols d) (protocols e)"
    and events: "unlocks i e = unlocks i d" for i
    using assms(1) by (auto simp: unrelated_write_def)
  from all2 have ids: "map p_id (protocols e) = map p_id (protocols d)"
    by (auto simp: list_all2_conv_all_nth intro!: nth_equalityI)
  have "unlocks (p_id q) e \<le> (if is_unlocked q then 1 else 0)" if q: "q \<in> set (protocols e)" for q
  proof -
    from q obtain k where k: "k < length (protocols e)" "protocols e ! k = q" by (auto simp: in_set_conv_nth)
    then have "k < length (protocols d)" "p_id q = p_id (protocols d ! k)" "is_unlocked q = is_unlocked (protocols d ! k)"
      using all2 by (auto simp: list_all2_conv_all_nth is_unlocked_def)
    with assms(2) show ?thesis by (simp add: unlock_inv_def events)
  qed
  with assms(2) ids have "unlock_inv e" by (simp add: unlock_inv_def)
  moreover have "markers_kept d e"
    using all2 unfolding markers_kept_def by (rule list_all2_mono) (auto simp: keeps_marker_def)
  ultimately show ?thesis by simp
qed

lemma reset_is_unrelated:
  assumes "no_other_writers pg"
  shows "unrelated_write (db s) (db (snd (reset_capacities env pg cfg s)))"
proof -
  have refl: "unrelated_write d d" for d by (simp add: unrelated_write_def list_all2_refl)
  have step: "unrelated_write d e" if "reset_statement b c now d = Inr (x, e)" for b c now d e x
    using that by (auto simp: reset_statement_def unrelated_write_def list_all2_conv_all_nth unlocks_def Let_def
        split: if_splits)
  show ?thesis
  proof (cases "override_secs env")
    case (Inl f)
    then show ?thesis by (simp add: reset_capacities_def refl)
  next
    case (Inr secs)
    obtain res t where run: "reset_capacities env pg cfg s = (res, t)" by (cases "reset_capacities env pg cfg s")
    with execute_outcome [OF assms] step refl show ?thesis
      unfolding reset_capacities_eq [OF Inr] by (metis snd_conv)
  qed
qed

lemma capacity_step_inv:
  assumes "unlock_inv (db s)" "capacity_step env sdk cfg program_id s t"
  shows "unlock_inv (db t) \<and> markers_kept (db s) (db t)"
  using assms(2)
proof cases
  case (watch pg r)
  then have "stake_tick sdk r pg cfg program_id s = (fst (stake_tick sdk r pg cfg program_id s), t)" by simp
  from stake_tick_inv [OF watch(2) assms(1) this] show ?thesis by (auto intro: same_capacity_markers)
next
  case (reset pg)
  with unrelated_write_keeps [OF reset_is_unrelated assms(1)] show ?thesis by simp
next
  case (others d w)
  with unrelated_write_keeps [OF _ assms(1)] show ?thesis by simp
qed

interpretation capacity: ordered_system
    "capacity_step env sdk cfg program_id" "\<lambda>s. unlock_inv (db s)" "\<lambda>s t. markers_kept (db s) (db t)"
  for env sdk cfg program_id
  using capacity_step_inv by unfold_locales (blast intro: markers_kept_trans markers_kept_refl)+

text \<open>
  C13: a stake unlocks a protocol's capacity once. Along every interleaving of ticks of the
  watcher, resets and writes of other programs, with round trips failing anywhere, a protocol
  has at most one unlock event, none while its marker is empty, and once the marker is set it
  keeps its value: what comes in after that is the grant of a reset and never the stake again.
\<close>

theorem capacity_unlocked_once:
  assumes "(capacity_step env sdk cfg program_id)\<^sup>*\<^sup>* s t" and "unlock_inv (db s)"
  shows "length (protocols (db t)) = length (protocols (db s))
    \<and> (\<forall>k < length (protocols (db s)).
        let p = protocols (db s) ! k; q = protocols (db t) ! k in
          p_id q = p_id p \<and> unlocks (p_id q) (db t) \<le> (if p_capacity_unlocked_at q = None then 0 else 1)
          \<and> (p_capacity_unlocked_at p \<noteq> None \<longrightarrow> p_capacity_unlocked_at q = p_capacity_unlocked_at p))"
proof -
  have inv: "unlock_inv (db t)" and kept: "markers_kept (db s) (db t)"
    using capacity.reachable_inv [OF assms] capacity.reachable_grows [OF assms] by auto
  have events: "unlocks (p_id (protocols (db t) ! k)) (db t) \<le> (if p_capacity_unlocked_at (protocols (db t) ! k) = None then 0 else 1)"
    if "k < length (protocols (db t))" for k
    using inv nth_mem [OF that] by (auto simp: unlock_inv_def is_unlocked_def)
  have mark: "keeps_marker (protocols (db s) ! k) (protocols (db t) ! k)" if "k < length (protocols (db s))" for k
    using kept that by (auto simp: markers_kept_def list_all2_conv_all_nth)
  have len: "length (protocols (db t)) = length (protocols (db s))"
    using kept by (simp add: markers_kept_def list_all2_lengthD)
  show ?thesis
    using events mark unfolding Let_def len keeps_marker_def is_unlocked_def by blast
qed

subsection \<open>Concrete runs\<close>

definition staked_account :: bytes where
  \<comment> \<open>a stake of 7 and a rented stake of 5\<close>
  "staked_account = replicate 34 0 @ u64_le 7 @ u64_le 5"

definition staking_node :: "unit rpc" where
  "staking_node = open_rpc (\<lambda>k. Some staked_account)"

lemma one_protocol_unlock_inv [simp]: "unlock_inv one_protocol"
  by (simp add: unlock_inv_def unlocks_def is_unlocked_def one_protocol_def empty_db_def)

theorem stake_tick_never_refills_witness:
  "same_capacity (one_protocol\<lparr>protocols := [unlocked_with 3 500 league_protocol]\<rparr>)
     (db (snd (stake_tick key_sdk staking_node quiet_pg DEVNET []
        (app_of () (one_protocol\<lparr>protocols := [unlocked_with 3 500 league_protocol]\<rparr>)))))"
proof -
  let ?s = "app_of () (one_protocol\<lparr>protocols := [unlocked_with 3 500 league_protocol]\<rparr>)"
  have "unlock_inv (db ?s)" by (simp add: one_protocol_def empty_db_def unlock_inv_def unlocks_def)
  from stake_tick_never_refills [OF quiet_pg_simps(1) this] show ?thesis by simp
qed

theorem apply_sample_effect_witness:
  "map p_remaining_capacity (protocols (db (snd (apply_sample quiet_pg DEVNET 1 12 None False (app_of () one_protocol)))))
   = [Some 120]"
proof -
  obtain res t where run: "apply_sample quiet_pg DEVNET 1 12 None False (app_of () one_protocol) = (res, t)"
    by (cases "apply_sample quiet_pg DEVNET 1 12 None False (app_of () one_protocol)")
  have "\<not> (\<not> first_unlock 12 False \<and> (None :: int option) = Some (clamp_i64 (unat (12 :: u64))))" by simp
  from apply_sample_effect [OF quiet_pg this run] have "protocols (db t) = [league_protocol
      \<lparr>p_active_stake := Some 12, p_remaining_capacity := Some 120,
        p_capacity_window_start := Some 1000, p_capacity_unlocked_at := Some 1000\<rparr>]"
    by (simp add: first_unlock_def DEVNET_def quiet_pg_def)
  then show ?thesis by (simp add: run)
qed

lemma no_override [simp]: "override_secs devnet_env = Inr None"
  by (simp add: override_secs_def devnet_env_def)

lemma DEVNET_grants [simp]: "grants_fit DEVNET None" "window_micros DEVNET None = 604800000000"
  by (simp_all add: grants_fit_def window_micros_def reset_cadence_secs_def cadence_secs_def DEVNET_def)


theorem reset_override_rejected_witness:
  "db (snd (start_capacity_reset_cron (devnet_env(''LEAGUE_CAPACITY_RESET_OVERRIDE_SECS'' \<mapsto> ''weekly''))
     quiet_pg 5 (app_of () one_protocol))) = one_protocol"
proof -
  have "parse_u64 ''weekly'' = None" by code_simp
  then have "override_secs (devnet_env(''LEAGUE_CAPACITY_RESET_OVERRIDE_SECS'' \<mapsto> ''weekly'')) =
      Inl (Panic ''LEAGUE_CAPACITY_RESET_OVERRIDE_SECS must be u64'')"
    by (simp add: override_secs_def)
  then show ?thesis using reset_override_rejected [OF quiet_pg_simps(1)] by simp
qed

theorem capacity_unlocked_once_witness:
  "unlocks 1 (db (snd (reset_capacities devnet_env quiet_pg DEVNET
     (snd (stake_tick key_sdk staking_node quiet_pg DEVNET [] (app_of () one_protocol)))))) \<le> 1"
proof -
  let ?s = "app_of () one_protocol"
  let ?t = "snd (stake_tick key_sdk staking_node quiet_pg DEVNET [] ?s)"
  let ?u = "snd (reset_capacities devnet_env quiet_pg DEVNET ?t)"
  have "capacity_step devnet_env key_sdk DEVNET [] ?s ?t" "capacity_step devnet_env key_sdk DEVNET [] ?t ?u"
    by (simp_all add: capacity_step.intros)
  then have "(capacity_step devnet_env key_sdk DEVNET [])\<^sup>*\<^sup>* ?s ?u" by (meson converse_rtranclp_into_rtranclp rtranclp.rtrancl_refl)
  from capacity_unlocked_once [OF this] show ?thesis by (auto simp: Let_def split: if_splits)
qed

subsection \<open>Two watchers\<close>

text \<open>
  \<open>capacity_unlocked_once\<close> is about one watcher. The unlock is decided on the row that the tick
  read at its start and the statement has no guard of its own, so when another watcher unlocks the
  protocol between that read and this transaction, the capacity is unlocked again: there are two
  unlock events more, and the marker moves.
\<close>

lemma markers_sampled:
  assumes "0 < stake" and "p \<in> set (protocols (sampled cfg now i stake False d))" and "p_id p = i"
  shows "p_capacity_unlocked_at p = Some now"
proof -
  let ?f = "\<lambda>q. if p_id q = i then unlocked_with (new_capacity cfg stake) now (mirrored stake q) else q"
  have "protocols (sampled cfg now i stake False d) = map ?f (protocols d)"
    using assms(1) by (simp add: protocols_sampled first_unlock_def)
  with assms(2) have "p \<in> ?f ` set (protocols d)" by (simp only: set_map)
  then obtain q where "p = ?f q" by (rule imageE)
  with assms(3) show ?thesis by (cases "p_id q = i") (simp_all add: unlocked_with_def)
qed

theorem overlapping_watchers_unlock_twice:
  assumes "quiet other" and "0 < stake"
    and "\<And>w. pg_others pg w (db s) = db (snd (apply_sample other cfg i stake prev False (app_of v (db s))))"
    and "apply_sample pg cfg i stake prev False s = (Inr unlocked, t)"
  shows "unlocked \<and> unlocks i (db t) = unlocks i (db s) + 2
    \<and> (\<exists>now. \<forall>p \<in> set (protocols (db t)). p_id p = i \<longrightarrow> p_capacity_unlocked_at p = Some now)"
proof -
  have first: "first_unlock stake False" using assms(2) by (simp add: first_unlock_def)
  then have run: "transaction pg (sample_body pg cfg i stake True) s = (Inr unlocked, t)"
    using assms(4) by (simp add: apply_sample_eq)
  have other: "pg_others pg w (db s) = sampled cfg (pg_now other v) i stake False (db s)" for w
    using assms(3) first by (simp add: quiet_apply_sample [OF assms(1)])
  from run obtain now b u where body: "sample_body pg cfg i stake True now b = (Inr unlocked, u)"
    and t: "db t = db u" and b: "db b = pg_others pg (world b) (db s)"
    by (auto elim: transaction_Inr)
  from sample_body_Inr [of pg cfg i stake False now b unlocked u] body first
  have "unlocked" "db u = sampled cfg now i stake False (db b)" by simp_all
  moreover have "unlocks i (db b) = Suc (unlocks i (db s))"
    using b other first by (simp add: unlocks_sampled)
  ultimately show ?thesis
    using t first markers_sampled [OF assms(2), of _ cfg now i "db b"] by (auto simp: unlocks_sampled)
qed

definition racing_pg :: "unit pg" where
  \<comment> \<open>another watcher applies the same sample before the transaction of this one\<close>
  "racing_pg = quiet_pg\<lparr>pg_others := (\<lambda>w d. db (snd (apply_sample quiet_pg DEVNET 1 12 None False (app_of () d))))\<rparr>"

lemma app_unit: "s\<lparr>world := ()\<rparr> = (s :: unit app)"
  by (cases s) simp

theorem overlapping_watchers_unlock_twice_witness:
  "unlocks 1 (db (snd (apply_sample racing_pg DEVNET 1 12 None False (app_of () one_protocol)))) = 2"
proof -
  have trip: "andThen (round_trip racing_pg) f = f ()" for f :: "unit \<Rightarrow> (unit app, 'a) prog"
    by (simp add: fun_eq_iff andThen_def round_trip_def racing_pg_def quiet_pg_def app_unit)
  have "\<exists>t. apply_sample racing_pg DEVNET 1 stake None False s = (Inr True, t)" if "0 < stake" for stake s
    using that by (simp add: apply_sample_eq first_unlock_def transaction_def begin_tx_def sample_body_def
        execute_in_def trip commit_def) (simp add: see_others_def run_statement_def or_rollback_def andThen_def
        ret_def mirror_stake_eq unlock_capacity_eq insert_event_def)
  from this [of 12] obtain t where
    run: "apply_sample racing_pg DEVNET 1 12 None False (app_of () one_protocol) = (Inr True, t)" by auto
  have "pg_others racing_pg w (db (app_of () one_protocol)) =
      db (snd (apply_sample quiet_pg DEVNET 1 12 None False (app_of () (db (app_of () one_protocol)))))" for w
    by (simp add: racing_pg_def)
  from overlapping_watchers_unlock_twice [OF quiet_pg _ this run] run show ?thesis
    by (simp add: unlocks_def [of 1 one_protocol])
qed

end
