(* ===== verification/Engagement.thy ===== *)
theory Engagement
  imports Database
begin

section \<open>Engagement: the aggregates over \<open>point_events\<close> that the league's SQL shares\<close>

text \<open>
  The visibility tick, the quality score, the milestones, the leaderboard and the abuse
  detectors all count the events of a protocol, the distinct wallets behind them, and the
  wallets whose events span a gap. Their SQL repeats the same subqueries; here each is one
  definition.
\<close>

definition events_of :: "uuid \<Rightarrow> database \<Rightarrow> point_event list" where
  "events_of i d = filter (\<lambda>e. pe_protocol_id e = i) (point_events d)"

definition since :: "time \<Rightarrow> point_event list \<Rightarrow> point_event list" where
  "since t es = filter (\<lambda>e. t \<le> pe_created_at e) es"

definition not_by :: "string \<Rightarrow> point_event list \<Rightarrow> point_event list" where
  "not_by wallet es = filter (\<lambda>e. pe_user_wallet e \<noteq> wallet) es"

definition distinct_wallets :: "point_event list \<Rightarrow> string list" where
  "distinct_wallets es = remdups (map pe_user_wallet es)"

definition times_of :: "string \<Rightarrow> point_event list \<Rightarrow> time list" where
  "times_of wallet es = map pe_created_at (filter (\<lambda>e. pe_user_wallet e = wallet) es)"

definition span :: "time list \<Rightarrow> int" where
  \<comment> \<open>\<open>MAX(created_at) - MIN(created_at)\<close> of a group\<close>
  "span ts = Max (set ts) - Min (set ts)"

definition repeat_wallets :: "int \<Rightarrow> point_event list \<Rightarrow> string list" where
  "repeat_wallets gap es = filter (\<lambda>w. gap \<le> span (times_of w es)) (distinct_wallets es)"

definition hours24 :: int where
  \<comment> \<open>\<open>INTERVAL '24 hours'\<close>\<close>
  "hours24 = 24 * 3600000000"

definition last_event :: "uuid \<Rightarrow> database \<Rightarrow> time option" where
  "last_event i d =
     (case map pe_created_at (events_of i d) of [] \<Rightarrow> None | t # ts \<Rightarrow> Some (Max (set (t # ts))))"

definition open_flags :: "uuid \<Rightarrow> database \<Rightarrow> abuse_flag list" where
  "open_flags i d = filter (\<lambda>a. af_protocol_id a = i \<and> af_resolved_at a = None) (abuse_flags d)"

definition active_protocols :: "database \<Rightarrow> protocol list" where
  "active_protocols d = filter (\<lambda>p. p_status p = ''active'') (protocols d)"

subsection \<open>Counting wallets\<close>

lemma distinct_distinct_wallets [simp]: "distinct (distinct_wallets es)"
  by (simp add: distinct_wallets_def)

lemma set_distinct_wallets [simp]: "set (distinct_wallets es) = pe_user_wallet ` set es"
  by (simp add: distinct_wallets_def)

lemma distinct_repeat_wallets [simp]: "distinct (repeat_wallets gap es)"
  by (simp add: repeat_wallets_def)

lemma repeat_wallets_le: "length (repeat_wallets gap es) \<le> length (distinct_wallets es)"
  by (simp add: repeat_wallets_def)

lemma distinct_wallets_Nil_iff [simp]: "distinct_wallets es = [] \<longleftrightarrow> es = []"
  by (simp add: distinct_wallets_def)

text \<open>A wallet repeats only by two events at least that are the gap apart.\<close>

lemma repeat_wallet_events:
  assumes "w \<in> set (repeat_wallets gap es)"
  shows "\<exists>a \<in> set es. \<exists>b \<in> set es. pe_user_wallet a = w \<and> pe_user_wallet b = w
    \<and> gap \<le> pe_created_at b - pe_created_at a"
proof -
  let ?ts = "times_of w es"
  have "w \<in> pe_user_wallet ` set es" and gap: "gap \<le> span ?ts"
    using assms by (auto simp: repeat_wallets_def)
  then have "set ?ts \<noteq> {}" by (auto simp: times_of_def)
  then have "Max (set ?ts) \<in> set ?ts" "Min (set ?ts) \<in> set ?ts" by (auto intro: Max_in Min_in)
  then obtain a b where "a \<in> set es" "pe_user_wallet a = w" "pe_created_at a = Min (set ?ts)"
    and "b \<in> set es" "pe_user_wallet b = w" "pe_created_at b = Max (set ?ts)"
    unfolding times_of_def by force
  with gap show ?thesis unfolding span_def by metis
qed

lemma repeat_wallets_ge:
  assumes "a \<in> set es" "b \<in> set es" "pe_user_wallet a = w" "pe_user_wallet b = w"
    "gap \<le> pe_created_at b - pe_created_at a"
  shows "w \<in> set (repeat_wallets gap es)"
proof -
  let ?ts = "times_of w es"
  have "pe_created_at a \<in> set ?ts" "pe_created_at b \<in> set ?ts"
    using assms by (auto simp: times_of_def)
  then have "Min (set ?ts) \<le> pe_created_at a" "pe_created_at b \<le> Max (set ?ts)" by auto
  with assms show ?thesis by (auto simp: repeat_wallets_def span_def)
qed

lemma last_event_None: "last_event i d = None \<longleftrightarrow> events_of i d = []"
  by (auto simp: last_event_def split: list.splits)

end
