(* ===== verification/Visibility_Tick.thy ===== *)
theory Visibility_Tick
  imports Engagement League_Config Db
begin

section \<open>visibility\_tick.rs: the state machine of a protocol's visibility\<close>

text \<open>
  \<^verbatim>\<open>src/src/visibility_tick.rs\<close>: one pass reads the signals of every active protocol, decides
  its visibility from them, and writes each change together with a row of the timeline. The
  hours since the last event are an expression of the server; where its \<open>EXTRACT\<close> is a
  \<open>numeric\<close>, decoding them as \<open>f64\<close> is an error.
\<close>

definition BLINK_HEALTH_QUALITY_FLOOR :: f64 where
  "BLINK_HEALTH_QUALITY_FLOOR = to_f64 (2 / 10)"

datatype visibility = Active | AtRisk | Hidden

definition from_db :: "string \<Rightarrow> visibility" where
  "from_db s =
     (if s = ''active'' then Active
      else if s = ''at_risk'' then AtRisk
      else if s = ''hidden'' then Hidden
      else AtRisk)"

definition as_db :: "visibility \<Rightarrow> string" where
  "as_db v = (case v of Active \<Rightarrow> ''active'' | AtRisk \<Rightarrow> ''at_risk'' | Hidden \<Rightarrow> ''hidden'')"

definition level :: "visibility \<Rightarrow> string" where
  "level v = (case v of Active \<Rightarrow> ''info'' | AtRisk \<Rightarrow> ''warning'' | Hidden \<Rightarrow> ''critical'')"

record snapshot =
  sn_protocol_id :: uuid
  sn_current :: visibility
  sn_capacity_pct :: f64
  sn_hours_since_last_event :: "f64 option"
  sn_open_high_flag :: bool
  sn_open_any_flag :: bool
  sn_quality_score :: f64

definition decide :: "snapshot \<Rightarrow> league_config \<Rightarrow> visibility" where
  "decide snap cfg =
     (let inactivity = (case sn_hours_since_last_event snap of Some h \<Rightarrow> h | None \<Rightarrow> PosInf) in
      if f64_le (f64_of_int (uint (lc_inactivity_window_hours cfg))) inactivity \<or> sn_open_high_flag snap
      then Hidden
      else
        let warning_threshold =
              (case lc_capacity_warning_thresholds cfg of x # _ \<Rightarrow> x | [] \<Rightarrow> NegInf);
            blink_health_unhealthy = f64_le (sn_quality_score snap) BLINK_HEALTH_QUALITY_FLOOR;
            at_risk =
              (f64_le (sn_capacity_pct snap) warning_threshold
               \<or> sn_open_any_flag snap
               \<or> f64_le (f64_of_int (uint (lc_activity_window_hours cfg))) inactivity
               \<or> blink_health_unhealthy)
        in if at_risk then AtRisk else Active)"

subsection \<open>The snapshots\<close>

definition day_micros :: int where
  "day_micros = 86400000000"

definition extract_epoch :: "int \<Rightarrow> f64" where
  \<comment> \<open>\<open>EXTRACT(EPOCH FROM interval)\<close> in \<open>float8\<close>, of the difference of two timestamps: the
     interval keeps whole days apart from the time of day\<close>
  "extract_epoch micros =
     (let days = sgn micros * (\<bar>micros\<bar> div day_micros);
          rest = sgn micros * (\<bar>micros\<bar> mod day_micros) in
      f64_add (to_f64 (of_int rest / 1000000)) (f64_of_int (days * 86400)))"

definition capacity_pct :: "f64 \<Rightarrow> int option \<Rightarrow> f64" where
  "capacity_pct baseline remaining =
     (case remaining of
        None \<Rightarrow> Fin 1
      | Some r \<Rightarrow>
          if baseline = Fin 0 then Fin 0
          else min (f64_div (f64_of_int r) baseline) (Fin 1))"

definition snapshot_of :: "f64 \<Rightarrow> time \<Rightarrow> database \<Rightarrow> protocol \<Rightarrow> snapshot" where
  \<comment> \<open>a row of the query, decoded\<close>
  "snapshot_of baseline now d p =
     \<lparr>sn_protocol_id = p_id p,
      sn_current = from_db (p_visibility p),
      sn_capacity_pct = capacity_pct baseline (p_remaining_capacity p),
      sn_hours_since_last_event =
        map_option (\<lambda>t. f64_div (extract_epoch (now - t)) (Fin 3600)) (last_event (p_id p) d),
      sn_open_high_flag = (\<exists>a \<in> set (open_flags (p_id p) d). af_severity a = ''high''),
      sn_open_any_flag = (open_flags (p_id p) d \<noteq> []),
      sn_quality_score = (case p_quality_score p of Some q \<Rightarrow> to_f64 q | None \<Rightarrow> Fin 1)\<rparr>"

definition load_snapshots :: "'w pg \<Rightarrow> league_config \<Rightarrow> ('w app, snapshot list) prog" where
  "load_snapshots pg cfg =
     (let baseline = f64_of_int (uint (lc_starter_grant_rewardz cfg)) in
      andThen (execute pg (\<lambda>now d. Inr (map (snapshot_of baseline now d) (active_protocols d), d))) (\<lambda>rows.
      if \<not> pg_extract_float8 pg \<and> (\<exists>row \<in> set rows. sn_hours_since_last_event row \<noteq> None)
      then throw ''mismatched types: hours_since_last_event''
      else ret rows))"

definition visibility_event :: "snapshot \<Rightarrow> visibility \<Rightarrow> protocol_event" where
  "visibility_event snap next_v =
     \<lparr>ev_protocol_id = sn_protocol_id snap, ev_kind = ''visibility_change'', ev_level = level next_v,
      ev_payload = JObj
        [(''from'', JStr (as_db (sn_current snap))),
         (''to'', JStr (as_db next_v)),
         (''capacity_pct'', json_f64 (sn_capacity_pct snap)),
         (''hours_since_last_event'',
            (case sn_hours_since_last_event snap of Some h \<Rightarrow> json_f64 h | None \<Rightarrow> JNull)),
         (''open_high_flag'', JBool (sn_open_high_flag snap)),
         (''open_any_flag'', JBool (sn_open_any_flag snap)),
         (''quality_score'', json_f64 (sn_quality_score snap))]\<rparr>"

definition set_visibility :: "uuid \<Rightarrow> string \<Rightarrow> unit statement" where
  "set_visibility i v now d = Inr ((), update_protocol i (\<lambda>p. p\<lparr>p_visibility := v\<rparr>) d)"

definition apply_transition :: "'w pg \<Rightarrow> snapshot \<Rightarrow> visibility \<Rightarrow> ('w app, unit) prog" where
  "apply_transition pg snap next_v =
     transaction pg (\<lambda>now.
       andThen (execute_in pg now (set_visibility (sn_protocol_id snap) (as_db next_v))) (\<lambda>_.
       execute_in pg now (insert_event (visibility_event snap next_v))))"

fun transition_each ::
    "'w pg \<Rightarrow> league_config \<Rightarrow> snapshot list \<Rightarrow> nat \<Rightarrow> ('w app, nat) prog" where
  "transition_each pg cfg [] transitions = ret transitions"
| "transition_each pg cfg (snap # snaps) transitions =
     (let next_v = decide snap cfg in
      if next_v = sn_current snap then transition_each pg cfg snaps transitions
      else
        andThen (attempt (apply_transition pg snap next_v)) (\<lambda>applied.
        transition_each pg cfg snaps
          (case applied of Inr _ \<Rightarrow> transitions + 1 | Inl _ \<Rightarrow> transitions)))"

definition visibility_tick :: "'w pg \<Rightarrow> league_config \<Rightarrow> ('w app, nat) prog" where
  "visibility_tick pg cfg =
     andThen (load_snapshots pg cfg) (\<lambda>snapshots. transition_each pg cfg snapshots 0)"

definition start_visibility_tick_cron :: "environment \<Rightarrow> 'w pg \<Rightarrow> nat \<Rightarrow> ('w app, unit) prog" where
  "start_visibility_tick_cron env pg n = league_cron env (visibility_tick pg) n"

subsection \<open>The decision\<close>

text \<open>The visibilities are ordered by how much they hide.\<close>

instantiation visibility :: linorder
begin

fun severity :: "visibility \<Rightarrow> nat" where
  "severity Active = 0"
| "severity AtRisk = 1"
| "severity Hidden = 2"

definition less_eq_visibility :: "visibility \<Rightarrow> visibility \<Rightarrow> bool" where
  "less_eq_visibility v w \<longleftrightarrow> severity v \<le> severity w"

definition less_visibility :: "visibility \<Rightarrow> visibility \<Rightarrow> bool" where
  "less_visibility v w \<longleftrightarrow> severity v < severity w"

instance
proof
  fix x y z :: visibility
  show "x < y \<longleftrightarrow> x \<le> y \<and> \<not> y \<le> x" by (auto simp: less_eq_visibility_def less_visibility_def)
  show "x \<le> x" by (simp add: less_eq_visibility_def)
  show "x \<le> y \<Longrightarrow> y \<le> z \<Longrightarrow> x \<le> z" by (simp add: less_eq_visibility_def)
  show "x \<le> y \<Longrightarrow> y \<le> x \<Longrightarrow> x = y" by (cases x; cases y) (auto simp: less_eq_visibility_def)
  show "x \<le> y \<or> y \<le> x" by (auto simp: less_eq_visibility_def)
qed

end

lemma from_db_as_db [simp]: "from_db (as_db v) = v"
  by (cases v) (simp_all add: from_db_def as_db_def)

lemma decide_newcomer: "sn_hours_since_last_event snap = None \<Longrightarrow> decide snap cfg = Hidden"
  by (simp add: decide_def)

subsection \<open>The thresholds in exact arithmetic\<close>

lemma days_le_div: "days \<le> m div day_micros \<longleftrightarrow> days * day_micros \<le> (m :: int)"
proof -
  have split: "m = m div day_micros * day_micros + m mod day_micros" "0 \<le> m mod day_micros" "m mod day_micros < day_micros"
    by (simp_all add: day_micros_def)
  have "days \<le> q \<longleftrightarrow> days * k \<le> q * k + r" if "0 \<le> r" "r < k" for q r k :: int
  proof
    assume "days \<le> q"
    with that have "days * k \<le> q * k" by (intro mult_right_mono) auto
    with that(1) show "days * k \<le> q * k + r" by linarith
  next
    assume "days * k \<le> q * k + r"
    with that have "days * k < (q + 1) * k" by (simp add: algebra_simps)
    with that show "days \<le> q" by (simp add: mult_less_cancel_right)
  qed
  from this [OF split(2,3), of "m div day_micros"] split(1) show ?thesis by simp
qed

definition hours_of :: "int \<Rightarrow> f64" where
  "hours_of micros = f64_div (extract_epoch micros) (Fin 3600)"

lemma hours_of_eq:
  assumes "0 \<le> m" "m < 2 ^ 63"
  shows "hours_of m = Fin (fl (fl (fl (of_int (m mod day_micros) / 1000000) + of_int (m div day_micros * 86400)) / 3600))"
    and "0 \<le> fl (of_int (m mod day_micros) / 1000000)"
    and "fl (of_int (m mod day_micros) / 1000000) \<le> 86400 - 1 / 2 ^ 20"
proof -
  let ?r = "of_int (m mod day_micros) / 1000000 :: rat"
  have r: "0 \<le> m mod day_micros" "m mod day_micros \<le> day_micros - 1"
    by (simp_all add: day_micros_def)
  then have "(of_int (m mod day_micros) :: rat) \<le> of_int (day_micros - 1)" by (simp only: of_int_le_iff)
  then have "?r \<le> of_int (86400 * 2 ^ 20 - 1) / 2 ^ 20" by (simp add: day_micros_def)
  then have up: "fl ?r \<le> of_int (86400 * 2 ^ 20 - 1) / 2 ^ 20" by (rule fl_le_dyadic) simp_all
  then show le: "fl ?r \<le> 86400 - 1 / 2 ^ 20" by simp
  have nonneg: "0 \<le> ?r" using r by simp
  then show ge: "0 \<le> fl ?r" by (rule b64.rnd_nonneg)
  let ?d = "m div day_micros * 86400"
  have d: "0 \<le> ?d" "?d \<le> 2 ^ 44 - 86400"
    using assms days_le_div [of 0 m] days_le_div [of 106751992 m]
    by (simp_all add: day_micros_def)
  have s: "to_f64 ?r = Fin (fl ?r)"
    using nonneg up r by (intro to_f64_small) (auto simp: day_micros_def)
  have dd: "f64_of_int ?d = Fin (of_int ?d)"
    using d by (intro f64_of_int_exact) auto
  have dq: "(of_int ?d :: rat) \<le> of_int (2 ^ 44 - 86400)" "(0 :: rat) \<le> of_int ?d"
    using d by (simp_all only: of_int_le_iff of_int_0_le_iff)
  have sum: "0 \<le> fl ?r + of_int ?d" "fl ?r + of_int ?d \<le> of_int (2 ^ 44) / 2 ^ 0"
    using ge le dq by simp_all
  have sgn: "sgn m * (\<bar>m\<bar> div day_micros) = m div day_micros" "sgn m * (\<bar>m\<bar> mod day_micros) = m mod day_micros"
    using assms(1) by (cases "m = 0"; simp)+
  have "extract_epoch m = to_f64 (fl ?r + of_int ?d)"
    by (simp add: extract_epoch_def sgn s dd [simplified])
  also have "\<dots> = Fin (fl (fl ?r + of_int ?d))"
    using sum by (intro to_f64_small) simp
  finally have epoch: "extract_epoch m = Fin (fl (fl ?r + of_int ?d))" .
  have "fl (fl ?r + of_int ?d) \<le> of_int (2 ^ 44) / 2 ^ 0"
    using sum(2) by (rule fl_le_dyadic) simp_all
  moreover have "0 \<le> fl (fl ?r + of_int ?d)" using sum(1) by (rule b64.rnd_nonneg)
  ultimately have "to_f64 (fl (fl ?r + of_int ?d) / 3600) = Fin (fl (fl (fl ?r + of_int ?d) / 3600))"
    by (intro to_f64_small) simp
  then show "hours_of m = Fin (fl (fl (fl ?r + of_int ?d) / 3600))"
    by (simp add: hours_of_def epoch)
qed

lemma hours_reach:
  \<comment> \<open>the hours reach a number of days exactly when the microseconds do\<close>
  assumes "0 \<le> m" "m < 2 ^ 63" "0 \<le> days" "days \<le> 1000"
  shows "f64_le (f64_of_int (24 * days)) (hours_of m) \<longleftrightarrow> days * day_micros \<le> m"
proof -
  let ?r = "fl (of_int (m mod day_micros) / 1000000)" and ?d = "m div day_micros * 86400"
  have goal: "f64_le (f64_of_int (24 * days)) (hours_of m) \<longleftrightarrow> of_int (24 * days) \<le> fl (fl (?r + of_int ?d) / 3600)"
    using assms(3,4) by (simp add: hours_of_eq [OF assms(1,2)] f64_of_int_exact)
  show ?thesis
  proof (cases "days * day_micros \<le> m")
    case True
    then have "days \<le> m div day_micros" by (simp only: days_le_div)
    then have "(of_int (days * 86400) :: rat) \<le> of_int ?d" by (simp only: of_int_le_iff)
    then have "of_int (days * 86400) / 2 ^ 0 \<le> ?r + of_int ?d"
      using hours_of_eq(2) [OF assms(1,2)] by simp
    then have "of_int (days * 86400) / 2 ^ 0 \<le> fl (?r + of_int ?d)"
      using assms(3,4) by (intro fl_ge_dyadic) simp_all
    then have "of_int (24 * days) / 2 ^ 0 \<le> fl (?r + of_int ?d) / 3600" by simp
    then have "of_int (24 * days) / 2 ^ 0 \<le> fl (fl (?r + of_int ?d) / 3600)"
      using assms(3,4) by (intro fl_ge_dyadic) simp_all
    with True goal show ?thesis by simp
  next
    case False
    then have "m div day_micros < days" using days_le_div [of days m] by simp
    then have "?d \<le> days * 86400 - 86400" by simp
    then have "(of_int ?d :: rat) \<le> of_int (days * 86400 - 86400)" by (simp only: of_int_le_iff)
    then have "?r + of_int ?d \<le> of_int (days * 86400 * 2 ^ 20 - 1) / 2 ^ 20"
      using hours_of_eq(3) [OF assms(1,2)] by (simp add: field_simps)
    then have "fl (?r + of_int ?d) \<le> of_int (days * 86400 * 2 ^ 20 - 1) / 2 ^ 20"
      using assms(3,4) by (intro fl_le_dyadic) simp_all
    then have "fl (?r + of_int ?d) / 3600 \<le> of_int (24 * days * 2 ^ 32 - 1) / 2 ^ 32" by (simp add: field_simps)
    then have "fl (fl (?r + of_int ?d) / 3600) \<le> of_int (24 * days * 2 ^ 32 - 1) / 2 ^ 32"
      using assms(3,4) by (intro fl_le_dyadic) simp_all
    also have "\<dots> < of_int (24 * days)" by (simp add: field_simps)
    finally show ?thesis using False goal by simp
  qed
qed

lemma capacity_warning_exact:
  assumes "in_i64 r"
  shows "f64_le (capacity_pct (f64_of_int 100) (Some r)) (Fin (1 / 4)) \<longleftrightarrow> r \<le> 25"
proof -
  have r: "\<bar>of_int r :: rat\<bar> \<le> 2 ^ 63"
  proof -
    have "\<bar>r\<bar> \<le> 2 ^ 63" using assms by (auto simp: in_i64_def)
    then have "(of_int \<bar>r\<bar> :: rat) \<le> of_int (2 ^ 63)" by (simp only: of_int_le_iff)
    then show ?thesis by simp
  qed
  then have small: "to_f64 (of_int r) = Fin (fl (of_int r))" by (intro to_f64_small) simp
  have "fl (2 ^ 63) = 2 ^ 63"
    using fl_pos_exact [of 1 63] by (simp add: fl_def power_int_def)
  then have "\<bar>fl (of_int r)\<bar> \<le> 2 ^ 63"
    using r fl_mono [of "of_int r" "2 ^ 63"] fl_mono [of "- (2 ^ 63)" "of_int r"] by (simp add: abs_le_iff fl_minus)
  then have quot: "to_f64 (fl (of_int r) / 100) = Fin (fl (fl (of_int r) / 100))"
    by (intro to_f64_small) (simp add: abs_divide)
  have "fl (fl (of_int r) / 100) \<le> 1 / 4 \<longleftrightarrow> r \<le> 25"
  proof (cases "r \<le> 25")
    case True
    then have "(of_int r :: rat) \<le> of_int 25 / 2 ^ 0" by simp
    then have "fl (of_int r) \<le> of_int 25 / 2 ^ 0" by (rule fl_le_dyadic) simp_all
    then have "fl (of_int r) / 100 \<le> of_int 1 / 2 ^ 2" by simp
    then have "fl (fl (of_int r) / 100) \<le> of_int 1 / 2 ^ 2" by (rule fl_le_dyadic) simp_all
    with True show ?thesis by simp
  next
    case False
    then have "of_int 26 / 2 ^ 0 \<le> (of_int r :: rat)" by simp
    then have "of_int 26 / 2 ^ 0 \<le> fl (of_int r)" by (rule fl_ge_dyadic) simp_all
    then have "of_int 65 / 2 ^ 8 \<le> fl (of_int r) / 100" by simp
    then have "of_int 65 / 2 ^ 8 \<le> fl (fl (of_int r) / 100)" by (rule fl_ge_dyadic) simp_all
    with False show ?thesis by simp
  qed
  moreover have "capacity_pct (f64_of_int 100) (Some r) = Fin (min (fl (fl (of_int r) / 100)) 1)"
    by (simp add: capacity_pct_def f64_of_int_exact [of 100, simplified]) (simp add: f64_of_int_def small quot min_def)
  ultimately show ?thesis by (auto simp: min_def)
qed

lemma quality_floor_exact:
  \<comment> \<open>for a quality of four decimals\<close>
  assumes "0 \<le> k" "k \<le> 100000"
  shows "f64_le (to_f64 (of_int k / 10000)) BLINK_HEALTH_QUALITY_FLOOR \<longleftrightarrow> k \<le> 2000"
proof -
  have k: "(0 :: rat) \<le> of_int k" "(of_int k :: rat) \<le> 100000"
    using assms by simp_all
  then have q: "to_f64 (of_int k / 10000) = Fin (fl (of_int k / 10000))"
    by (intro to_f64_small) simp
  have f: "BLINK_HEALTH_QUALITY_FLOOR = Fin (fl (1 / 5))"
    by (simp add: BLINK_HEALTH_QUALITY_FLOOR_def to_f64_small)
  have "fl (of_int k / 10000) \<le> fl (1 / 5) \<longleftrightarrow> k \<le> 2000"
  proof (cases "k \<le> 2000")
    case True
    then have "(of_int k :: rat) \<le> of_int 2000" by (simp only: of_int_le_iff)
    then have "of_int k / 10000 \<le> (1 / 5 :: rat)" by simp
    with True fl_mono show ?thesis by blast
  next
    case False
    then have "of_int 2001 \<le> (of_int k :: rat)" by (simp only: of_int_le_iff)
    then have "of_int 209800 / 2 ^ 20 \<le> (of_int k / 10000 :: rat)" by simp
    then have "of_int 209800 / 2 ^ 20 \<le> fl (of_int k / 10000)" by (rule fl_ge_dyadic) simp_all
    moreover have "fl (1 / 5) \<le> of_int 209750 / 2 ^ 20" by (rule fl_le_dyadic) simp_all
    ultimately show ?thesis using False by simp
  qed
  then show ?thesis by (simp add: q f)
qed

text \<open>The windows and the thresholds of the devnet.\<close>

lemma DEVNET_visibility [simp]:
  "uint (lc_starter_grant_rewardz DEVNET) = 100"
  "uint (lc_inactivity_window_hours DEVNET) = 336"
  "uint (lc_activity_window_hours DEVNET) = 168"
  "lc_capacity_warning_thresholds DEVNET = [Fin (1 / 4), to_f64 (1 / 10), Fin 0]"
proof -
  have "fl (1 / 4) = 1 / 4" using fl_dyadic [of 1 2] by simp
  then show "lc_capacity_warning_thresholds DEVNET = [Fin (1 / 4), to_f64 (1 / 10), Fin 0]"
    by (simp add: DEVNET_def to_f64_small)
qed (simp_all add: DEVNET_def)

definition idle_for :: "int \<Rightarrow> time \<Rightarrow> time option \<Rightarrow> bool" where
  \<comment> \<open>no event for so many microseconds, or none ever\<close>
  "idle_for period now recent = (case recent of None \<Rightarrow> True | Some t \<Rightarrow> period \<le> now - t)"

definition visibility_rule :: "time \<Rightarrow> database \<Rightarrow> protocol \<Rightarrow> visibility" where
  \<comment> \<open>the devnet's rule on the tables themselves, without floating point\<close>
  "visibility_rule now d p =
     (let flags = open_flags (p_id p) d;
          recent = last_event (p_id p) d in
      if idle_for (14 * day_micros) now recent \<or> (\<exists>a \<in> set flags. af_severity a = ''high'') then Hidden
      else if (\<exists>r. p_remaining_capacity p = Some r \<and> 4 * r \<le> 100) \<or> flags \<noteq> []
              \<or> idle_for (7 * day_micros) now recent \<or> (\<exists>q. p_quality_score p = Some q \<and> q \<le> 1 / 5) then AtRisk
      else Active)"

definition columns_fit :: "protocol \<Rightarrow> bool" where
  \<comment> \<open>a \<open>BIGINT\<close> capacity and a \<open>DECIMAL(5,4)\<close> score\<close>
  "columns_fit p \<longleftrightarrow>
     (\<forall>r \<in> set_option (p_remaining_capacity p). in_i64 r)
     \<and> (\<forall>q \<in> set_option (p_quality_score p). \<exists>k. 0 \<le> k \<and> k \<le> 100000 \<and> q = of_int k / 10000)"

definition clock_ahead :: "time \<Rightarrow> database \<Rightarrow> bool" where
  \<comment> \<open>no event lies in the future, and none more than \<open>2 ^ 63\<close> microseconds back\<close>
  "clock_ahead now d \<longleftrightarrow> (\<forall>e \<in> set (point_events d). 0 \<le> now - pe_created_at e \<and> now - pe_created_at e < 2 ^ 63)"

lemma last_event_in:
  assumes "last_event i d = Some t"
  shows "\<exists>e \<in> set (point_events d). pe_protocol_id e = i \<and> pe_created_at e = t"
proof -
  let ?ts = "map pe_created_at (events_of i d)"
  from assms have "?ts \<noteq> []" "t = Max (set ?ts)" by (auto simp: last_event_def split: list.splits)
  then have "t \<in> set ?ts" using Max_in [of "set ?ts"] by (simp del: set_map)
  then show ?thesis by (auto simp: events_of_def)
qed

lemma idle_hours:
  assumes "clock_ahead now d" "0 \<le> days" "days \<le> 1000"
  shows "f64_le (f64_of_int (24 * days))
      (case map_option (\<lambda>t. f64_div (extract_epoch (now - t)) (Fin 3600)) (last_event i d) of Some h \<Rightarrow> h | None \<Rightarrow> PosInf)
    \<longleftrightarrow> idle_for (days * day_micros) now (last_event i d)"
proof (cases "last_event i d")
  case None
  then show ?thesis by (simp add: idle_for_def)
next
  case (Some t)
  then obtain e where "e \<in> set (point_events d)" "pe_created_at e = t" using last_event_in by blast
  with assms(1) have "0 \<le> now - t" "now - t < 2 ^ 63" by (auto simp: clock_ahead_def)
  with hours_reach [OF this assms(2,3)] Some show ?thesis by (simp add: idle_for_def hours_of_def)
qed

lemma decide_is_rule:
  assumes "clock_ahead now d" "columns_fit p"
  shows "decide (snapshot_of (f64_of_int (uint (lc_starter_grant_rewardz DEVNET))) now d p) DEVNET = visibility_rule now d p"
proof -
  have cap: "f64_le (capacity_pct (f64_of_int 100) (p_remaining_capacity p)) (Fin (1 / 4)) \<longleftrightarrow>
      (\<exists>r. p_remaining_capacity p = Some r \<and> 4 * r \<le> 100)"
  proof (cases "p_remaining_capacity p")
    case None
    then show ?thesis by (simp add: capacity_pct_def)
  next
    case (Some r)
    with assms(2) have "in_i64 r" by (simp add: columns_fit_def)
    from capacity_warning_exact [OF this] Some show ?thesis by auto
  qed
  have qual: "f64_le (case p_quality_score p of Some q \<Rightarrow> to_f64 q | None \<Rightarrow> Fin 1) BLINK_HEALTH_QUALITY_FLOOR \<longleftrightarrow>
      (\<exists>q. p_quality_score p = Some q \<and> q \<le> 1 / 5)"
  proof (cases "p_quality_score p")
    case None
    have "fl (1 / 5) \<le> of_int 1 / 2 ^ 1" by (rule fl_le_dyadic) simp_all
    with None show ?thesis by (simp add: BLINK_HEALTH_QUALITY_FLOOR_def to_f64_small)
  next
    case (Some q)
    with assms(2) obtain k where k: "0 \<le> k" "k \<le> 100000" "q = of_int k / 10000" by (auto simp: columns_fit_def)
    have "q \<le> 1 / 5 \<longleftrightarrow> k \<le> 2000"
      using of_int_le_iff [of k 2000, where ?'a = rat] by (simp add: k(3) field_simps)
    with quality_floor_exact [OF k(1,2), folded k(3)] Some show ?thesis by simp
  qed
  from idle_hours [OF assms(1), of 14 "p_id p"] idle_hours [OF assms(1), of 7 "p_id p"] cap qual show ?thesis
    by (simp add: decide_def snapshot_of_def visibility_rule_def Let_def)
qed

subsection \<open>The timeline\<close>

definition replay_event :: "protocol_event \<Rightarrow> protocol list \<Rightarrow> protocol list" where
  \<comment> \<open>what a row of the timeline says about the visibilities\<close>
  "replay_event e ps =
     (case ev_payload e of
        JObj [_, (_, JStr v), _, _, _, _, _] \<Rightarrow>
          map (\<lambda>p. if p_id p = ev_protocol_id e then p\<lparr>p_visibility := v\<rparr> else p) ps
      | _ \<Rightarrow> ps)"

definition timeline_step :: "database \<Rightarrow> database \<Rightarrow> bool" where
  \<comment> \<open>the new rows of the timeline, replayed, account for every change of a protocol\<close>
  "timeline_step d e \<longleftrightarrow>
     (\<exists>new. protocol_events e = protocol_events d @ new \<and> (\<forall>v \<in> set new. ev_kind v = ''visibility_change'')
        \<and> protocols e = fold replay_event new (protocols d))"

lemma timeline_refl [simp]: "timeline_step d d"
  unfolding timeline_step_def by (rule exI [of _ "[]"]) simp

lemma timeline_trans: "timeline_step d e \<Longrightarrow> timeline_step e f \<Longrightarrow> timeline_step d f"
  unfolding timeline_step_def
proof (elim exE conjE)
  fix a b
  assume "protocol_events e = protocol_events d @ a" "\<forall>v \<in> set a. ev_kind v = ''visibility_change''"
    "protocols e = fold replay_event a (protocols d)"
    "protocol_events f = protocol_events e @ b" "\<forall>v \<in> set b. ev_kind v = ''visibility_change''"
    "protocols f = fold replay_event b (protocols e)"
  then show "\<exists>new. protocol_events f = protocol_events d @ new \<and> (\<forall>v \<in> set new. ev_kind v = ''visibility_change'')
      \<and> protocols f = fold replay_event new (protocols d)"
    by (intro exI [of _ "a @ b"]) auto
qed

definition transitioned :: "snapshot \<Rightarrow> visibility \<Rightarrow> database \<Rightarrow> database" where
  "transitioned snap v d =
     (update_protocol (sn_protocol_id snap) (\<lambda>p. p\<lparr>p_visibility := as_db v\<rparr>) d)
       \<lparr>protocol_events := protocol_events d @ [visibility_event snap v]\<rparr>"

lemma timeline_transitioned: "timeline_step d (transitioned snap v d)"
  unfolding timeline_step_def
  by (rule exI [of _ "[visibility_event snap v]"])
    (simp add: transitioned_def update_protocol_def replay_event_def visibility_event_def)

lemma transition_body_Inr:
  assumes "andThen (execute_in pg now (set_visibility (sn_protocol_id snap) (as_db v))) (\<lambda>_.
      execute_in pg now (insert_event (visibility_event snap v))) s = (Inr x, t)"
  shows "db t = transitioned snap v (db s)"
proof -
  from assms obtain y u where "execute_in pg now (set_visibility (sn_protocol_id snap) (as_db v)) s = (Inr y, u)"
    "execute_in pg now (insert_event (visibility_event snap v)) u = (Inr x, t)" by (rule andThen_Inr)
  from execute_in_Inr [OF this(1)] execute_in_Inr [OF this(2)]
  have "db u = update_protocol (sn_protocol_id snap) (\<lambda>p. p\<lparr>p_visibility := as_db v\<rparr>) (db s)"
    "db t = (db u)\<lparr>protocol_events := protocol_events (db u) @ [visibility_event snap v]\<rparr>"
    by (simp_all add: set_visibility_def insert_event_def)
  then show ?thesis by (simp add: transitioned_def)
qed

lemma apply_transition_outcome:
  assumes "no_other_writers pg" "apply_transition pg snap v s = (res, t)"
  shows "db t = (case res of Inl _ \<Rightarrow> db s | Inr _ \<Rightarrow> transitioned snap v (db s))"
proof (cases res)
  case (Inl e)
  with assms(2) have "transaction pg (\<lambda>now.
       andThen (execute_in pg now (set_visibility (sn_protocol_id snap) (as_db v))) (\<lambda>_.
       execute_in pg now (insert_event (visibility_event snap v)))) s = (Inl e, t)" by (simp add: apply_transition_def)
  from transaction_atomic [OF this] assms(1) Inl show ?thesis by (auto simp: no_other_writers_def)
next
  case (Inr x)
  with assms(2) obtain now u w where "db t = db w" "db u = pg_others pg (world u) (db s)"
    "andThen (execute_in pg now (set_visibility (sn_protocol_id snap) (as_db v))) (\<lambda>_.
       execute_in pg now (insert_event (visibility_event snap v))) u = (Inr x, w)"
    unfolding apply_transition_def by (auto elim: transaction_Inr)
  with transition_body_Inr assms(1) Inr show ?thesis by (fastforce simp: no_other_writers_def)
qed

lemma transition_each_timeline:
  assumes "no_other_writers pg"
  shows "timeline_step (db s) (db (snd (transition_each pg cfg snaps n s)))"
proof (induction snaps arbitrary: n s)
  case Nil
  show ?case by (simp add: ret_def)
next
  case (Cons snap snaps)
  show ?case
  proof (cases "decide snap cfg = sn_current snap")
    case True
    with Cons show ?thesis by simp
  next
    case False
    obtain res t where run: "apply_transition pg snap (decide snap cfg) s = (res, t)"
      by (cases "apply_transition pg snap (decide snap cfg) s")
    from apply_transition_outcome [OF assms run] have step: "timeline_step (db s) (db t)"
      using timeline_transitioned by (auto split: sum.splits)
    have "timeline_step (db t) (db (snd (transition_each pg cfg snaps m t)))" for m by (rule Cons.IH)
    with step run False show ?thesis
      by (auto simp: Let_def andThen_def attempt_def intro: timeline_trans split: sum.splits fault.splits)
  qed
qed

lemma load_snapshots_outcome:
  assumes "no_other_writers pg" "load_snapshots pg cfg s = (res, t)"
  shows "db t = db s" and "res = Inr snaps \<Longrightarrow> \<exists>now. snaps =
    map (snapshot_of (f64_of_int (uint (lc_starter_grant_rewardz cfg))) now (db s)) (active_protocols (db s))"
  using assms by (auto simp: load_snapshots_def execute_def round_trip_def see_others_def run_statement_def
      no_other_writers_def prog_simps Let_def split: prod.splits option.splits sum.splits if_splits)

lemma visibility_tick_timeline:
  assumes "no_other_writers pg"
  shows "timeline_step (db s) (db (snd (visibility_tick pg cfg s)))"
proof -
  obtain res t where load: "load_snapshots pg cfg s = (res, t)" by (cases "load_snapshots pg cfg s")
  with load_snapshots_outcome(1) [OF assms load] transition_each_timeline [OF assms, of t cfg] show ?thesis
    by (auto simp: visibility_tick_def andThen_def split: sum.splits)
qed

text \<open>
  C28: the timeline tells the whole story. Whatever turns the cron takes and whatever round
  trips fail on the way, the rows it adds to the timeline are all changes of visibility, and
  replaying them over the protocols as they were gives the protocols as they are: no
  visibility ever changes without its row, and no row is there without its change.
\<close>

theorem visibility_timeline_replays:
  assumes "no_other_writers pg"
  shows "\<exists>new. protocol_events (db (snd (start_visibility_tick_cron env pg n s))) = protocol_events (db s) @ new
    \<and> (\<forall>e \<in> set new. ev_kind e = ''visibility_change'')
    \<and> protocols (db (snd (start_visibility_tick_cron env pg n s))) = fold replay_event new (protocols (db s))"
  using league_cron_keep [where R = "\<lambda>s t. timeline_step (db s) (db t)" and ok = "\<lambda>_. True"
      and tick = "visibility_tick pg"] visibility_tick_timeline [OF assms] timeline_trans
  unfolding start_visibility_tick_cron_def timeline_step_def [symmetric] by (metis timeline_refl)

subsection \<open>What a tick settles\<close>

definition settled :: "league_config \<Rightarrow> time \<Rightarrow> database \<Rightarrow> protocol \<Rightarrow> protocol" where
  \<comment> \<open>the row after its transition, if it is due one\<close>
  "settled cfg now d p =
     (let v = decide (snapshot_of (f64_of_int (uint (lc_starter_grant_rewardz cfg))) now d p) cfg in
      if p_status p = ''active'' \<and> v \<noteq> from_db (p_visibility p) then p\<lparr>p_visibility := as_db v\<rparr> else p)"

lemma quiet_apply_transition:
  "quiet pg \<Longrightarrow> apply_transition pg snap v s = (Inr (), s\<lparr>db := transitioned snap v (db s)\<rparr>)"
  by (simp add: apply_transition_def quiet_transaction quiet_execute_in andThen_def run_statement_def
      set_visibility_def insert_event_def transitioned_def)

fun settle_each :: "league_config \<Rightarrow> snapshot list \<Rightarrow> protocol list \<Rightarrow> protocol list" where
  "settle_each cfg [] ps = ps"
| "settle_each cfg (snap # snaps) ps =
     settle_each cfg snaps
       (if decide snap cfg = sn_current snap then ps
        else map (\<lambda>p. if p_id p = sn_protocol_id snap then p\<lparr>p_visibility := as_db (decide snap cfg)\<rparr> else p) ps)"

lemma quiet_transition_each:
  assumes "quiet pg"
  shows "\<exists>t. transition_each pg cfg snaps n s =
      (Inr (n + length (filter (\<lambda>snap. decide snap cfg \<noteq> sn_current snap) snaps)), t)
    \<and> protocols (db t) = settle_each cfg snaps (protocols (db s)) \<and> world t = world s
    \<and> point_events (db t) = point_events (db s) \<and> abuse_flags (db t) = abuse_flags (db s)"
proof (induction snaps arbitrary: n s)
  case Nil
  show ?case by (simp add: ret_def)
next
  case (Cons snap snaps)
  show ?case
  proof (cases "decide snap cfg = sn_current snap")
    case True
    with Cons show ?thesis by simp
  next
    case False
    let ?s = "s\<lparr>db := transitioned snap (decide snap cfg) (db s)\<rparr>"
    from Cons [of "n + 1" ?s] obtain t where "transition_each pg cfg snaps (n + 1) ?s =
        (Inr (n + 1 + length (filter (\<lambda>snap. decide snap cfg \<noteq> sn_current snap) snaps)), t)"
      "protocols (db t) = settle_each cfg snaps (protocols (db ?s))" "world t = world s"
      "point_events (db t) = point_events (db ?s)" "abuse_flags (db t) = abuse_flags (db ?s)" by auto
    with False show ?thesis
      by (simp add: andThen_def attempt_def quiet_apply_transition [OF assms] transitioned_def update_protocol_def)
  qed
qed

lemma settle_each_map:
  \<comment> \<open>the snapshots of distinct rows, each row touched by its own snapshot only\<close>
  assumes "distinct (map sn_protocol_id snaps)"
  shows "settle_each cfg snaps ps = map (\<lambda>p.
      case find (\<lambda>snap. sn_protocol_id snap = p_id p) snaps of
        None \<Rightarrow> p
      | Some snap \<Rightarrow> if decide snap cfg = sn_current snap then p else p\<lparr>p_visibility := as_db (decide snap cfg)\<rparr>) ps"
  using assms
proof (induction snaps arbitrary: ps)
  case Nil
  show ?case by simp
next
  case (Cons snap snaps)
  then have none: "find (\<lambda>x. sn_protocol_id x = sn_protocol_id snap) snaps = None"
    by (auto simp: find_None_iff image_iff)
  show ?case using Cons none by (auto split: option.splits)
qed

lemma snapshot_of_id [simp]: "sn_protocol_id (snapshot_of b now d p) = p_id p"
  by (simp add: snapshot_of_def)

lemma settle_each_settled:
  assumes "distinct (map p_id (protocols d))"
  shows "settle_each cfg (map (snapshot_of (f64_of_int (uint (lc_starter_grant_rewardz cfg))) now d) (active_protocols d))
      (protocols d) = map (settled cfg now d) (protocols d)"
proof -
  let ?snap = "snapshot_of (f64_of_int (uint (lc_starter_grant_rewardz cfg))) now d"
  have dist: "distinct (map sn_protocol_id (map ?snap (active_protocols d)))"
    using assms by (simp add: active_protocols_def distinct_map_filter o_def)
  have found: "find (\<lambda>snap. sn_protocol_id snap = p_id p) (map ?snap (active_protocols d)) =
      (if p_status p = ''active'' then Some (?snap p) else None)" if p: "p \<in> set (protocols d)" for p
  proof -
    have same: "q = p" if "q \<in> set (protocols d)" "p_id q = p_id p" for q
      using assms p that by (auto simp: distinct_map dest: inj_onD)
    show ?thesis
    proof (cases "p_status p = ''active''")
      case True
      have "find (\<lambda>snap. sn_protocol_id snap = p_id p) (map ?snap (active_protocols d)) = Some (?snap p)"
      proof (rule find_only)
        fix y assume "y \<in> set (map ?snap (active_protocols d))" "sn_protocol_id y = p_id p"
        then obtain q where "q \<in> set (protocols d)" "y = ?snap q" "p_id q = p_id p"
          by (auto simp: active_protocols_def)
        with same show "y = ?snap p" by metis
      qed (use p True in \<open>auto simp: active_protocols_def\<close>)
      with True show ?thesis by simp
    next
      case False
      with same show ?thesis by (auto simp: find_None_iff active_protocols_def)
    qed
  qed
  show ?thesis
    unfolding settle_each_map [OF dist] by (rule map_cong) (auto simp: found settled_def Let_def snapshot_of_def)
qed

lemma load_snapshots_quiet:
  assumes "quiet pg" "pg_extract_float8 pg"
  shows "load_snapshots pg cfg s = (Inr (map (snapshot_of (f64_of_int (uint (lc_starter_grant_rewardz cfg)))
    (pg_now pg (world s)) (db s)) (active_protocols (db s))), s)"
  using assms by (simp add: load_snapshots_def Let_def andThen_def quiet_execute run_statement_def ret_def)

lemma visibility_tick_settles:
  assumes "quiet pg" "pg_extract_float8 pg" "distinct (map p_id (protocols (db s)))"
  obtains t where "visibility_tick pg cfg s = (Inr (length (filter
      (\<lambda>p. decide (snapshot_of (f64_of_int (uint (lc_starter_grant_rewardz cfg))) (pg_now pg (world s)) (db s) p) cfg
           \<noteq> from_db (p_visibility p)) (active_protocols (db s)))), t)"
    "protocols (db t) = map (settled cfg (pg_now pg (world s)) (db s)) (protocols (db s))" "world t = world s"
    "point_events (db t) = point_events (db s)" "abuse_flags (db t) = abuse_flags (db s)"
proof -
  let ?snaps = "map (snapshot_of (f64_of_int (uint (lc_starter_grant_rewardz cfg)))
    (pg_now pg (world s)) (db s)) (active_protocols (db s))"
  from quiet_transition_each [OF assms(1), of cfg ?snaps 0 s] obtain t where
    t: "transition_each pg cfg ?snaps 0 s = (Inr (length (filter (\<lambda>snap. decide snap cfg \<noteq> sn_current snap) ?snaps)), t)"
      "protocols (db t) = settle_each cfg ?snaps (protocols (db s))" "world t = world s"
      "point_events (db t) = point_events (db s)" "abuse_flags (db t) = abuse_flags (db s)" by auto
  have count: "length (filter (\<lambda>snap. decide snap cfg \<noteq> sn_current snap) ?snaps) = length (filter
      (\<lambda>p. decide (snapshot_of (f64_of_int (uint (lc_starter_grant_rewardz cfg))) (pg_now pg (world s)) (db s) p) cfg
           \<noteq> from_db (p_visibility p)) (active_protocols (db s)))"
    by (simp add: filter_map o_def snapshot_of_def)
  show thesis
    by (rule that [of t]) (use t load_snapshots_quiet [OF assms(1,2), of cfg s] count
        settle_each_settled [OF assms(3), of cfg "pg_now pg (world s)"] in
        \<open>simp_all add: visibility_tick_def andThen_def\<close>)
qed

definition settled_already :: "league_config \<Rightarrow> time \<Rightarrow> database \<Rightarrow> protocol \<Rightarrow> bool" where
  "settled_already cfg now d p \<longleftrightarrow>
     decide (snapshot_of (f64_of_int (uint (lc_starter_grant_rewardz cfg))) now d p) cfg = from_db (p_visibility p)"

lemma decide_snapshot_cong:
  assumes "p_id q = p_id p" "p_remaining_capacity q = p_remaining_capacity p" "p_quality_score q = p_quality_score p"
    "point_events e = point_events d" "abuse_flags e = abuse_flags d"
  shows "decide (snapshot_of b now e q) cfg = decide (snapshot_of b now d p) cfg"
proof -
  have "last_event i e = last_event i d" "open_flags i e = open_flags i d" for i
    using assms(4,5) by (simp_all add: last_event_def events_of_def open_flags_def)
  with assms(1-3) show ?thesis by (simp add: decide_def snapshot_of_def Let_def)
qed

lemma settled_again:
  assumes "p_status (settled cfg now d p) = ''active''"
    "point_events e = point_events d" "abuse_flags e = abuse_flags d"
  shows "settled_already cfg now e (settled cfg now d p)"
proof -
  have "decide (snapshot_of b now e (settled cfg now d p)) cfg = decide (snapshot_of b now d p) cfg" for b
    using assms(2,3) by (intro decide_snapshot_cong) (simp_all add: settled_def Let_def)
  with assms(1) show ?thesis by (auto simp: settled_already_def settled_def Let_def)
qed


subsection \<open>Concrete runs\<close>

lemma flaky_pg_alone [simp]: "no_other_writers flaky_pg"
  by (simp add: no_other_writers_def flaky_pg_def)

theorem visibility_timeline_replays_witness:
  "\<exists>new. protocols (db (snd (start_visibility_tick_cron [''SOLANA_NETWORK'' \<mapsto> ''devnet''] flaky_pg 4
      (app_of 0 one_protocol)))) = fold replay_event new [league_protocol]"
  using visibility_timeline_replays [OF flaky_pg_alone, where n = 4 and s = "app_of 0 one_protocol"]
  by auto


end
