(* ===== verification/Quality_Score.thy ===== *)
theory Quality_Score
  imports Visibility_Tick
begin

section \<open>quality\_score.rs: the hourly quality of a protocol\<close>

text \<open>
  \<^verbatim>\<open>src/src/quality_score.rs\<close>: the four components of a score from the tables, their weighted
  sum, and the update of the column. The window and the gap are \<open>bigint\<close> parameters of
  \<open>make_interval\<close>; the column is the \<open>DECIMAL(5,4)\<close> of the file's header.
\<close>

definition UNIQUE_WALLETS_BASELINE :: f64 where
  "UNIQUE_WALLETS_BASELINE = Fin 100"

definition COMPLETION_SCORE_PLACEHOLDER :: f64 where
  "COMPLETION_SCORE_PLACEHOLDER = Fin 1"

record components =
  cp_u :: f64
  cp_r :: f64
  cp_c :: f64
  cp_s :: f64

definition weighted :: "components \<Rightarrow> league_config \<Rightarrow> f64" where
  "weighted comps cfg =
     (let w = lc_quality_weights cfg;
          q = f64_add (f64_add (f64_add
                (f64_mul (qw_u w) (cp_u comps))
                (f64_mul (qw_r w) (cp_r comps)))
                (f64_mul (qw_c w) (cp_c comps)))
                (f64_mul (qw_s w) (cp_s comps)) in
      f64_clamp q (Fin 0) (Fin 1))"

definition count_unique :: "'w pg \<Rightarrow> uuid \<Rightarrow> int \<Rightarrow> int statement" where
  "count_unique pg i window_hours now d =
     (case pg_make_interval pg ''hours'' window_hours of
        Inl e \<Rightarrow> Inl e
      | Inr window \<Rightarrow> Inr (int (length (distinct_wallets (since (now - window) (events_of i d)))), d))"

definition count_repeats :: "'w pg \<Rightarrow> uuid \<Rightarrow> int \<Rightarrow> int \<Rightarrow> int statement" where
  "count_repeats pg i window_hours gap_hours now d =
     (case pg_make_interval pg ''hours'' window_hours of
        Inl e \<Rightarrow> Inl e
      | Inr window \<Rightarrow>
          (case pg_make_interval pg ''hours'' gap_hours of
             Inl e \<Rightarrow> Inl e
           | Inr gap \<Rightarrow> Inr (int (length (repeat_wallets gap (since (now - window) (events_of i d)))), d)))"

definition compute_engagement ::
    "'w pg \<Rightarrow> uuid \<Rightarrow> u64 \<Rightarrow> u64 \<Rightarrow> ('w app, f64 \<times> f64) prog" where
  "compute_engagement pg i activity_window_hours repeat_gap_hours =
     andThen (execute pg (count_unique pg i (u64_as_i64 activity_window_hours))) (\<lambda>unique.
     let u_component = f64_clamp (f64_div (f64_of_int unique) UNIQUE_WALLETS_BASELINE) (Fin 0) (Fin 1) in
     if unique = 0 then ret (u_component, Fin 0)
     else
       andThen (execute pg (count_repeats pg i (u64_as_i64 activity_window_hours) (u64_as_i64 repeat_gap_hours)))
         (\<lambda>repeats.
       let r_component = f64_clamp (f64_div (f64_of_int repeats) (f64_of_int unique)) (Fin 0) (Fin 1) in
       ret (u_component, r_component)))"

definition social_earnings :: "uuid \<Rightarrow> database \<Rightarrow> (earning \<times> milestone_row) list" where
  \<comment> \<open>the rows of the join\<close>
  "social_earnings i d =
     filter (\<lambda>(re, m). re_milestone_id re = Some (m_id m) \<and> re_protocol_id re = i \<and> m_bucket m = ''social'')
       (List.product (rewardz_earnings d) (milestones d))"

definition compute_social :: "'w pg \<Rightarrow> uuid \<Rightarrow> ('w app, f64) prog" where
  "compute_social pg i =
     andThen (execute pg (\<lambda>now d. Inr (int (length (social_earnings i d)), d))) (\<lambda>cnt.
     ret (f64_clamp (f64_div (f64_of_int cnt) (Fin 2)) (Fin 0) (Fin 1)))"

definition set_quality_score :: "'w pg \<Rightarrow> f64 \<Rightarrow> uuid \<Rightarrow> unit statement" where
  \<comment> \<open>a protocol that is not there takes no value, and no overflow either\<close>
  "set_quality_score pg q i now d =
     (if \<not> (\<exists>p \<in> set (protocols d). p_id p = i) then Inr ((), d)
      else
        (case pg_decimal_5_4 pg q of
           Inl e \<Rightarrow> Inl e
         | Inr v \<Rightarrow> Inr ((), update_protocol i (\<lambda>p. p\<lparr>p_quality_score := Some v\<rparr>) d)))"

definition score_one :: "'w pg \<Rightarrow> league_config \<Rightarrow> uuid \<Rightarrow> ('w app, unit) prog" where
  "score_one pg cfg i =
     andThen (compute_engagement pg i (lc_activity_window_hours cfg) (lc_repeat_gap_hours cfg)) (\<lambda>(u, r).
     andThen (compute_social pg i) (\<lambda>s.
     let comps = \<lparr>cp_u = u, cp_r = r, cp_c = COMPLETION_SCORE_PLACEHOLDER, cp_s = s\<rparr>;
         q = weighted comps cfg in
     execute pg (set_quality_score pg q i)))"

fun score_each :: "'w pg \<Rightarrow> league_config \<Rightarrow> uuid list \<Rightarrow> nat \<Rightarrow> ('w app, nat) prog" where
  "score_each pg cfg [] scored = ret scored"
| "score_each pg cfg (i # ids) scored =
     andThen (attempt (score_one pg cfg i)) (\<lambda>outcome.
     score_each pg cfg ids (case outcome of Inr _ \<Rightarrow> scored + 1 | Inl _ \<Rightarrow> scored))"

definition quality_tick :: "'w pg \<Rightarrow> league_config \<Rightarrow> ('w app, nat) prog" where
  "quality_tick pg cfg =
     andThen (execute pg (\<lambda>now d. Inr (map p_id (active_protocols d), d))) (\<lambda>ids.
     score_each pg cfg ids 0)"

definition start_quality_score_cron :: "environment \<Rightarrow> 'w pg \<Rightarrow> nat \<Rightarrow> ('w app, unit) prog" where
  "start_quality_score_cron env pg n = league_cron env (quality_tick pg) n"

subsection \<open>Values near an exact score\<close>

definition near :: "nat \<Rightarrow> f64 \<Rightarrow> rat \<Rightarrow> bool" where
  "near n v r \<longleftrightarrow> (\<exists>x. v = Fin x \<and> 0 \<le> x \<and> \<bar>x - r\<bar> \<le> of_nat n / 2 ^ 52)"

lemma near_exact: "0 \<le> x \<Longrightarrow> near n (Fin x) x"
  by (simp add: near_def)

lemma near_to_f64: "0 \<le> x \<Longrightarrow> x \<le> 2 \<Longrightarrow> near 1 (to_f64 x) x"
  using fl_error [of x] by (auto simp: near_def to_f64_small intro: b64.rnd_nonneg)

lemma near_to_f64_of:
  assumes "0 \<le> y" "y \<le> 2" "\<bar>y - r\<bar> \<le> of_nat n / 2 ^ 52"
  shows "near (n + 1) (to_f64 y) r"
proof -
  have "\<bar>fl y - r\<bar> \<le> 1 / 2 ^ 52 + of_nat n / 2 ^ 52"
    using fl_error [OF assms(1,2)] assms(3) by linarith
  also have "\<dots> = of_nat (n + 1) / 2 ^ 52" by (simp add: field_simps)
  finally show ?thesis
    using assms(1,2) by (auto simp: near_def to_f64_small intro: b64.rnd_nonneg)
qed

lemma near_mul:
  assumes "near 1 a w" "near 1 b x" "0 \<le> w" "w \<le> 1" "0 \<le> x" "x \<le> 1"
  shows "near 4 (f64_mul a b) (w * x)"
proof -
  from assms(1,2) obtain a' b' where a: "a = Fin a'" "0 \<le> a'" "\<bar>a' - w\<bar> \<le> 1 / 2 ^ 52"
    and b: "b = Fin b'" "0 \<le> b'" "\<bar>b' - x\<bar> \<le> 1 / 2 ^ 52" by (auto simp: near_def)
  have le: "a' \<le> 1 + 1 / 2 ^ 52" "b' \<le> 1 + 1 / 2 ^ 52" using a(3) b(3) assms(4,6) by linarith+
  have "a' * b' \<le> (1 + 1 / 2 ^ 52) * (1 + 1 / 2 ^ 52)" using le a(2) b(2) by (intro mult_mono) auto
  then have two: "a' * b' \<le> 2" by simp
  have "a' * b' - w * x = (a' - w) * b' + w * (b' - x)" by (simp add: algebra_simps)
  then have "\<bar>a' * b' - w * x\<bar> \<le> \<bar>(a' - w) * b'\<bar> + \<bar>w * (b' - x)\<bar>" by (simp add: abs_triangle_ineq)
  also have "\<bar>(a' - w) * b'\<bar> \<le> 1 / 2 ^ 52 * (1 + 1 / 2 ^ 52)"
    using a(3) b(2) le(2) unfolding abs_mult by (intro mult_mono) auto
  also have "\<bar>w * (b' - x)\<bar> \<le> 1 * (1 / 2 ^ 52)"
    using b(3) assms(3,4) unfolding abs_mult by (intro mult_mono) auto
  also have "(1 / 2 ^ 52 * (1 + 1 / 2 ^ 52) + 1 * (1 / 2 ^ 52) :: rat) \<le> of_nat 3 / 2 ^ 52" by simp
  finally have "\<bar>a' * b' - w * x\<bar> \<le> of_nat 3 / 2 ^ 52" by simp
  from near_to_f64_of [OF _ two this] a b show ?thesis by simp
qed

lemma near_add:
  assumes "near m a x" "near n b y" "x + y \<le> 1" "m + n \<le> 100"
  shows "near (m + n + 1) (f64_add a b) (x + y)"
proof -
  from assms(1,2) obtain a' b' where a: "a = Fin a'" "0 \<le> a'" "\<bar>a' - x\<bar> \<le> of_nat m / 2 ^ 52"
    and b: "b = Fin b'" "0 \<le> b'" "\<bar>b' - y\<bar> \<le> of_nat n / 2 ^ 52" by (auto simp: near_def)
  have "(of_nat (m + n) / 2 ^ 52 :: rat) = of_nat m / 2 ^ 52 + of_nat n / 2 ^ 52" by (simp add: add_divide_distrib)
  then have err: "\<bar>(a' + b') - (x + y)\<bar> \<le> of_nat (m + n) / 2 ^ 52" using a(3) b(3) by linarith
  have "(of_nat (m + n) :: rat) \<le> 100" using of_nat_mono [OF assms(4), where ?'a = rat] by simp
  then have "(of_nat (m + n) / 2 ^ 52 :: rat) \<le> 1" by simp
  then have "a' + b' \<le> 2" using err assms(3) by linarith
  from near_to_f64_of [OF _ this err] a b show ?thesis by simp
qed

lemma near_clamp:
  assumes "near n v r" "0 \<le> r" "r \<le> 1"
  shows "\<exists>x. f64_clamp v (Fin 0) (Fin 1) = Fin x \<and> 0 \<le> x \<and> x \<le> 1 \<and> \<bar>x - r\<bar> \<le> of_nat n / 2 ^ 52"
proof -
  from assms(1) obtain x where x: "v = Fin x" "0 \<le> x" "\<bar>x - r\<bar> \<le> of_nat n / 2 ^ 52" by (auto simp: near_def)
  have "\<bar>min x 1 - r\<bar> \<le> \<bar>x - r\<bar>" using assms(3) by (auto simp: min_def abs_le_iff)
  with x assms show ?thesis by (intro exI [of _ "min x 1"]) auto
qed

lemma unit_ratio:
  assumes "0 \<le> n" "n < 2 ^ 53" "0 < m" "m < 2 ^ 53"
  shows "near 1 (f64_clamp (f64_div (f64_of_int n) (f64_of_int m)) (Fin 0) (Fin 1)) (min 1 (of_int n / of_int m))"
proof -
  have n: "f64_of_int n = Fin (of_int n)" and m: "f64_of_int m = Fin (of_int m)"
    using assms by (simp_all add: f64_of_int_exact)
  let ?q = "of_int n / of_int m :: rat"
  have q: "0 \<le> ?q" using assms by simp
  have "?q \<le> of_int n" using assms by (simp add: divide_le_eq mult_le_cancel_left1)
  also have "(of_int n :: rat) \<le> of_int (2 ^ 53)" using assms(2) by (simp only: of_int_le_iff)
  finally have small: "to_f64 ?q = Fin (fl ?q)" using q by (intro to_f64_small) simp
  have "fl ?q \<ge> 0" using q by (rule b64.rnd_nonneg)
  moreover have "\<bar>min (fl ?q) 1 - min 1 ?q\<bar> \<le> 1 / 2 ^ 52"
  proof (cases "?q \<le> 1")
    case True
    then have "fl ?q \<le> 1" by (rule b64.rnd_le_1)
    with True have "min (fl ?q) 1 = fl ?q" "min 1 ?q = ?q" by (auto simp only: min.absorb1 min.absorb2)
    moreover have "\<bar>fl ?q - ?q\<bar> \<le> 1 / 2 ^ 52" using True by (intro fl_error q) linarith
    ultimately show ?thesis by simp
  next
    case False
    then have "fl 1 \<le> fl ?q" by (intro fl_mono) simp
    with False show ?thesis by (simp add: b64.rnd_1 min_def)
  qed
  ultimately show ?thesis using assms by (simp add: n m small near_def)
qed

subsection \<open>The exact score\<close>

definition exact_quality :: "int \<Rightarrow> int \<Rightarrow> int \<Rightarrow> rat" where
  \<comment> \<open>the weights of the devnet, over counts of unique wallets, repeat wallets and social awards\<close>
  "exact_quality unique repeats social =
     4 / 10 * min 1 (of_int unique / 100)
     + 3 / 10 * (if unique = 0 then 0 else min 1 (of_int repeats / of_int unique))
     + 2 / 10
     + 1 / 10 * min 1 (of_int social / 2)"

definition ratio_f64 :: "int \<Rightarrow> int \<Rightarrow> f64" where
  "ratio_f64 n m = f64_clamp (f64_div (f64_of_int n) (f64_of_int m)) (Fin 0) (Fin 1)"

definition components_of :: "int \<Rightarrow> int \<Rightarrow> int \<Rightarrow> components" where
  "components_of unique repeats social =
     \<lparr>cp_u = ratio_f64 unique 100, cp_r = (if unique = 0 then Fin 0 else ratio_f64 repeats unique),
      cp_c = COMPLETION_SCORE_PLACEHOLDER, cp_s = ratio_f64 social 2\<rparr>"

lemma components_near:
  assumes "0 \<le> u" "u < 2 ^ 53" "0 \<le> r" "r < 2 ^ 53" "0 \<le> s" "s < 2 ^ 53"
  shows "near 1 (cp_u (components_of u r s)) (min 1 (of_int u / 100))"
    "near 1 (cp_r (components_of u r s)) (if u = 0 then 0 else min 1 (of_int r / of_int u))"
    "near 1 (cp_c (components_of u r s)) 1"
    "near 1 (cp_s (components_of u r s)) (min 1 (of_int s / 2))"
  using unit_ratio [of u 100] unit_ratio [of r u] unit_ratio [of s 2] assms
  by (auto simp: components_of_def ratio_f64_def COMPLETION_SCORE_PLACEHOLDER_def intro: near_exact)

lemma weighted_DEVNET:
  assumes "0 \<le> u" "u < 2 ^ 53" "0 \<le> r" "r < 2 ^ 53" "0 \<le> s" "s < 2 ^ 53"
  shows "\<exists>x. weighted (components_of u r s) DEVNET = Fin x \<and> 0 \<le> x \<and> x \<le> 1
    \<and> \<bar>x - exact_quality u r s\<bar> \<le> 19 / 2 ^ 52"
proof -
  note c = components_near [OF assms]
  let ?U = "min 1 (of_int u / 100) :: rat" and ?R = "if u = 0 then 0 else min 1 (of_int r / of_int u) :: rat"
    and ?S = "min 1 (of_int s / 2) :: rat" and ?w = "lc_quality_weights DEVNET"
  have w: "near 1 (qw_u ?w) (4 / 10)" "near 1 (qw_r ?w) (3 / 10)" "near 1 (qw_c ?w) (2 / 10)" "near 1 (qw_s ?w) (1 / 10)"
    using near_to_f64 [of "2 / 5"] near_to_f64 [of "3 / 10"] near_to_f64 [of "1 / 5"] near_to_f64 [of "1 / 10"]
    by (simp_all add: DEVNET_def)
  have u: "0 \<le> ?U" "?U \<le> 1" and r: "0 \<le> ?R" "?R \<le> 1" and s: "0 \<le> ?S" "?S \<le> 1"
    using assms by (auto simp: min_def)
  have 1: "near 4 (f64_mul (qw_u ?w) (cp_u (components_of u r s))) (4 / 10 * ?U)"
    by (rule near_mul [OF w(1) c(1)]) (use u in auto)
  have 2: "near 4 (f64_mul (qw_r ?w) (cp_r (components_of u r s))) (3 / 10 * ?R)"
    by (rule near_mul [OF w(2) c(2)]) (use r in auto)
  have 3: "near 4 (f64_mul (qw_c ?w) (cp_c (components_of u r s))) (2 / 10 * 1)"
    by (rule near_mul [OF w(3) c(3)]) auto
  have 4: "near 4 (f64_mul (qw_s ?w) (cp_s (components_of u r s))) (1 / 10 * ?S)"
    by (rule near_mul [OF w(4) c(4)]) (use s in auto)
  have 5: "near (4 + 4 + 1) (f64_add (f64_mul (qw_u ?w) (cp_u (components_of u r s)))
      (f64_mul (qw_r ?w) (cp_r (components_of u r s)))) (4 / 10 * ?U + 3 / 10 * ?R)"
    by (rule near_add [OF 1 2]) (use u r in auto)
  have 6: "near (4 + 4 + 1 + 4 + 1) (f64_add (f64_add (f64_mul (qw_u ?w) (cp_u (components_of u r s)))
      (f64_mul (qw_r ?w) (cp_r (components_of u r s)))) (f64_mul (qw_c ?w) (cp_c (components_of u r s))))
      (4 / 10 * ?U + 3 / 10 * ?R + 2 / 10 * 1)"
    by (rule near_add [OF 5 3]) (use u r in auto)
  have 7: "near (4 + 4 + 1 + 4 + 1 + 4 + 1) (f64_add (f64_add (f64_add (f64_mul (qw_u ?w) (cp_u (components_of u r s)))
      (f64_mul (qw_r ?w) (cp_r (components_of u r s)))) (f64_mul (qw_c ?w) (cp_c (components_of u r s))))
      (f64_mul (qw_s ?w) (cp_s (components_of u r s)))) (4 / 10 * ?U + 3 / 10 * ?R + 2 / 10 * 1 + 1 / 10 * ?S)"
    by (rule near_add [OF 6 4]) (use u r s in auto)
  have exact: "4 / 10 * ?U + 3 / 10 * ?R + 2 / 10 * 1 + 1 / 10 * ?S = exact_quality u r s"
    by (simp add: exact_quality_def)
  have "0 \<le> exact_quality u r s" "exact_quality u r s \<le> 1"
    using u r s unfolding exact [symmetric] by auto
  from near_clamp [OF 7 [unfolded exact] this] show ?thesis by (simp add: weighted_def Let_def)
qed

subsection \<open>What a tick stores\<close>

definition recent_events :: "time \<Rightarrow> database \<Rightarrow> uuid \<Rightarrow> point_event list" where
  \<comment> \<open>the devnet's window of 168 hours\<close>
  "recent_events now d i = since (now - 7 * day_micros) (events_of i d)"

definition unique_count :: "time \<Rightarrow> database \<Rightarrow> uuid \<Rightarrow> int" where
  "unique_count now d i = int (length (distinct_wallets (recent_events now d i)))"

definition repeat_count :: "time \<Rightarrow> database \<Rightarrow> uuid \<Rightarrow> int" where
  "repeat_count now d i = int (length (repeat_wallets day_micros (recent_events now d i)))"

definition social_count :: "database \<Rightarrow> uuid \<Rightarrow> int" where
  "social_count d i = int (length (social_earnings i d))"

definition score_f64 :: "time \<Rightarrow> database \<Rightarrow> uuid \<Rightarrow> f64" where
  "score_f64 now d i =
     weighted (components_of (unique_count now d i) (repeat_count now d i) (social_count d i)) DEVNET"

definition score_exact :: "time \<Rightarrow> database \<Rightarrow> uuid \<Rightarrow> rat" where
  "score_exact now d i = exact_quality (unique_count now d i) (repeat_count now d i) (social_count d i)"

lemma DEVNET_windows [simp]:
  "u64_as_i64 (lc_activity_window_hours DEVNET) = 168" "u64_as_i64 (lc_repeat_gap_hours DEVNET) = 24"
  by (simp_all add: u64_as_i64_id DEVNET_def)

lemma quiet_score_one:
  assumes "quiet pg" "takes_bigint pg"
  shows "score_one pg DEVNET i s =
    run_statement (pg_now pg (world s)) (set_quality_score pg (score_f64 (pg_now pg (world s)) (db s) i) i) s"
proof -
  have base: "UNIQUE_WALLETS_BASELINE = f64_of_int 100" "Fin 2 = f64_of_int 2"
    by (simp_all add: UNIQUE_WALLETS_BASELINE_def f64_of_int_exact)
  have hours: "pg_make_interval pg ''hours'' n = Inr (n * 3600000000)" for n
    using assms(2) by (simp add: takes_bigint_def)
  show ?thesis
    unfolding score_one_def compute_engagement_def compute_social_def
    by (simp add: quiet_execute [OF assms(1)] run_statement_def count_unique_def count_repeats_def hours andThen_def
        ret_def Let_def base score_f64_def components_of_def ratio_f64_def unique_count_def repeat_count_def
        social_count_def recent_events_def day_micros_def)
qed

definition countable :: "database \<Rightarrow> bool" where
  \<comment> \<open>the counts of the tables are exact in \<open>f64\<close>\<close>
  "countable d \<longleftrightarrow> length (point_events d) < 2 ^ 53 \<and> length (rewardz_earnings d) * length (milestones d) < 2 ^ 53"

lemma counts_small:
  assumes "countable d"
  shows "0 \<le> unique_count now d i" "unique_count now d i < 2 ^ 53" "0 \<le> repeat_count now d i"
    "repeat_count now d i < 2 ^ 53" "0 \<le> social_count d i" "social_count d i < 2 ^ 53"
proof -
  have "length (distinct_wallets es) \<le> length es" for es
    using length_remdups_leq [of "map pe_user_wallet es"] by (simp add: distinct_wallets_def)
  moreover have "length (recent_events now d i) \<le> length (point_events d)"
    unfolding recent_events_def since_def events_of_def by (meson length_filter_le order_trans)
  ultimately have u: "length (distinct_wallets (recent_events now d i)) \<le> length (point_events d)"
    using order_trans by blast
  moreover have "length (repeat_wallets day_micros (recent_events now d i)) \<le> length (point_events d)"
    using repeat_wallets_le u by (rule order_trans)
  moreover have "length (social_earnings i d) \<le> length (rewardz_earnings d) * length (milestones d)"
    unfolding social_earnings_def by (rule order_trans [OF length_filter_le]) (simp add: length_product)
  ultimately show "unique_count now d i < 2 ^ 53" "repeat_count now d i < 2 ^ 53" "social_count d i < 2 ^ 53"
    using assms by (simp_all add: countable_def unique_count_def repeat_count_def social_count_def)
qed (simp_all add: unique_count_def repeat_count_def social_count_def)

lemma stored_score:
  assumes "rounds_decimals pg" "countable d"
  shows "\<exists>k. pg_decimal_5_4 pg (score_f64 now d i) = Inr (of_int k / 10000) \<and> 0 \<le> k \<and> k \<le> 10000
    \<and> \<bar>of_int k / 10000 - score_exact now d i\<bar> \<le> 1 / 20000 + 1 / 10 ^ 14"
proof -
  from weighted_DEVNET [OF counts_small [OF assms(2)]] obtain x where
    x: "score_f64 now d i = Fin x" "0 \<le> x" "x \<le> 1" "\<bar>x - score_exact now d i\<bar> \<le> 19 / 2 ^ 52"
    unfolding score_f64_def score_exact_def by blast
  from assms(1) x(2,3) obtain k where
    k: "pg_decimal_5_4 pg (Fin x) = Inr (of_int k / 10000)" "0 \<le> k" "k \<le> 10000"
      "\<bar>of_int k / 10000 - x\<bar> \<le> 1 / 20000 + 1 / 10 ^ 15"
    unfolding rounds_decimals_def by blast
  have "(1 / 20000 + 1 / 10 ^ 15) + 19 / 2 ^ 52 \<le> (1 / 20000 + 1 / 10 ^ 14 :: rat)" by simp
  then have "\<bar>of_int k / 10000 - score_exact now d i\<bar> \<le> 1 / 20000 + 1 / 10 ^ 14"
    using x(4) k(4) by linarith
  with x(1) k(1-3) show ?thesis by auto
qed

definition stored :: "'w pg \<Rightarrow> f64 \<Rightarrow> rat" where
  "stored pg x = (case pg_decimal_5_4 pg x of Inr q \<Rightarrow> q | Inl _ \<Rightarrow> 0)"

definition scored :: "'w pg \<Rightarrow> time \<Rightarrow> database \<Rightarrow> uuid set \<Rightarrow> protocol \<Rightarrow> protocol" where
  "scored pg now d ids p =
     (if p_id p \<in> ids then p\<lparr>p_quality_score := Some (stored pg (score_f64 now d (p_id p)))\<rparr> else p)"

definition same_tables :: "database \<Rightarrow> database \<Rightarrow> bool" where
  "same_tables d e \<longleftrightarrow> e\<lparr>protocols := []\<rparr> = d\<lparr>protocols := []\<rparr>"

lemma same_tables_score:
  assumes "same_tables d e"
  shows "score_f64 now e i = score_f64 now d i" and "countable e = countable d"
    and "point_events e = point_events d" and "abuse_flags e = abuse_flags d"
proof -
  have "point_events (e\<lparr>protocols := []\<rparr>) = point_events (d\<lparr>protocols := []\<rparr>)"
    "rewardz_earnings (e\<lparr>protocols := []\<rparr>) = rewardz_earnings (d\<lparr>protocols := []\<rparr>)"
    "milestones (e\<lparr>protocols := []\<rparr>) = milestones (d\<lparr>protocols := []\<rparr>)"
    "abuse_flags (e\<lparr>protocols := []\<rparr>) = abuse_flags (d\<lparr>protocols := []\<rparr>)"
    using assms by (simp_all only: same_tables_def)
  then show "score_f64 now e i = score_f64 now d i" "countable e = countable d"
    "point_events e = point_events d" "abuse_flags e = abuse_flags d"
    by (simp_all add: score_f64_def unique_count_def repeat_count_def social_count_def recent_events_def
        events_of_def social_earnings_def countable_def)
qed

lemma same_tables_update [simp]: "same_tables d (update_protocol i f d)"
  by (simp add: same_tables_def update_protocol_def)

lemma same_tables_eq: "same_tables d e \<Longrightarrow> e = d\<lparr>protocols := protocols e\<rparr>"
  by (cases d; cases e) (simp add: same_tables_def)

lemma ids_update_protocol:
  assumes "\<And>p. p_id (f p) = p_id p"
  shows "p_id ` set (protocols (update_protocol i f d)) = p_id ` set (protocols d)"
proof -
  have "map p_id (protocols (update_protocol i f d)) = map p_id (protocols d)"
    using assms by (simp add: update_protocol_def)
  then show ?thesis by (metis set_map)
qed

lemma same_tables_trans: "same_tables d e \<Longrightarrow> same_tables e f \<Longrightarrow> same_tables d f"
  by (simp add: same_tables_def)

lemma quiet_score_each:
  assumes "quiet pg" "takes_bigint pg" "rounds_decimals pg" "countable (db s)" "distinct ids"
    "set ids \<subseteq> p_id ` set (protocols (db s))"
  shows "\<exists>t. score_each pg DEVNET ids n s = (Inr (n + length ids), t) \<and> same_tables (db s) (db t)
    \<and> protocols (db t) = map (scored pg (pg_now pg (world s)) (db s) (set ids)) (protocols (db s)) \<and> world t = world s"
  using assms(4-6)
proof (induction ids arbitrary: n s)
  case Nil
  show ?case by (simp add: ret_def same_tables_def scored_def [abs_def])
next
  case (Cons i ids)
  let ?now = "pg_now pg (world s)" and ?v = "stored pg (score_f64 (pg_now pg (world s)) (db s) i)"
  let ?u = "s\<lparr>db := update_protocol i (\<lambda>p. p\<lparr>p_quality_score := Some ?v\<rparr>) (db s)\<rparr>"
  from stored_score [OF assms(3) Cons.prems(1)] obtain k where
    "pg_decimal_5_4 pg (score_f64 ?now (db s) i) = Inr (of_int k / 10000)" by blast
  moreover have "\<exists>p \<in> set (protocols (db s)). p_id p = i" using Cons.prems(3) by auto
  ultimately have one: "score_one pg DEVNET i s = (Inr (), ?u)"
    by (simp add: quiet_score_one [OF assms(1,2)] run_statement_def set_quality_score_def stored_def)
  have tables: "same_tables (db s) (db ?u)" by simp
  have "countable (db ?u)" "distinct ids" "set ids \<subseteq> p_id ` set (protocols (db ?u))"
    using Cons.prems same_tables_score(2) [OF tables] by (simp_all add: ids_update_protocol)
  from Cons.IH [OF this, of "n + 1"] obtain t where t: "score_each pg DEVNET ids (n + 1) ?u = (Inr (n + 1 + length ids), t)"
    "same_tables (db ?u) (db t)" "world t = world s"
    "protocols (db t) = map (scored pg ?now (db ?u) (set ids)) (protocols (db ?u))" by auto
  have "scored pg ?now (db ?u) (set ids) (if p_id p = i then p\<lparr>p_quality_score := Some ?v\<rparr> else p)
      = scored pg ?now (db s) (set (i # ids)) p" for p
    using Cons.prems(2) by (auto simp: scored_def same_tables_score(1) [OF same_tables_update])
  then have "protocols (db t) = map (scored pg ?now (db s) (set (i # ids))) (protocols (db s))"
    using t(4) by (simp add: update_protocol_def)
  moreover have "same_tables (db s) (db t)" using tables t(2) by (rule same_tables_trans)
  moreover have "score_each pg DEVNET (i # ids) n s = (Inr (n + length (i # ids)), t)"
    using t(1) by (simp add: andThen_def attempt_def one)
  ultimately show ?case using t(3) by blast
qed

lemma quiet_quality_tick:
  assumes "quiet pg" "takes_bigint pg" "rounds_decimals pg" "countable (db s)" "distinct (map p_id (protocols (db s)))"
  obtains t where "quality_tick pg DEVNET s = (Inr (length (active_protocols (db s))), t)" "same_tables (db s) (db t)"
    "protocols (db t) = map (\<lambda>p. if p_status p = ''active''
       then p\<lparr>p_quality_score := Some (stored pg (score_f64 (pg_now pg (world s)) (db s) (p_id p)))\<rparr> else p) (protocols (db s))"
    "world t = world s"
proof -
  let ?ids = "map p_id (active_protocols (db s))"
  have ids: "distinct ?ids" "set ?ids \<subseteq> p_id ` set (protocols (db s))"
    using assms(5) by (auto simp: active_protocols_def distinct_map_filter)
  from quiet_score_each [OF assms(1-4) ids, of 0] obtain t where
    t: "score_each pg DEVNET ?ids 0 s = (Inr (length ?ids), t)" "same_tables (db s) (db t)" "world t = world s"
      "protocols (db t) = map (scored pg (pg_now pg (world s)) (db s) (set ?ids)) (protocols (db s))" by auto
  have "scored pg (pg_now pg (world s)) (db s) (set ?ids) p = (if p_status p = ''active''
       then p\<lparr>p_quality_score := Some (stored pg (score_f64 (pg_now pg (world s)) (db s) (p_id p)))\<rparr> else p)"
    if "p \<in> set (protocols (db s))" for p
  proof -
    have "p_id p \<in> set ?ids \<longleftrightarrow> p_status p = ''active''"
      using assms(5) that by (auto simp: active_protocols_def distinct_map dest: inj_onD)
    then show ?thesis by (simp add: scored_def)
  qed
  then show thesis
    using t by (intro that [of t]) (auto simp: quality_tick_def andThen_def quiet_execute [OF assms(1)] run_statement_def)
qed


subsection \<open>The score and the visibility\<close>

lemma exact_with_wallets:
  assumes "1 \<le> u" "0 \<le> r" "0 \<le> s"
  shows "204 / 1000 \<le> exact_quality u r s"
proof -
  have "(1 :: rat) \<le> of_int u" using assms(1) by simp
  then have "1 / 100 \<le> min 1 (of_int u / 100 :: rat)" by simp
  moreover have "0 \<le> (if u = 0 then 0 else min 1 (of_int r / of_int u) :: rat)"
    using assms by auto
  moreover have "0 \<le> min 1 (of_int s / 2 :: rat)" using assms(3) by simp
  ultimately have "4 / 10 * (1 / 100) + 3 / 10 * 0 + 2 / 10 + 1 / 10 * 0 \<le> exact_quality u r s"
    unfolding exact_quality_def by (intro add_mono mult_left_mono) auto
  then show ?thesis by simp
qed

lemma no_recent_idle:
  assumes "recent_events now d i = []"
  shows "idle_for (7 * day_micros) now (last_event i d)"
proof (cases "last_event i d")
  case None
  then show ?thesis by (simp add: idle_for_def)
next
  case (Some t)
  then obtain e where "e \<in> set (events_of i d)" "pe_created_at e = t"
    using last_event_in [OF Some] by (auto simp: events_of_def)
  with assms have "\<not> now - 7 * day_micros \<le> t"
    by (auto simp: recent_events_def since_def filter_empty_conv)
  with Some show ?thesis by (simp add: idle_for_def)
qed

lemma low_score_is_idle:
  assumes "\<bar>q - score_exact now d i\<bar> \<le> 1 / 20000 + 1 / 10 ^ 14" "q \<le> 1 / 5"
  shows "idle_for (7 * day_micros) now (last_event i d)"
proof (cases "recent_events now d i = []")
  case True
  then show ?thesis by (rule no_recent_idle)
next
  case False
  then have "1 \<le> unique_count now d i" by (simp add: unique_count_def Suc_le_eq)
  then have "204 / 1000 \<le> score_exact now d i"
    unfolding score_exact_def by (rule exact_with_wallets) (simp_all add: repeat_count_def social_count_def)
  moreover have "q \<ge> score_exact now d i - (1 / 20000 + 1 / 10 ^ 14)" using assms(1) by linarith
  ultimately have "204 / 1000 - (1 / 20000 + 1 / 10 ^ 14) \<le> q" by linarith
  with assms(2) show ?thesis by simp
qed

definition rule_without_quality :: "time \<Rightarrow> database \<Rightarrow> protocol \<Rightarrow> visibility" where
  "rule_without_quality now d p = visibility_rule now d (p\<lparr>p_quality_score := None\<rparr>)"

text \<open>
  The Blink-health trigger is inert while C is a placeholder. After a score has been
  computed, and at the same moment, no active protocol is at risk for its quality alone: a
  stored score at or below the floor of 0.2 belongs to a protocol without any event in seven
  days, which is at risk for that already. So the floor changes no decision of the
  visibility rule, whatever the tables hold.
\<close>

theorem quality_floor_inert:
  assumes "quiet pg" "takes_bigint pg" "rounds_decimals pg" "countable (db s)"
    and "distinct (map p_id (protocols (db s)))" and "quality_tick pg DEVNET s = (res, t)"
    and "p \<in> set (protocols (db t))" "p_status p = ''active''"
  shows "visibility_rule (pg_now pg (world s)) (db t) p = rule_without_quality (pg_now pg (world s)) (db t) p"
proof -
  obtain u where u: "quality_tick pg DEVNET s = (Inr (length (active_protocols (db s))), u)" "same_tables (db s) (db u)"
    "protocols (db u) = map (\<lambda>p. if p_status p = ''active''
       then p\<lparr>p_quality_score := Some (stored pg (score_f64 (pg_now pg (world s)) (db s) (p_id p)))\<rparr> else p) (protocols (db s))"
    by (rule quiet_quality_tick [OF assms(1-5)]) blast
  then have t: "t = u" using assms(6) by simp
  note tables = same_tables_score(3,4) [OF u(2)]
  have events: "last_event i (db u) = last_event i (db s)" "open_flags i (db u) = open_flags i (db s)" for i
    by (simp_all add: last_event_def events_of_def open_flags_def tables)
  have "p_quality_score p = Some (stored pg (score_f64 (pg_now pg (world s)) (db s) (p_id p)))"
    using assms(7,8) by (auto simp: t u(3) split: if_splits)
  moreover have "\<bar>stored pg (score_f64 (pg_now pg (world s)) (db s) (p_id p))
      - score_exact (pg_now pg (world s)) (db s) (p_id p)\<bar> \<le> 1 / 20000 + 1 / 10 ^ 14"
    using stored_score [OF assms(3,4), of "pg_now pg (world s)" "p_id p"] by (auto simp: stored_def)
  ultimately have "idle_for (7 * day_micros) (pg_now pg (world s)) (last_event (p_id p) (db s))"
    if "p_quality_score p = Some q" "q \<le> 1 / 5" for q
    using low_score_is_idle that by auto
  then show ?thesis
    by (auto simp: visibility_rule_def rule_without_quality_def Let_def t events)
qed

subsection \<open>Scores under failures\<close>

definition rescored :: "protocol \<Rightarrow> protocol \<Rightarrow> bool" where
  "rescored p q \<longleftrightarrow>
     (\<exists>v. q = p\<lparr>p_quality_score := v\<rparr>
        \<and> (v = p_quality_score p \<or> (\<exists>k. 0 \<le> k \<and> k \<le> 10000 \<and> v = Some (of_int k / 10000))))"

definition scores_step :: "database \<Rightarrow> database \<Rightarrow> bool" where
  "scores_step d e \<longleftrightarrow> same_tables d e \<and> list_all2 rescored (protocols d) (protocols e)"

lemma rescored_refl [simp]: "rescored p p"
  unfolding rescored_def by (rule exI [of _ "p_quality_score p"]) simp

lemma rescored_trans: "rescored p q \<Longrightarrow> rescored q r \<Longrightarrow> rescored p r"
proof -
  assume "rescored p q" "rescored q r"
  then obtain v w where "q = p\<lparr>p_quality_score := v\<rparr>" "r = q\<lparr>p_quality_score := w\<rparr>"
    "v = p_quality_score p \<or> (\<exists>k. 0 \<le> k \<and> k \<le> 10000 \<and> v = Some (of_int k / 10000))"
    "w = p_quality_score q \<or> (\<exists>k. 0 \<le> k \<and> k \<le> 10000 \<and> w = Some (of_int k / 10000))"
    unfolding rescored_def by blast
  then show "rescored p r" unfolding rescored_def by (intro exI [of _ w]) auto
qed

lemma scores_step_refl [simp]: "scores_step d d"
  by (simp add: scores_step_def same_tables_def list_all2_refl)

lemma scores_step_trans: "scores_step d e \<Longrightarrow> scores_step e f \<Longrightarrow> scores_step d f"
  unfolding scores_step_def
  by (auto intro: same_tables_trans list_all2_trans [of rescored rescored rescored] rescored_trans)

lemma scores_step_update:
  assumes "0 \<le> k" "k \<le> 10000"
  shows "scores_step d (update_protocol i (\<lambda>p. p\<lparr>p_quality_score := Some (of_int k / 10000)\<rparr>) d)"
proof -
  have "rescored p (p\<lparr>p_quality_score := Some (of_int k / 10000)\<rparr>)" for p
    using assms unfolding rescored_def by blast
  then show ?thesis
    by (simp add: scores_step_def) (simp add: update_protocol_def list_all2_map2 list_all2_same)
qed

lemma weighted_in_range:
  assumes "cfg = DEVNET \<or> cfg = MAINNET"
    and "0 \<le> u" "u < 2 ^ 53" "0 \<le> r" "r < 2 ^ 53" "0 \<le> s" "s < 2 ^ 53"
  shows "\<exists>x. weighted (components_of u r s) cfg = Fin x \<and> 0 \<le> x \<and> x \<le> 1"
proof (cases "cfg = DEVNET")
  case True
  with weighted_DEVNET [OF assms(2-7)] show ?thesis by auto
next
  case False
  with assms(1) have "cfg = MAINNET" by simp
  moreover obtain a b c e where "cp_u (components_of u r s) = Fin a" "cp_r (components_of u r s) = Fin b"
    "cp_c (components_of u r s) = Fin c" "cp_s (components_of u r s) = Fin e"
    using components_near [OF assms(2-7)] by (auto simp: near_def)
  ultimately show ?thesis
    by (simp add: weighted_def MAINNET_def Let_def to_f64_small b64.rnd_0)
qed

lemma window_counts:
  assumes "countable d"
  shows "length (distinct_wallets (since t (events_of i d))) < 2 ^ 53"
    "length (repeat_wallets gap (since t (events_of i d))) < 2 ^ 53"
    "length (social_earnings i d) < 2 ^ 53"
proof -
  have "length (since t (events_of i d)) \<le> length (point_events d)"
    unfolding since_def events_of_def by (meson length_filter_le order_trans)
  then have u: "length (distinct_wallets (since t (events_of i d))) \<le> length (point_events d)"
    using length_remdups_leq [of "map pe_user_wallet (since t (events_of i d))"]
    by (simp add: distinct_wallets_def)
  with assms show "length (distinct_wallets (since t (events_of i d))) < 2 ^ 53" by (simp add: countable_def)
  from repeat_wallets_le u have "length (repeat_wallets gap (since t (events_of i d))) \<le> length (point_events d)"
    by (rule order_trans)
  with assms show "length (repeat_wallets gap (since t (events_of i d))) < 2 ^ 53" by (simp add: countable_def)
  have "length (social_earnings i d) \<le> length (rewardz_earnings d) * length (milestones d)"
    unfolding social_earnings_def by (rule order_trans [OF length_filter_le]) (simp add: length_product)
  with assms show "length (social_earnings i d) < 2 ^ 53" by (simp add: countable_def)
qed

lemma count_unique_Inr:
  assumes "count_unique pg i w now d = Inr (n, e)" "countable d"
  shows "e = d \<and> 0 \<le> n \<and> n < 2 ^ 53"
  using assms window_counts(1) [OF assms(2)] by (auto simp: count_unique_def split: sum.splits)

lemma count_repeats_Inr:
  assumes "count_repeats pg i w g now d = Inr (n, e)" "countable d"
  shows "e = d \<and> 0 \<le> n \<and> n < 2 ^ 53"
  using assms window_counts(2) [OF assms(2)] by (auto simp: count_repeats_def split: sum.splits)

lemma engagement_outcome:
  assumes "no_other_writers pg" "countable (db s)" "compute_engagement pg i w g s = (res, t)"
  shows "db t = db s \<and> (\<forall>u r. res = Inr (u, r) \<longrightarrow> (\<exists>a b. 0 \<le> a \<and> a < 2 ^ 53 \<and> 0 \<le> b \<and> b < 2 ^ 53
    \<and> u = ratio_f64 a 100 \<and> r = (if a = 0 then Fin 0 else ratio_f64 b a)))"
proof -
  obtain r1 s1 where one: "execute pg (count_unique pg i (u64_as_i64 w)) s = (r1, s1)"
    by (cases "execute pg (count_unique pg i (u64_as_i64 w)) s")
  have base: "UNIQUE_WALLETS_BASELINE = f64_of_int 100"
    by (simp add: UNIQUE_WALLETS_BASELINE_def f64_of_int_exact)
  show ?thesis
  proof (cases r1)
    case (Inl e)
    with execute_outcome [OF assms(1) one] assms(3) one show ?thesis
      by (auto simp: compute_engagement_def andThen_def)
  next
    case (Inr a)
    with execute_outcome [OF assms(1) one] obtain now where
      "count_unique pg i (u64_as_i64 w) now (db s) = Inr (a, db s1)" by auto
    from count_unique_Inr [OF this assms(2)] have a: "db s1 = db s" "0 \<le> a" "a < 2 ^ 53" by auto
    show ?thesis
    proof (cases "a = 0")
      case True
      with assms(3) one Inr have "res = Inr (ratio_f64 0 100, Fin 0)" "t = s1"
        by (simp_all add: compute_engagement_def andThen_def ret_def ratio_f64_def base)
      with a(1) show ?thesis by (auto intro!: exI [of _ 0])
    next
      case False
      obtain r2 s2 where two: "execute pg (count_repeats pg i (u64_as_i64 w) (u64_as_i64 g)) s1 = (r2, s2)"
        by (cases "execute pg (count_repeats pg i (u64_as_i64 w) (u64_as_i64 g)) s1")
      have run: "(res, t) = (case (r2, s2) of (Inl e, s') \<Rightarrow> (Inl e, s')
          | (Inr b, s') \<Rightarrow> (Inr (ratio_f64 a 100, ratio_f64 b a), s'))"
        using assms(3) one Inr two False
        by (simp add: compute_engagement_def andThen_def ret_def ratio_f64_def base Let_def split: sum.splits)
      show ?thesis
      proof (cases r2)
        case (Inl e)
        with execute_outcome [OF assms(1) two] run a(1) show ?thesis by auto
      next
        case (Inr b)
        with execute_outcome [OF assms(1) two] a(1) obtain now where
          "count_repeats pg i (u64_as_i64 w) (u64_as_i64 g) now (db s) = Inr (b, db s2)" by auto
        from count_repeats_Inr [OF this assms(2)] have "db s2 = db s" "0 \<le> b" "b < 2 ^ 53" by auto
        with run Inr a False show ?thesis by auto
      qed
    qed
  qed
qed

lemma social_outcome:
  assumes "no_other_writers pg" "countable (db s)" "compute_social pg i s = (res, t)"
  shows "db t = db s \<and> (\<forall>x. res = Inr x \<longrightarrow> (\<exists>c. 0 \<le> c \<and> c < 2 ^ 53 \<and> x = ratio_f64 c 2))"
proof -
  let ?f = "\<lambda>now d. Inr (int (length (social_earnings i d)), d) :: string + int \<times> database"
  obtain r1 s1 where one: "execute pg ?f s = (r1, s1)" by (cases "execute pg ?f s")
  have two: "Fin 2 = f64_of_int 2" by (simp add: f64_of_int_exact)
  show ?thesis
  proof (cases r1)
    case (Inl e)
    with execute_outcome [OF assms(1) one] assms(3) one show ?thesis
      by (auto simp: compute_social_def andThen_def)
  next
    case (Inr c)
    with execute_outcome [OF assms(1) one] have c: "db s1 = db s" "c = int (length (social_earnings i (db s)))" by auto
    with assms(3) one Inr have "db t = db s" "\<forall>x. res = Inr x \<longrightarrow> x = ratio_f64 c 2"
      by (auto simp: compute_social_def andThen_def ret_def ratio_f64_def two)
    moreover have "0 \<le> c" "c < 2 ^ 53" using window_counts(3) [OF assms(2), of i] c(2) by simp_all
    ultimately show ?thesis by blast
  qed
qed

lemma score_one_outcome:
  assumes "no_other_writers pg" "rounds_decimals pg" "cfg = DEVNET \<or> cfg = MAINNET" "countable (db s)"
    and "score_one pg cfg i s = (res, t)"
  shows "scores_step (db s) (db t)"
proof -
  obtain r1 s1 where one: "compute_engagement pg i (lc_activity_window_hours cfg) (lc_repeat_gap_hours cfg) s = (r1, s1)"
    by (cases "compute_engagement pg i (lc_activity_window_hours cfg) (lc_repeat_gap_hours cfg) s")
  note first = engagement_outcome [OF assms(1,4) one]
  show ?thesis
  proof (cases r1)
    case (Inl e)
    with assms(5) one first show ?thesis by (simp add: score_one_def andThen_def)
  next
    case (Inr ur)
    then obtain u r where ur: "r1 = Inr (u, r)" by (cases ur) auto
    obtain r2 s2 where two: "compute_social pg i s1 = (r2, s2)" by (cases "compute_social pg i s1")
    from first have "countable (db s1)" using assms(4) by simp
    note second = social_outcome [OF assms(1) this two]
    show ?thesis
    proof (cases r2)
      case (Inl e)
      with assms(5) one two ur first second show ?thesis by (simp add: score_one_def andThen_def)
    next
      case (Inr x)
      from first ur second Inr obtain a b c where abc: "0 \<le> a" "a < 2 ^ 53" "0 \<le> b" "b < 2 ^ 53" "0 \<le> c" "c < 2 ^ 53"
        and "u = ratio_f64 a 100" "r = (if a = 0 then Fin 0 else ratio_f64 b a)" "x = ratio_f64 c 2" by blast
      then have comps: "\<lparr>cp_u = u, cp_r = r, cp_c = COMPLETION_SCORE_PLACEHOLDER, cp_s = x\<rparr> = components_of a b c"
        by (simp add: components_of_def)
      obtain y where y: "weighted (components_of a b c) cfg = Fin y" "0 \<le> y" "y \<le> 1"
        using weighted_in_range [OF assms(3) abc] by blast
      obtain k where k: "pg_decimal_5_4 pg (Fin y) = Inr (of_int k / 10000)" "0 \<le> k" "k \<le> 10000"
        using assms(2) y(2,3) unfolding rounds_decimals_def by blast
      have run: "execute pg (set_quality_score pg (Fin y) i) s2 = (res, t)"
        using assms(5) one two ur Inr by (simp add: score_one_def andThen_def Let_def comps y(1))
      have step: "scores_step d e" if "set_quality_score pg (Fin y) i now d = Inr (z, e)" for now d z e
        using that k scores_step_update by (auto simp: set_quality_score_def split: if_splits)
      from execute_outcome [OF assms(1) run] step first second show ?thesis by fastforce
    qed
  qed
qed

lemma scores_step_countable: "scores_step d e \<Longrightarrow> countable d \<Longrightarrow> countable e"
  using same_tables_score(2) by (auto simp: scores_step_def)

lemma score_each_outcome:
  assumes "no_other_writers pg" "rounds_decimals pg" "cfg = DEVNET \<or> cfg = MAINNET" "countable (db s)"
  shows "scores_step (db s) (db (snd (score_each pg cfg ids n s)))"
  using assms(4)
proof (induction ids arbitrary: n s)
  case Nil
  show ?case by (simp add: ret_def)
next
  case (Cons i ids)
  obtain res t where run: "score_one pg cfg i s = (res, t)" by (cases "score_one pg cfg i s")
  from score_one_outcome [OF assms(1-3) Cons.prems run] have step: "scores_step (db s) (db t)" .
  then have "scores_step (db t) (db (snd (score_each pg cfg ids m t)))" for m
    using Cons.prems scores_step_countable by (intro Cons.IH) blast
  with step run show ?case
    by (auto simp: andThen_def attempt_def intro: scores_step_trans split: sum.splits fault.splits)
qed

lemma quality_tick_outcome:
  assumes "no_other_writers pg" "rounds_decimals pg" "cfg = DEVNET \<or> cfg = MAINNET" "countable (db s)"
  shows "scores_step (db s) (db (snd (quality_tick pg cfg s)))"
proof -
  let ?f = "\<lambda>now d. Inr (map p_id (active_protocols d), d) :: string + uuid list \<times> database"
  obtain res t where run: "execute pg ?f s = (res, t)" by (cases "execute pg ?f s")
  from execute_outcome [OF assms(1) run] have "db t = db s" by auto
  with score_each_outcome [OF assms(1-3), of t] assms(4) run show ?thesis
    by (auto simp: quality_tick_def andThen_def split: sum.splits)
qed

lemma scores_step_columns: "scores_step d e \<Longrightarrow> \<forall>p \<in> set (protocols d). columns_fit p \<Longrightarrow> \<forall>p \<in> set (protocols e). columns_fit p"
proof
  fix q assume step: "scores_step d e" and fit: "\<forall>p \<in> set (protocols d). columns_fit p" and q: "q \<in> set (protocols e)"
  then obtain p where p: "p \<in> set (protocols d)" "rescored p q"
    unfolding scores_step_def by (metis in_set_conv_nth list_all2_conv_all_nth)
  then obtain v where v: "q = p\<lparr>p_quality_score := v\<rparr>"
    "v = p_quality_score p \<or> (\<exists>k. 0 \<le> k \<and> k \<le> 10000 \<and> v = Some (of_int k / 10000))" by (auto simp: rescored_def)
  from fit p(1) have "columns_fit p" by simp
  with v show "columns_fit q"
    by (fastforce simp: columns_fit_def)
qed

interpretation quality: invariant_system
    "\<lambda>s t. \<exists>pg cfg. no_other_writers pg \<and> rounds_decimals pg \<and> (cfg = DEVNET \<or> cfg = MAINNET) \<and> t = snd (quality_tick pg cfg s)"
    "\<lambda>s. countable (db s) \<and> (\<forall>p \<in> set (protocols (db s)). columns_fit p)"
  using quality_tick_outcome scores_step_columns scores_step_countable by unfold_locales blast

text \<open>
  C36: the columns stay well typed. Over any number of turns of the cron on either network, with
  round trips failing anywhere and whatever the server makes of the interval parameters, every
  protocol keeps a capacity of 64 bits and a score of four decimals, and the cron writes no
  column but the score.
\<close>

theorem quality_cron_keeps_types:
  fixes pg :: "'w pg"
  assumes "no_other_writers pg" "rounds_decimals pg" "countable (db s)"
    and "\<forall>p \<in> set (protocols (db s)). columns_fit p"
  shows "(\<forall>p \<in> set (protocols (db (snd (start_quality_score_cron env pg n s)))). columns_fit p)
    \<and> scores_step (db s) (db (snd (start_quality_score_cron env pg n s)))"
proof -
  have "countable (db (snd (start_quality_score_cron env pg n s)))
      \<and> scores_step (db s) (db (snd (start_quality_score_cron env pg n s)))"
    unfolding start_quality_score_cron_def
  proof (rule league_cron_keep [where ok = "\<lambda>s. countable (db s)"])
    fix cfg and s :: "'w app"
    assume "load_league_config env = Inr cfg" and s: "countable (db s)"
    then have "cfg = DEVNET \<or> cfg = MAINNET" by (intro load_league_config_cases)
    with quality_tick_outcome [OF assms(1,2) _ s] scores_step_countable s
    show "countable (db (snd (quality_tick pg cfg s))) \<and> scores_step (db s) (db (snd (quality_tick pg cfg s)))" by blast
  qed (use assms(3) scores_step_trans in \<open>auto\<close>)
  with scores_step_columns assms(4) show ?thesis by blast
qed

subsection \<open>A server without the overload\<close>

text \<open>
  Without an overload of \<open>make_interval\<close> for \<open>bigint\<close> hours no score is ever written.
  The window is bound as an \<open>i64\<close>; on a server that refuses such a call every protocol fails,
  the failures are only logged, and the tables stay as they are for as long as the cron runs.
\<close>

theorem quality_cron_needs_bigint_hours:
  assumes "no_other_writers pg" and "\<forall>hours. \<exists>e. pg_make_interval pg ''hours'' hours = Inl e"
  shows "db (snd (start_quality_score_cron env pg n s)) = db s"
proof -
  have one: "db (snd (score_one pg cfg i s)) = db s" for cfg i s
  proof -
    obtain res t where run: "execute pg (count_unique pg i (u64_as_i64 (lc_activity_window_hours cfg))) s = (res, t)"
      by (cases "execute pg (count_unique pg i (u64_as_i64 (lc_activity_window_hours cfg))) s")
    from assms(2) obtain e where "pg_make_interval pg ''hours'' (u64_as_i64 (lc_activity_window_hours cfg)) = Inl e" by blast
    with execute_outcome [OF assms(1) run] obtain f where "res = Inl f" "db t = db s"
      by (auto simp: count_unique_def)
    with run show ?thesis by (simp add: score_one_def compute_engagement_def andThen_def)
  qed
  have each: "db (snd (score_each pg cfg ids m s)) = db s" for cfg ids m s
  proof (induction ids arbitrary: m s)
    case Nil
    show ?case by (simp add: ret_def)
  next
    case (Cons i ids)
    obtain res t where run: "score_one pg cfg i s = (res, t)" by (cases "score_one pg cfg i s")
    with one [of cfg i s] have "db t = db s" by simp
    with run Cons show ?case by (auto simp: andThen_def attempt_def split: sum.splits fault.splits)
  qed
  have tick: "db (snd (quality_tick pg cfg s)) = db s" for cfg s
  proof -
    let ?f = "\<lambda>now d. Inr (map p_id (active_protocols d), d) :: string + uuid list \<times> database"
    obtain res t where run: "execute pg ?f s = (res, t)" by (cases "execute pg ?f s")
    from execute_outcome [OF assms(1) run] have "db t = db s" by auto
    with each run show ?thesis by (auto simp: quality_tick_def andThen_def split: sum.splits)
  qed
  then show ?thesis
    unfolding start_quality_score_cron_def
    using league_cron_keep [where R = "\<lambda>s t. db t = db s" and ok = "\<lambda>_. True" and tick = "quality_tick pg"] by auto
qed

subsection \<open>Concrete runs\<close>

lemma one_protocol_counts [simp]:
  "countable one_protocol" "events_of i one_protocol = []" "rewardz_earnings one_protocol = []"
  "unique_count now one_protocol i = 0" "repeat_count now one_protocol i = 0" "social_count one_protocol i = 0"
  by (simp_all add: countable_def unique_count_def repeat_count_def social_count_def recent_events_def since_def
      events_of_def distinct_wallets_def repeat_wallets_def social_earnings_def)


theorem quality_floor_inert_witness:
  "\<exists>p. protocols (db (snd (quality_tick quiet_pg DEVNET (app_of () one_protocol)))) = [p]
    \<and> visibility_rule 1000 (db (snd (quality_tick quiet_pg DEVNET (app_of () one_protocol)))) p
      = rule_without_quality 1000 (db (snd (quality_tick quiet_pg DEVNET (app_of () one_protocol)))) p"
proof -
  have c: "countable (db (app_of () one_protocol))" "distinct (map p_id (protocols (db (app_of () one_protocol))))" by simp_all
  obtain t where run: "quality_tick quiet_pg DEVNET (app_of () one_protocol) = (Inr 1, t)"
    and p: "protocols (db t) = [league_protocol\<lparr>p_quality_score :=
      Some (stored quiet_pg (score_f64 1000 one_protocol 1))\<rparr>]"
    by (rule quiet_quality_tick [OF quiet_pg takes_bigint_quiet_pg rounds_decimals_quiet_pg c])
      (auto simp: active_protocols_def)
  let ?p = "league_protocol\<lparr>p_quality_score := Some (stored quiet_pg (score_f64 1000 one_protocol 1))\<rparr>"
  have "?p \<in> set (protocols (db t))" "p_status ?p = ''active''" using p by simp_all
  from quality_floor_inert [OF quiet_pg takes_bigint_quiet_pg rounds_decimals_quiet_pg c run this] run p
  show ?thesis by simp
qed

theorem quality_cron_keeps_types_witness:
  "scores_step one_protocol (db (snd (start_quality_score_cron [''SOLANA_NETWORK'' \<mapsto> ''mainnet''] quiet_pg 3
      (app_of () one_protocol))))"
proof -
  have "countable (db (app_of () one_protocol))" "\<forall>p \<in> set (protocols (db (app_of () one_protocol))). columns_fit p"
    by (simp_all add: columns_fit_def)
  from quality_cron_keeps_types [OF quiet_pg_simps(1) rounds_decimals_quiet_pg this] show ?thesis by simp
qed

theorem quality_cron_needs_bigint_hours_witness:
  "db (snd (start_quality_score_cron [''SOLANA_NETWORK'' \<mapsto> ''devnet'']
     (quiet_pg\<lparr>pg_make_interval := \<lambda>unit n. Inl ''function make_interval(hours => bigint) does not exist''\<rparr>) 5
     (app_of () one_protocol))) = one_protocol"
proof -
  let ?pg = "quiet_pg\<lparr>pg_make_interval := \<lambda>unit n. Inl ''function make_interval(hours => bigint) does not exist''\<rparr>"
  have "no_other_writers ?pg" "\<forall>hours. \<exists>e. pg_make_interval ?pg ''hours'' hours = Inl e"
    by (simp_all add: no_other_writers_def quiet_pg_def)
  from quality_cron_needs_bigint_hours [OF this, where s = "app_of () one_protocol"] show ?thesis by simp
qed

end
