(* ===== verification/Milestone_Processor.thy ===== *)
theory Milestone_Processor
  imports Engagement League_Config Db
begin

section \<open>milestone\_processor.rs: the milestones of the league\<close>

text \<open>
  \<^verbatim>\<open>src/src/milestone_processor.rs\<close>: each milestone of the network's catalogue is one
  \<open>INSERT ... SELECT\<close> over the protocols, with the predicate of its slug and gates that every
  slug shares. A predicate is a function of the tables and of the row of \<open>protocols\<close>.
\<close>

definition ALL_SLUGS :: "string list" where
  "ALL_SLUGS =
     [''first_blink'', ''first_stake'', ''first_issuance'', ''first_five_unique_wallets'',
      ''first_repeat_user'', ''twenty_five_unique_wallets'', ''ten_repeat_users'',
      ''follow_league'', ''launch_thread'']"

definition load_milestone_rewards :: "'w pg \<Rightarrow> string \<Rightarrow> ('w app, (string \<times> int \<times> int) list) prog" where
  "load_milestone_rewards pg network_name =
     execute pg (\<lambda>now d. Inr
       (map (\<lambda>(m, mr). (m_slug m, m_id m, mr_rewardz_amount mr))
          (filter (\<lambda>(m, mr). mr_milestone_id mr = m_id m \<and> mr_network mr = network_name)
             (List.product (milestones d) (milestone_rewards d))), d))"

type_synonym predicate = "database \<Rightarrow> protocol \<Rightarrow> bool"

definition by_others :: "database \<Rightarrow> protocol \<Rightarrow> point_event list" where
  \<comment> \<open>the protocol's events of wallets other than its admin's\<close>
  "by_others d p = not_by (p_admin_wallet p) (events_of (p_id p) d)"

definition weights_of :: "database \<Rightarrow> protocol \<Rightarrow> rat list" where
  \<comment> \<open>the left join with \<open>wallet_weights\<close>, the missing row as weight 1\<close>
  "weights_of d p =
     (case filter (\<lambda>ww. wt_protocol_id ww = p_id p \<and> wt_wallet ww = p_admin_wallet p) (wallet_weights d) of
        [] \<Rightarrow> [1]
      | w # ws \<Rightarrow> map wt_weight (w # ws))"

definition eligible :: "int \<Rightarrow> predicate \<Rightarrow> database \<Rightarrow> protocol \<Rightarrow> bool" where
  "eligible milestone_id predicate d p \<longleftrightarrow>
     p_status p = ''active''
     \<and> open_flags (p_id p) d = []
     \<and> \<not> (\<exists>re \<in> set (rewardz_earnings d). re_protocol_id re = p_id p \<and> re_milestone_id re = Some milestone_id)
     \<and> predicate d p"

definition award_row :: "int \<Rightarrow> int \<Rightarrow> string \<Rightarrow> time \<Rightarrow> protocol \<Rightarrow> rat \<Rightarrow> earning" where
  "award_row milestone_id amount reason now p weight =
     \<lparr>re_protocol_id = p_id p, re_protocol_authority = p_admin_wallet p,
      re_amount = \<lfloor>of_int amount * weight\<rfloor>, re_reason = reason,
      re_milestone_id = Some milestone_id, re_created_at = now, re_included_in_root_epoch = None\<rparr>"

definition same_milestone :: "earning \<Rightarrow> earning \<Rightarrow> bool" where
  \<comment> \<open>the unique index: a row without a milestone conflicts with none\<close>
  "same_milestone a b \<longleftrightarrow>
     re_milestone_id a \<noteq> None \<and> re_milestone_id a = re_milestone_id b \<and> re_protocol_id a = re_protocol_id b"

definition award_statement :: "'w pg \<Rightarrow> int \<Rightarrow> int \<Rightarrow> string \<Rightarrow> predicate \<Rightarrow> nat statement" where
  "award_statement pg milestone_id amount reason predicate now d =
     (let rows = concat (map (\<lambda>p. map (award_row milestone_id amount reason now p) (weights_of d p))
            (filter (eligible milestone_id predicate d) (protocols d))) in
      if \<not> pg_whole_milestone_index pg then
        Inl ''there is no unique or exclusion constraint matching the ON CONFLICT specification''
      else if \<not> list_all (\<lambda>r. in_i64 (re_amount r)) rows then Inl ''bigint out of range''
      else
        (let (table, n) = insert_rows same_milestone rows (rewardz_earnings d) in
         Inr (n, d\<lparr>rewardz_earnings := table\<rparr>)))"

definition insert_with_dynamic_predicate ::
    "'w pg \<Rightarrow> int \<Rightarrow> int \<Rightarrow> string \<Rightarrow> predicate \<Rightarrow> ('w app, nat) prog" where
  "insert_with_dynamic_predicate pg milestone_id amount slug predicate =
     execute pg (award_statement pg milestone_id amount (''milestone:'' @ slug) predicate)"

definition insert_if :: "'w pg \<Rightarrow> int \<Rightarrow> int \<Rightarrow> string \<Rightarrow> predicate \<Rightarrow> ('w app, nat) prog" where
  "insert_if pg milestone_id amount slug predicate =
     insert_with_dynamic_predicate pg milestone_id amount slug predicate"

definition literal_hours :: "'w pg \<Rightarrow> int \<Rightarrow> string + int" where
  \<comment> \<open>\<open>make_interval\<close> of hours spelled out in the text of the statement: an \<open>int4\<close> if it fits\<close>
  "literal_hours pg n =
     (if - (2 ^ 31) \<le> n \<and> n < 2 ^ 31 then Inr (n * 3600000000) else pg_make_interval pg ''hours'' n)"

definition repeat_users :: "int \<Rightarrow> int \<Rightarrow> predicate" where
  "repeat_users gap threshold d p \<longleftrightarrow> threshold \<le> int (length (repeat_wallets gap (by_others d p)))"

definition insert_repeat_users ::
    "'w pg \<Rightarrow> league_config \<Rightarrow> int \<Rightarrow> int \<Rightarrow> string \<Rightarrow> int \<Rightarrow> ('w app, nat) prog" where
  "insert_repeat_users pg cfg milestone_id amount slug min_repeat_wallets =
     (case literal_hours pg (u64_as_i64 (lc_repeat_gap_hours cfg)) of
        Inl e \<Rightarrow> execute pg (\<lambda>now d. Inl e)
      | Inr gap \<Rightarrow> insert_with_dynamic_predicate pg milestone_id amount slug (repeat_users gap min_repeat_wallets))"

definition any_event :: predicate where
  "any_event d p \<longleftrightarrow> events_of (p_id p) d \<noteq> []"

definition issued_to_others :: predicate where
  "issued_to_others d p \<longleftrightarrow> (\<exists>pe \<in> set (by_others d p). pe_type pe = ''awarded'')"

definition unique_wallets_reach :: "nat \<Rightarrow> predicate" where
  "unique_wallets_reach n d p \<longleftrightarrow> n \<le> length (distinct_wallets (by_others d p))"

definition process_slug ::
    "'w pg \<Rightarrow> league_config \<Rightarrow> string \<Rightarrow> int \<Rightarrow> int \<Rightarrow> ('w app, nat) prog" where
  "process_slug pg cfg slug milestone_id amount =
     (if slug = ''first_blink'' then insert_if pg milestone_id amount slug any_event
      else if slug = ''first_stake'' then ret 0
      else if slug = ''first_issuance'' then insert_if pg milestone_id amount slug issued_to_others
      else if slug = ''first_five_unique_wallets'' then
        insert_if pg milestone_id amount slug (unique_wallets_reach 5)
      else if slug = ''first_repeat_user'' then insert_repeat_users pg cfg milestone_id amount slug 1
      else if slug = ''twenty_five_unique_wallets'' then
        insert_if pg milestone_id amount slug (unique_wallets_reach 25)
      else if slug = ''ten_repeat_users'' then insert_repeat_users pg cfg milestone_id amount slug 10
      else if slug = ''follow_league'' \<or> slug = ''launch_thread'' then ret 0
      else ret 0)"

fun process_each ::
    "'w pg \<Rightarrow> league_config \<Rightarrow> (string \<times> int \<times> int) list \<Rightarrow> nat \<Rightarrow> ('w app, nat) prog" where
  "process_each pg cfg [] awarded = ret awarded"
| "process_each pg cfg ((slug, milestone_id, amount) # rewards) awarded =
     andThen (attempt (process_slug pg cfg slug milestone_id amount)) (\<lambda>outcome.
     process_each pg cfg rewards (case outcome of Inr n \<Rightarrow> awarded + n | Inl _ \<Rightarrow> awarded))"

definition network_name :: "league_config \<Rightarrow> string" where
  "network_name cfg = (case lc_network cfg of Devnet \<Rightarrow> ''devnet'' | Mainnet \<Rightarrow> ''mainnet'')"

definition missing_slugs :: "(string \<times> int \<times> int) list \<Rightarrow> string list" where
  \<comment> \<open>the slugs that the tick warns about\<close>
  "missing_slugs rewards = filter (\<lambda>slug. slug \<notin> fst ` set rewards) ALL_SLUGS"

definition milestone_tick :: "'w pg \<Rightarrow> league_config \<Rightarrow> ('w app, nat) prog" where
  "milestone_tick pg cfg =
     andThen (load_milestone_rewards pg (network_name cfg)) (\<lambda>rewards. process_each pg cfg rewards 0)"

definition start_milestone_processor_cron :: "environment \<Rightarrow> 'w pg \<Rightarrow> nat \<Rightarrow> ('w app, unit) prog" where
  "start_milestone_processor_cron env pg n = league_cron env (milestone_tick pg) n"

subsection \<open>The rule of a milestone\<close>

interpretation milestone_index: unique_index same_milestone
  by unfold_locales (auto simp: same_milestone_def)

definition milestone_rule :: "league_config \<Rightarrow> string \<Rightarrow> predicate" where
  \<comment> \<open>when a protocol has reached a milestone; the social ones and the stake never, by this cron\<close>
  "milestone_rule cfg slug d p \<longleftrightarrow>
     (let others = by_others d p; gap = int (unat (lc_repeat_gap_hours cfg)) * 3600000000 in
      (slug = ''first_blink'' \<and> events_of (p_id p) d \<noteq> [])
      \<or> (slug = ''first_issuance'' \<and> (\<exists>e \<in> set others. pe_type e = ''awarded''))
      \<or> (slug = ''first_five_unique_wallets'' \<and> 5 \<le> card (pe_user_wallet ` set others))
      \<or> (slug = ''twenty_five_unique_wallets'' \<and> 25 \<le> card (pe_user_wallet ` set others))
      \<or> (slug = ''first_repeat_user'' \<and> 1 \<le> length (repeat_wallets gap others))
      \<or> (slug = ''ten_repeat_users'' \<and> 10 \<le> length (repeat_wallets gap others)))"

lemma length_distinct_wallets: "length (distinct_wallets es) = card (pe_user_wallet ` set es)"
  by (metis distinct_card distinct_distinct_wallets set_distinct_wallets)

lemma repeat_gap:
  assumes "cfg = DEVNET \<or> cfg = MAINNET"
  shows "literal_hours pg (u64_as_i64 (lc_repeat_gap_hours cfg)) = Inr (int (unat (lc_repeat_gap_hours cfg)) * 3600000000)"
  using assms by (auto simp: literal_hours_def u64_as_i64_id DEVNET_def MAINNET_def)

lemma milestone_rule_slugs:
  "milestone_rule cfg ''first_blink'' = any_event"
  "milestone_rule cfg ''first_issuance'' = issued_to_others"
  "milestone_rule cfg ''first_five_unique_wallets'' = unique_wallets_reach 5"
  "milestone_rule cfg ''twenty_five_unique_wallets'' = unique_wallets_reach 25"
  "milestone_rule cfg ''first_repeat_user'' = repeat_users (int (unat (lc_repeat_gap_hours cfg)) * 3600000000) 1"
  "milestone_rule cfg ''ten_repeat_users'' = repeat_users (int (unat (lc_repeat_gap_hours cfg)) * 3600000000) 10"
  by (simp_all add: fun_eq_iff milestone_rule_def any_event_def issued_to_others_def unique_wallets_reach_def
      repeat_users_def length_distinct_wallets Let_def)

lemma process_slug_rule:
  \<comment> \<open>a slug runs the statement of its rule, or nothing when its rule can never fire\<close>
  assumes "cfg = DEVNET \<or> cfg = MAINNET"
  obtains "process_slug pg cfg slug milestone_id amount = ret 0" "\<And>d p. \<not> milestone_rule cfg slug d p"
  | "process_slug pg cfg slug milestone_id amount =
       execute pg (award_statement pg milestone_id amount (''milestone:'' @ slug) (milestone_rule cfg slug))"
proof (cases "slug \<in> {''first_blink'', ''first_issuance'', ''first_five_unique_wallets'',
        ''twenty_five_unique_wallets'', ''first_repeat_user'', ''ten_repeat_users''}")
  case True
  then have "process_slug pg cfg slug milestone_id amount =
      execute pg (award_statement pg milestone_id amount (''milestone:'' @ slug) (milestone_rule cfg slug))"
    unfolding insert_iff empty_iff
    by (elim disjE) (simp_all add: process_slug_def insert_if_def insert_with_dynamic_predicate_def
        insert_repeat_users_def repeat_gap [OF assms] milestone_rule_slugs)
  then show thesis by (rule that(2))
next
  case False
  then have "process_slug pg cfg slug milestone_id amount = ret 0"
    by (simp add: process_slug_def)
  moreover have "\<not> milestone_rule cfg slug d p" for d p
    using False by (simp add: milestone_rule_def Let_def)
  ultimately show thesis by (rule that(1))
qed

subsection \<open>One statement\<close>

definition catalogue :: "league_config \<Rightarrow> database \<Rightarrow> (string \<times> int \<times> int) set" where
  \<comment> \<open>slug, milestone and amount of every reward of the network\<close>
  "catalogue cfg d =
     {(m_slug m, m_id m, mr_rewardz_amount mr) |m mr. m \<in> set (milestones d) \<and> mr \<in> set (milestone_rewards d)
        \<and> mr_milestone_id mr = m_id m \<and> mr_network mr = network_name cfg}"

definition justified :: "league_config \<Rightarrow> database \<Rightarrow> earning \<Rightarrow> bool" where
  \<comment> \<open>an award that the tables warrant\<close>
  "justified cfg d r \<longleftrightarrow>
     (\<exists>p \<in> set (protocols d). \<exists>slug milestone_id amount. (slug, milestone_id, amount) \<in> catalogue cfg d
        \<and> re_protocol_id r = p_id p \<and> re_protocol_authority r = p_admin_wallet p \<and> p_status p = ''active''
        \<and> open_flags (p_id p) d = [] \<and> milestone_rule cfg slug d p
        \<and> re_milestone_id r = Some milestone_id \<and> re_reason r = ''milestone:'' @ slug
        \<and> re_included_in_root_epoch r = None
        \<and> (\<exists>w \<in> set (weights_of d p). re_amount r = \<lfloor>of_int amount * w\<rfloor>))"

definition award_step :: "league_config \<Rightarrow> database \<Rightarrow> database \<Rightarrow> bool" where
  "award_step cfg d e \<longleftrightarrow>
     (\<exists>new. e = d\<lparr>rewardz_earnings := rewardz_earnings d @ new\<rparr> \<and> list_all (justified cfg d) new)
     \<and> (free_of_conflicts same_milestone (rewardz_earnings d) \<longrightarrow> free_of_conflicts same_milestone (rewardz_earnings e))"

lemma with_earnings_simps [simp]:
  "catalogue cfg (d\<lparr>rewardz_earnings := es\<rparr>) = catalogue cfg d"
  "milestone_rule cfg slug (d\<lparr>rewardz_earnings := es\<rparr>) p = milestone_rule cfg slug d p"
  "open_flags i (d\<lparr>rewardz_earnings := es\<rparr>) = open_flags i d"
  "weights_of (d\<lparr>rewardz_earnings := es\<rparr>) p = weights_of d p"
  by (simp_all add: catalogue_def milestone_rule_def by_others_def events_of_def open_flags_def weights_of_def)

lemma justified_with_earnings [simp]: "justified cfg (d\<lparr>rewardz_earnings := es\<rparr>) = justified cfg d"
  by (simp add: justified_def fun_eq_iff)

lemma award_step_refl [simp]: "award_step cfg d d"
  unfolding award_step_def by (auto intro!: exI [of _ "[]"])

lemma award_step_trans:
  assumes "award_step cfg d e" "award_step cfg e f"
  shows "award_step cfg d f"
proof -
  from assms obtain a b where "e = d\<lparr>rewardz_earnings := rewardz_earnings d @ a\<rparr>" "list_all (justified cfg d) a"
    "f = e\<lparr>rewardz_earnings := rewardz_earnings e @ b\<rparr>" "list_all (justified cfg e) b"
    unfolding award_step_def by blast
  then have "f = d\<lparr>rewardz_earnings := rewardz_earnings d @ (a @ b)\<rparr> \<and> list_all (justified cfg d) (a @ b)" by simp
  with assms show ?thesis unfolding award_step_def by blast
qed

lemma award_step_catalogue: "award_step cfg d e \<Longrightarrow> catalogue cfg e = catalogue cfg d"
  by (auto simp: award_step_def)

lemma award_statement_step:
  assumes "award_statement pg milestone_id amount (''milestone:'' @ slug) (milestone_rule cfg slug) now d = Inr (n, e)"
    and "(slug, milestone_id, amount) \<in> catalogue cfg d"
  shows "award_step cfg d e"
proof -
  let ?rows = "concat (map (\<lambda>p. map (award_row milestone_id amount (''milestone:'' @ slug) now p) (weights_of d p))
      (filter (eligible milestone_id (milestone_rule cfg slug) d) (protocols d)))"
  have e: "e = d\<lparr>rewardz_earnings := fst (insert_rows same_milestone ?rows (rewardz_earnings d))\<rparr>"
    using assms(1) by (auto simp: award_statement_def Let_def split: if_splits prod.splits)
  have just: "justified cfg d r" if "r \<in> set ?rows" for r
  proof -
    from that obtain p w where "p \<in> set (protocols d)" "eligible milestone_id (milestone_rule cfg slug) d p"
      "w \<in> set (weights_of d p)" "r = award_row milestone_id amount (''milestone:'' @ slug) now p w" by auto
    with assms(2) show ?thesis
      unfolding justified_def by (intro bexI [of _ p] exI [of _ slug] exI [of _ milestone_id] exI [of _ amount])
        (simp_all add: eligible_def award_row_def, blast)
  qed
  from insert_rows_appends [of same_milestone ?rows "rewardz_earnings d"] obtain new where
    new: "insert_rows same_milestone ?rows (rewardz_earnings d) = (rewardz_earnings d @ new, length new)"
    and sub: "set new \<subseteq> set ?rows" by (elim exE conjE)
  from sub just have "list_all (justified cfg d) new" unfolding list_all_iff by blast
  with e new show ?thesis
    unfolding award_step_def using insert_rows_free [of same_milestone "rewardz_earnings d" ?rows]
    by (simp only: fst_conv) auto
qed

subsection \<open>The cron\<close>

lemma process_slug_step:
  assumes "no_other_writers pg" "cfg = DEVNET \<or> cfg = MAINNET" "(slug, milestone_id, amount) \<in> catalogue cfg (db s)"
  shows "award_step cfg (db s) (db (snd (process_slug pg cfg slug milestone_id amount s)))"
proof (rule process_slug_rule [OF assms(2), of pg slug milestone_id amount])
  assume "process_slug pg cfg slug milestone_id amount = ret 0"
  then show ?thesis by (simp add: ret_def)
next
  assume run: "process_slug pg cfg slug milestone_id amount =
       execute pg (award_statement pg milestone_id amount (''milestone:'' @ slug) (milestone_rule cfg slug))"
  obtain res t where t: "process_slug pg cfg slug milestone_id amount s = (res, t)"
    by (cases "process_slug pg cfg slug milestone_id amount s")
  from execute_outcome [OF assms(1) t [unfolded run]] have "award_step cfg (db s) (db t)"
    using award_statement_step [OF _ assms(3)] by auto
  with t show ?thesis by simp
qed

lemma process_each_step:
  assumes "no_other_writers pg" "cfg = DEVNET \<or> cfg = MAINNET"
  shows "set rewards \<subseteq> catalogue cfg (db s) \<Longrightarrow> award_step cfg (db s) (db (snd (process_each pg cfg rewards n s)))"
proof (induction rewards arbitrary: n s)
  case Nil
  show ?case by (simp add: ret_def)
next
  case (Cons r rewards)
  obtain slug milestone_id amount where r: "r = (slug, milestone_id, amount)" by (cases r)
  obtain res t where run: "attempt (process_slug pg cfg slug milestone_id amount) s = (res, t)"
    by (cases "attempt (process_slug pg cfg slug milestone_id amount) s")
  then have t: "t = snd (process_slug pg cfg slug milestone_id amount s)" by (metis snd_attempt snd_conv)
  have one: "award_step cfg (db s) (db t)"
    unfolding t using Cons.prems r by (intro process_slug_step [OF assms]) auto
  then have "award_step cfg (db t) (db (snd (process_each pg cfg rewards m t)))" for m
    using Cons award_step_catalogue [OF one] by auto
  with one run r show ?case
    by (auto simp: andThen_def intro: award_step_trans split: sum.splits)
qed

lemma load_rewards_outcome:
  assumes "no_other_writers pg" "load_milestone_rewards pg (network_name cfg) s = (res, t)"
  shows "db t = db s" and "res = Inr rewards \<Longrightarrow> set rewards = catalogue cfg (db s)"
proof -
  have "set (map (\<lambda>(m, mr). (m_slug m, m_id m, mr_rewardz_amount mr))
      (filter (\<lambda>(m, mr). mr_milestone_id mr = m_id m \<and> mr_network mr = network_name cfg)
         (List.product (milestones d) (milestone_rewards d)))) = catalogue cfg d" for d
    unfolding catalogue_def by (force simp: image_iff)
  with execute_outcome [OF assms(1) assms(2) [unfolded load_milestone_rewards_def]]
  show "db t = db s" and "res = Inr rewards \<Longrightarrow> set rewards = catalogue cfg (db s)" by auto
qed

lemma milestone_tick_step:
  assumes "no_other_writers pg" "cfg = DEVNET \<or> cfg = MAINNET"
  shows "award_step cfg (db s) (db (snd (milestone_tick pg cfg s)))"
proof -
  obtain res t where run: "load_milestone_rewards pg (network_name cfg) s = (res, t)"
    by (cases "load_milestone_rewards pg (network_name cfg) s")
  note load = load_rewards_outcome [OF assms(1) run]
  show ?thesis
  proof (cases res)
    case (Inl e)
    with run load show ?thesis by (simp add: milestone_tick_def andThen_def)
  next
    case (Inr rewards)
    with load have "set rewards \<subseteq> catalogue cfg (db t)" by simp
    from process_each_step [OF assms this, of 0] run load Inr show ?thesis
      by (simp add: milestone_tick_def andThen_def)
  qed
qed

lemma milestone_cron_step:
  fixes pg :: "'w pg"
  assumes "no_other_writers pg" "load_league_config env = Inr cfg"
  shows "award_step cfg (db s) (db (snd (start_milestone_processor_cron env pg n s)))"
proof -
  have "True \<and> award_step cfg (db s) (db (snd (league_cron env (milestone_tick pg) n s)))"
  proof (rule league_cron_keep [where ok = "\<lambda>_. True" and R = "\<lambda>s t. award_step cfg (db s) (db t)"])
    fix c and s :: "'w app"
    assume "load_league_config env = Inr c"
    then have "c = cfg" "c = DEVNET \<or> c = MAINNET" using assms(2) load_league_config_cases by auto
    with milestone_tick_step [OF assms(1)]
    show "True \<and> award_step cfg (db s) (db (snd (milestone_tick pg c s)))" by blast
  qed (auto intro: award_step_trans)
  then show ?thesis by (simp add: start_milestone_processor_cron_def)
qed

text \<open>
  C14: a milestone is earned once, and only when it is reached. Over any number of turns, with
  round trips failing anywhere, the cron only appends earnings; each goes to the admin wallet
  of an active protocol without an open flag that satisfies the rule of the milestone's slug,
  for the amount of the network's catalogue scaled by the wallet's weight; and no protocol ever
  holds two earnings of one milestone.
\<close>

theorem milestone_awards_justified:
  fixes pg :: "'w pg"
  assumes "no_other_writers pg" "load_league_config env = Inr cfg"
    and "free_of_conflicts same_milestone (rewardz_earnings (db s))"
  shows "\<exists>new. db (snd (start_milestone_processor_cron env pg n s)) =
      (db s)\<lparr>rewardz_earnings := rewardz_earnings (db s) @ new\<rparr>
    \<and> list_all (justified cfg (db s)) new
    \<and> (\<forall>r. length (filter (same_milestone r) (rewardz_earnings (db s) @ new)) \<le> 1)"
proof -
  from milestone_cron_step [OF assms(1,2), of s n] obtain new where "db (snd (start_milestone_processor_cron env pg n s)) =
      (db s)\<lparr>rewardz_earnings := rewardz_earnings (db s) @ new\<rparr>" "list_all (justified cfg (db s)) new"
    "free_of_conflicts same_milestone (rewardz_earnings (db s) @ new)"
    using assms(3) by (auto simp: award_step_def)
  with milestone_index.at_most_one show ?thesis by blast
qed

subsection \<open>Nothing is missed\<close>

definition awards_fit :: "league_config \<Rightarrow> database \<Rightarrow> bool" where
  "awards_fit cfg d \<longleftrightarrow>
     (\<forall>p \<in> set (protocols d). \<forall>(slug, milestone_id, amount) \<in> catalogue cfg d. \<forall>w \<in> set (weights_of d p).
        in_i64 \<lfloor>of_int amount * w\<rfloor>)"

definition holds_milestone :: "database \<Rightarrow> protocol \<Rightarrow> int \<Rightarrow> bool" where
  "holds_milestone d p milestone_id \<longleftrightarrow>
     (\<exists>re \<in> set (rewardz_earnings d). re_protocol_id re = p_id p \<and> re_milestone_id re = Some milestone_id)"

definition has_reached :: "league_config \<Rightarrow> database \<Rightarrow> string \<Rightarrow> protocol \<Rightarrow> bool" where
  "has_reached cfg d slug p \<longleftrightarrow>
     p \<in> set (protocols d) \<and> p_status p = ''active'' \<and> open_flags (p_id p) d = [] \<and> milestone_rule cfg slug d p"

definition paid_up :: "league_config \<Rightarrow> database \<Rightarrow> (string \<times> int \<times> int) \<Rightarrow> bool" where
  \<comment> \<open>every protocol that has reached the milestone holds it\<close>
  "paid_up cfg d = (\<lambda>(slug, milestone_id, amount). \<forall>p. has_reached cfg d slug p \<longrightarrow> holds_milestone d p milestone_id)"

lemma weights_of_not_Nil [simp]: "weights_of d p \<noteq> []"
  by (simp add: weights_of_def split: list.splits)

lemma eligible_iff:
  "p \<in> set (protocols d) \<Longrightarrow> eligible milestone_id (milestone_rule cfg slug) d p \<longleftrightarrow>
     has_reached cfg d slug p \<and> \<not> holds_milestone d p milestone_id"
  by (auto simp: eligible_def has_reached_def holds_milestone_def)

lemma award_statement_pays:
  assumes "pg_whole_milestone_index pg" "awards_fit cfg d" "(slug, milestone_id, amount) \<in> catalogue cfg d"
  obtains n e where
    "award_statement pg milestone_id amount (''milestone:'' @ slug) (milestone_rule cfg slug) now d = Inr (n, e)"
    "paid_up cfg e (slug, milestone_id, amount)" "paid_up cfg d (slug, milestone_id, amount) \<longrightarrow> n = 0"
proof -
  let ?row = "award_row milestone_id amount (''milestone:'' @ slug) now"
  let ?rows = "concat (map (\<lambda>p. map (?row p) (weights_of d p))
      (filter (eligible milestone_id (milestone_rule cfg slug) d) (protocols d)))"
  have "in_i64 (re_amount r)" if "r \<in> set ?rows" for r
    using that assms(2,3) by (fastforce simp: awards_fit_def award_row_def)
  then have fit: "list_all (\<lambda>r. in_i64 (re_amount r)) ?rows" by (simp add: list_all_iff)
  obtain table n where ins: "insert_rows same_milestone ?rows (rewardz_earnings d) = (table, n)"
    by (cases "insert_rows same_milestone ?rows (rewardz_earnings d)")
  let ?e = "d\<lparr>rewardz_earnings := table\<rparr>"
  have run: "award_statement pg milestone_id amount (''milestone:'' @ slug) (milestone_rule cfg slug) now d = Inr (n, ?e)"
    using fit ins assms(1) by (simp add: award_statement_def Let_def)
  have "holds_milestone ?e p milestone_id" if reached: "has_reached cfg d slug p" for p
  proof (cases "holds_milestone d p milestone_id")
    case True
    then show ?thesis
      using insert_rows_keep [of "rewardz_earnings d" same_milestone ?rows] ins by (auto simp: holds_milestone_def)
  next
    case False
    with reached have el: "p \<in> set (filter (eligible milestone_id (milestone_rule cfg slug) d) (protocols d))"
      by (simp add: eligible_iff has_reached_def)
    obtain w where "w \<in> set (weights_of d p)" using weights_of_not_Nil [of d p] by fastforce
    with el have "?row p w \<in> set ?rows" by auto
    moreover have "same_milestone (?row p w) (?row p w)" by (simp add: same_milestone_def award_row_def)
    ultimately obtain t where "t \<in> set table" "same_milestone t (?row p w)"
      using milestone_index.covered [of "?row p w" ?rows "rewardz_earnings d"] ins by auto
    then show ?thesis by (auto simp: holds_milestone_def same_milestone_def award_row_def)
  qed
  then have paid: "paid_up cfg ?e (slug, milestone_id, amount)"
    by (simp add: paid_up_def has_reached_def)
  have "n = 0" if "paid_up cfg d (slug, milestone_id, amount)"
  proof -
    have "filter (eligible milestone_id (milestone_rule cfg slug) d) (protocols d) = []"
      using that by (auto simp: filter_empty_conv eligible_iff paid_up_def)
    with ins show ?thesis by simp
  qed
  with run paid that show thesis by blast
qed

lemma award_step_keeps:
  assumes "award_step cfg d e"
  shows "paid_up cfg d r \<Longrightarrow> paid_up cfg e r" and "awards_fit cfg e = awards_fit cfg d"
proof -
  from assms obtain new where e: "e = d\<lparr>rewardz_earnings := rewardz_earnings d @ new\<rparr>" by (auto simp: award_step_def)
  show "paid_up cfg d r \<Longrightarrow> paid_up cfg e r"
    unfolding e by (cases r) (auto simp: paid_up_def has_reached_def holds_milestone_def)
  show "awards_fit cfg e = awards_fit cfg d" unfolding e by (simp add: awards_fit_def)
qed

lemma process_slug_pays:
  assumes "quiet pg" "pg_whole_milestone_index pg" "cfg = DEVNET \<or> cfg = MAINNET" "awards_fit cfg (db s)"
    "(slug, milestone_id, amount) \<in> catalogue cfg (db s)"
  obtains n t where "process_slug pg cfg slug milestone_id amount s = (Inr n, t)"
    "paid_up cfg (db t) (slug, milestone_id, amount)" "paid_up cfg (db s) (slug, milestone_id, amount) \<longrightarrow> n = 0"
proof (rule process_slug_rule [OF assms(3), of pg slug milestone_id amount])
  assume "process_slug pg cfg slug milestone_id amount = ret 0" "\<And>d p. \<not> milestone_rule cfg slug d p"
  then show thesis by (intro that [of 0 s]) (auto simp: ret_def paid_up_def has_reached_def)
next
  assume run: "process_slug pg cfg slug milestone_id amount =
       execute pg (award_statement pg milestone_id amount (''milestone:'' @ slug) (milestone_rule cfg slug))"
  obtain n e where "award_statement pg milestone_id amount (''milestone:'' @ slug) (milestone_rule cfg slug)
      (pg_now pg (world s)) (db s) = Inr (n, e)" "paid_up cfg e (slug, milestone_id, amount)"
    "paid_up cfg (db s) (slug, milestone_id, amount) \<longrightarrow> n = 0"
    by (rule award_statement_pays [OF assms(2,4,5)])
  then show thesis
    by (intro that [of n "s\<lparr>db := e\<rparr>"]) (simp_all add: run quiet_execute [OF assms(1)] run_statement_def)
qed

lemma process_each_pays:
  assumes "quiet pg" "pg_whole_milestone_index pg" "cfg = DEVNET \<or> cfg = MAINNET"
  shows "awards_fit cfg (db s) \<Longrightarrow> set rewards \<subseteq> catalogue cfg (db s) \<Longrightarrow>
    \<exists>m t. process_each pg cfg rewards n s = (Inr m, t) \<and> (\<forall>r \<in> set rewards. paid_up cfg (db t) r)
      \<and> ((\<forall>r \<in> set rewards. paid_up cfg (db s) r) \<longrightarrow> m = n)"
proof (induction rewards arbitrary: n s)
  case Nil
  show ?case by (simp add: ret_def)
next
  case (Cons r rewards)
  obtain slug milestone_id amount where r: "r = (slug, milestone_id, amount)" by (cases r)
  have cat: "(slug, milestone_id, amount) \<in> catalogue cfg (db s)" using Cons.prems r by simp
  obtain k u where one: "process_slug pg cfg slug milestone_id amount s = (Inr k, u)"
    "paid_up cfg (db u) (slug, milestone_id, amount)" "paid_up cfg (db s) (slug, milestone_id, amount) \<longrightarrow> k = 0"
    by (rule process_slug_pays [OF assms Cons.prems(1) cat])
  have step: "award_step cfg (db s) (db u)"
    using process_slug_step [OF quiet_no_other_writers [OF assms(1)] assms(3) cat] one(1) by simp
  have "awards_fit cfg (db u)" "set rewards \<subseteq> catalogue cfg (db u)"
    using Cons.prems award_step_keeps(2) [OF step] award_step_catalogue [OF step] by auto
  from Cons.IH [OF this, of "n + k"] obtain m t where t: "process_each pg cfg rewards (n + k) u = (Inr m, t)"
    "\<forall>r \<in> set rewards. paid_up cfg (db t) r" "(\<forall>r \<in> set rewards. paid_up cfg (db u) r) \<longrightarrow> m = n + k" by blast
  have "award_step cfg (db u) (db t)"
    using process_each_step [OF quiet_no_other_writers [OF assms(1)] assms(3) \<open>set rewards \<subseteq> catalogue cfg (db u)\<close>, of "n + k"]
      t(1) by simp
  then have "paid_up cfg (db t) r" using award_step_keeps(1) one(2) r by blast
  moreover have "process_each pg cfg (r # rewards) n s = (Inr m, t)"
    using one(1) t(1) r by (simp add: andThen_def attempt_def)
  moreover have "m = n" if "\<forall>x \<in> set (r # rewards). paid_up cfg (db s) x"
    using that one(3) t(3) r award_step_keeps(1) [OF step] by simp
  ultimately show ?case using t(2) by auto
qed

lemma quiet_milestone_tick:
  assumes "quiet pg" "pg_whole_milestone_index pg" "cfg = DEVNET \<or> cfg = MAINNET" "awards_fit cfg (db s)"
  obtains m t where "milestone_tick pg cfg s = (Inr m, t)" "\<forall>r \<in> catalogue cfg (db s). paid_up cfg (db t) r"
    "(\<forall>r \<in> catalogue cfg (db s). paid_up cfg (db s) r) \<longrightarrow> m = 0"
proof -
  obtain res u where run: "load_milestone_rewards pg (network_name cfg) s = (res, u)"
    by (cases "load_milestone_rewards pg (network_name cfg) s")
  have "\<exists>rewards. res = Inr rewards \<and> u = s"
    using run by (auto simp: load_milestone_rewards_def quiet_execute [OF assms(1)] run_statement_def)
  then obtain rewards where load: "res = Inr rewards" "u = s" by blast
  with load_rewards_outcome(2) [OF quiet_no_other_writers [OF assms(1)] run] have set: "set rewards = catalogue cfg (db s)" by blast
  from process_each_pays [OF assms, of rewards 0] set obtain m t where "process_each pg cfg rewards 0 s = (Inr m, t)"
    "\<forall>r \<in> set rewards. paid_up cfg (db t) r" "(\<forall>r \<in> set rewards. paid_up cfg (db s) r) \<longrightarrow> m = 0" by auto
  with run load set show thesis by (intro that [of m t]) (auto simp: milestone_tick_def andThen_def)
qed


text \<open>
  With a partial index no milestone is ever paid. The clause \<open>ON CONFLICT (protocol_id,
  milestone_id)\<close> names no predicate, so a unique index that covers only the rows with a
  milestone cannot serve it; every statement is refused, and the cron never adds an earning.
\<close>

theorem milestone_cron_needs_whole_index:
  assumes "no_other_writers pg" "\<not> pg_whole_milestone_index pg"
  shows "db (snd (start_milestone_processor_cron env pg n s)) = db s"
proof -
  have dyn: "db (snd (insert_with_dynamic_predicate pg i a slug P s)) = db s" for i a slug P s
  proof -
    obtain res t where run: "execute pg (award_statement pg i a (''milestone:'' @ slug) P) s = (res, t)"
      by (cases "execute pg (award_statement pg i a (''milestone:'' @ slug) P) s")
    from execute_outcome [OF assms(1) run] assms(2) have "db t = db s" by (auto simp: award_statement_def Let_def)
    with run show ?thesis by (simp add: insert_with_dynamic_predicate_def)
  qed
  have fails: "db (snd (execute pg (\<lambda>now d. Inl e :: string + nat \<times> database) s)) = db s" for e s
  proof -
    obtain res t where run: "execute pg (\<lambda>now d. Inl e :: string + nat \<times> database) s = (res, t)"
      by (cases "execute pg (\<lambda>now d. Inl e :: string + nat \<times> database) s")
    from execute_outcome [OF assms(1) run] run show ?thesis by auto
  qed
  have slug: "db (snd (process_slug pg cfg slug i a s)) = db s" for cfg slug i a s
    by (simp add: process_slug_def insert_if_def insert_repeat_users_def dyn fails ret_def split: sum.splits)
  have each: "db (snd (process_each pg cfg rewards m s)) = db s" for cfg rewards m s
  proof (induction rewards arbitrary: m s)
    case Nil
    show ?case by (simp add: ret_def)
  next
    case (Cons r rewards)
    obtain a i b where r: "r = (a, i, b)" by (cases r)
    obtain res t where run: "attempt (process_slug pg cfg a i b) s = (res, t)"
      by (cases "attempt (process_slug pg cfg a i b) s")
    then have "db t = db s" using slug [of cfg a i b s] by (metis snd_attempt snd_conv)
    with run r Cons show ?case by (auto simp: andThen_def split: sum.splits)
  qed
  have tick: "db (snd (milestone_tick pg cfg s)) = db s" for cfg s
  proof -
    obtain res t where run: "load_milestone_rewards pg (network_name cfg) s = (res, t)"
      by (cases "load_milestone_rewards pg (network_name cfg) s")
    from load_rewards_outcome(1) [OF assms(1) run] each run show ?thesis
      by (auto simp: milestone_tick_def andThen_def split: sum.splits)
  qed
  then show ?thesis
    unfolding start_milestone_processor_cron_def
    using league_cron_keep [where R = "\<lambda>s t. db t = db s" and ok = "\<lambda>_. True" and tick = "milestone_tick pg"] by auto
qed

subsection \<open>Concrete runs\<close>

definition first_blink_db :: database where
  "first_blink_db = one_protocol\<lparr>
     point_events := [\<lparr>pe_protocol_id = 1, pe_user_wallet = ''bob'', pe_type = ''awarded'', pe_created_at = 900\<rparr>],
     milestones := [\<lparr>m_id = 7, m_slug = ''first_blink'', m_bucket = ''activation''\<rparr>],
     milestone_rewards := [\<lparr>mr_milestone_id = 7, mr_network = ''devnet'', mr_rewardz_amount = 100\<rparr>]\<rparr>"

lemma first_blink_db_simps [simp]:
  "protocols first_blink_db = [league_protocol]" "rewardz_earnings first_blink_db = []"
  "catalogue DEVNET first_blink_db = {(''first_blink'', 7, 100)}" "open_flags i first_blink_db = []"
  "weights_of first_blink_db p = [1]" "milestone_rule DEVNET ''first_blink'' first_blink_db league_protocol"
  by (auto simp: first_blink_db_def one_protocol_def empty_db_def catalogue_def network_name_def DEVNET_def
      open_flags_def weights_of_def milestone_rule_def events_of_def Let_def)

theorem milestone_awards_justified_witness:
  "\<exists>new. rewardz_earnings (db (snd (start_milestone_processor_cron devnet_only quiet_pg 2 (app_of () first_blink_db)))) = new
    \<and> list_all (justified DEVNET first_blink_db) new"
proof -
  have "free_of_conflicts same_milestone (rewardz_earnings (db (app_of () first_blink_db)))" by simp
  from milestone_awards_justified [OF quiet_pg_simps(1) load_devnet_only this, of 2] show ?thesis by auto
qed


theorem milestone_cron_needs_whole_index_witness:
  "rewardz_earnings (db (snd (start_milestone_processor_cron devnet_only
     (quiet_pg\<lparr>pg_whole_milestone_index := False\<rparr>) 9 (app_of () first_blink_db)))) = []"
proof -
  let ?pg = "quiet_pg\<lparr>pg_whole_milestone_index := False\<rparr>"
  have "no_other_writers ?pg" "\<not> pg_whole_milestone_index ?pg"
    by (simp_all add: no_other_writers_def quiet_pg_def)
  from milestone_cron_needs_whole_index [OF this, where s = "app_of () first_blink_db"] show ?thesis by simp
qed

end
