(* ===== verification/Anti_Abuse.thy ===== *)
theory Anti_Abuse
  imports Engagement League_Config Db
begin

section \<open>anti\_abuse.rs: the detectors of abuse\<close>

text \<open>
  \<^verbatim>\<open>src/src/anti_abuse.rs\<close>: three statements that raise flags, each for the active protocols
  that cross its threshold and have no open flag of its kind, run one after the other in a tick
  that logs their failures.
\<close>

definition SELF_USE_MIN_EVENTS :: int where
  "SELF_USE_MIN_EVENTS = 10"

definition SELF_USE_LOW_THRESHOLD :: f64 where
  "SELF_USE_LOW_THRESHOLD = to_f64 (5 / 10)"

definition SELF_USE_MEDIUM_THRESHOLD :: f64 where
  "SELF_USE_MEDIUM_THRESHOLD = to_f64 (75 / 100)"

definition UNUSED_ISSUANCE_DAYS :: int where
  "UNUSED_ISSUANCE_DAYS = 7"

definition last_day :: "time \<Rightarrow> database \<Rightarrow> protocol \<Rightarrow> point_event list" where
  "last_day now d p = since (now - hours24) (events_of (p_id p) d)"

definition total_events :: "time \<Rightarrow> database \<Rightarrow> protocol \<Rightarrow> int" where
  "total_events now d p = int (length (last_day now d p))"

definition self_events :: "time \<Rightarrow> database \<Rightarrow> protocol \<Rightarrow> int" where
  "self_events now d p = int (length (filter (\<lambda>pe. pe_user_wallet pe = p_admin_wallet p) (last_day now d p)))"

definition self_share :: "time \<Rightarrow> database \<Rightarrow> protocol \<Rightarrow> f64" where
  "self_share now d p =
     (if total_events now d p = 0 then Fin 0
      else f64_div (f64_of_int (self_events now d p)) (f64_of_int (total_events now d p)))"

definition no_open_flag :: "string \<Rightarrow> database \<Rightarrow> protocol \<Rightarrow> bool" where
  "no_open_flag kind d p \<longleftrightarrow> \<not> (\<exists>a \<in> set (open_flags (p_id p) d). af_kind a = kind)"

definition raise_flags :: "string \<Rightarrow> (protocol \<Rightarrow> bool) \<Rightarrow> (protocol \<Rightarrow> string) \<Rightarrow> (protocol \<Rightarrow> json) \<Rightarrow> nat statement" where
  \<comment> \<open>the \<open>INSERT ... SELECT\<close> that the detectors share\<close>
  "raise_flags kind crosses severity_of evidence now d =
     (let hit = filter (\<lambda>p. p_status p = ''active'' \<and> crosses p \<and> no_open_flag kind d p) (protocols d);
          flags = map (\<lambda>p. \<lparr>af_protocol_id = p_id p, af_kind = kind, af_severity = severity_of p,
             af_evidence = evidence p, af_resolved_at = None\<rparr>) hit in
      Inr (length flags, d\<lparr>abuse_flags := abuse_flags d @ flags\<rparr>))"

definition repetitive_self_use_statement :: "nat statement" where
  "repetitive_self_use_statement now d =
     raise_flags ''repetitive_self_use''
       (\<lambda>p. SELF_USE_MIN_EVENTS \<le> total_events now d p \<and> SELF_USE_LOW_THRESHOLD \<le> self_share now d p)
       (\<lambda>p. if SELF_USE_MEDIUM_THRESHOLD \<le> self_share now d p then ''medium'' else ''low'')
       (\<lambda>p. JObj [(''window_hours'', JInt 24), (''total_events'', JInt (total_events now d p)),
              (''self_events'', JInt (self_events now d p)), (''self_share'', JNum (self_share now d p))])
       now d"

definition detect_repetitive_self_use :: "'w pg \<Rightarrow> ('w app, nat) prog" where
  "detect_repetitive_self_use pg = execute pg repetitive_self_use_statement"

definition unused_issuance_statement :: "'w pg \<Rightarrow> int \<Rightarrow> nat statement" where
  "unused_issuance_statement pg baseline now d =
     (case pg_make_interval pg ''days'' UNUSED_ISSUANCE_DAYS of
        Inl e \<Rightarrow> Inl e
      | Inr period \<Rightarrow>
          raise_flags ''unused_issuance''
            (\<lambda>p. (case p_capacity_window_start p of Some start \<Rightarrow> start \<le> now - period | None \<Rightarrow> False)
               \<and> p_remaining_capacity p = Some baseline
               \<and> events_of (p_id p) d = [])
            (\<lambda>p. ''low'')
            (\<lambda>p. JObj
              [(''days_since_window_start'',
                 (case p_capacity_window_start p of Some start \<Rightarrow> pg_epoch_days pg (now - start) | None \<Rightarrow> JNull)),
               (''remaining_capacity'', (case p_remaining_capacity p of Some c \<Rightarrow> JInt c | None \<Rightarrow> JNull)),
               (''starter_grant'', JInt baseline)])
            now d)"

definition detect_unused_issuance :: "'w pg \<Rightarrow> league_config \<Rightarrow> ('w app, nat) prog" where
  "detect_unused_issuance pg cfg =
     execute pg (unused_issuance_statement pg (u64_as_i64 (lc_starter_grant_rewardz cfg)))"

definition daily_cap_statement :: "int \<Rightarrow> nat statement" where
  "daily_cap_statement cap now d =
     raise_flags ''daily_cap_breach'' (\<lambda>p. cap < self_events now d p) (\<lambda>p. ''medium'')
       (\<lambda>p. JObj [(''bucket'', JStr ''self''), (''window_hours'', JInt 24),
              (''count'', JInt (self_events now d p)), (''cap'', JInt cap)])
       now d"

definition detect_daily_cap_self :: "'w pg \<Rightarrow> league_config \<Rightarrow> ('w app, nat) prog" where
  "detect_daily_cap_self pg cfg =
     execute pg (daily_cap_statement (u64_as_i64 (dc_self (lc_daily_caps cfg))))"

definition counted :: "('w app, nat) prog \<Rightarrow> nat \<Rightarrow> ('w app, nat) prog" where
  \<comment> \<open>\<open>Ok(n) => total += n\<close>, and an error that is logged only\<close>
  "counted m flagged = andThen (attempt m) (\<lambda>outcome. ret (case outcome of Inr n \<Rightarrow> flagged + n | Inl _ \<Rightarrow> flagged))"

definition anti_abuse_tick :: "'w pg \<Rightarrow> league_config \<Rightarrow> ('w app, nat) prog" where
  "anti_abuse_tick pg cfg =
     andThen (counted (detect_repetitive_self_use pg) 0) (\<lambda>n.
     andThen (counted (detect_unused_issuance pg cfg) n) (\<lambda>n.
     counted (detect_daily_cap_self pg cfg) n))"

definition start_anti_abuse_cron :: "environment \<Rightarrow> 'w pg \<Rightarrow> nat \<Rightarrow> ('w app, unit) prog" where
  "start_anti_abuse_cron env pg n = league_cron env (anti_abuse_tick pg) n"

subsection \<open>The thresholds in integers\<close>

definition few_events :: "database \<Rightarrow> bool" where
  \<comment> \<open>few enough for the ratios of the counts to be told apart from the thresholds\<close>
  "few_events d \<longleftrightarrow> length (point_events d) < 2 ^ 51"

lemma event_counts:
  assumes "few_events d"
  shows "0 \<le> self_events now d p" "self_events now d p \<le> total_events now d p" "total_events now d p < 2 ^ 51"
proof -
  have "length (last_day now d p) \<le> length (point_events d)"
    unfolding last_day_def since_def events_of_def by (meson length_filter_le order_trans)
  with assms show "total_events now d p < 2 ^ 51" by (simp add: few_events_def total_events_def)
qed (simp_all add: self_events_def total_events_def)

lemma share_threshold:
  \<comment> \<open>the share reaches \<open>a / 4\<close> exactly when the counts do\<close>
  assumes "0 \<le> self" "self \<le> n" "0 < n" "n < 2 ^ 51" "0 < a" "a \<le> 4"
  shows "Fin (of_int a / 4) \<le> f64_div (f64_of_int self) (f64_of_int n) \<longleftrightarrow> a * n \<le> 4 * self"
proof -
  let ?q = "of_int self / of_int n :: rat"
  have q: "0 \<le> ?q" "?q \<le> 1" using assms by simp_all
  have "to_f64 ?q = Fin (fl ?q)" using q by (intro to_f64_small) simp
  then have div: "f64_div (f64_of_int self) (f64_of_int n) = Fin (fl ?q)"
    using assms by (simp add: f64_of_int_exact)
  have "of_int a / 4 \<le> fl ?q \<longleftrightarrow> a * n \<le> 4 * self"
  proof (cases "a * n \<le> 4 * self")
    case True
    then have "(of_int (a * n) :: rat) \<le> of_int (4 * self)" by (simp only: of_int_le_iff)
    then have "of_int a / 2 ^ 2 \<le> ?q" using assms(3) by (simp add: divide_simps mult.commute)
    then have "of_int a / 2 ^ 2 \<le> fl ?q" using assms(5,6) by (intro fl_ge_dyadic) auto
    with True show ?thesis by simp
  next
    case False
    then have "4 * self + 1 \<le> a * n" by simp
    then have "(of_int (4 * self + 1) :: rat) \<le> of_int (a * n)" by (simp only: of_int_le_iff)
    then have "?q \<le> of_int a / 4 - 1 / (4 * of_int n)" using assms(3) by (simp add: divide_simps mult.commute)
    moreover have "(1 :: rat) / 2 ^ 53 \<le> 1 / (4 * of_int n)"
    proof -
      have "(of_int n :: rat) \<le> of_int (2 ^ 51)" using assms(4) by (simp only: of_int_le_iff)
      then show ?thesis using assms(3) by (intro divide_left_mono) auto
    qed
    ultimately have "?q \<le> of_int a / 4 - 1 / 2 ^ 53" by linarith
    then have le: "?q \<le> of_int (a * 2 ^ 51 - 1) / 2 ^ 53" by (simp add: field_simps)
    have "a = 1 \<or> a = 2 \<or> a = 3 \<or> a = 4" using assms(5,6) by auto
    then have "\<bar>a * 2 ^ 51 - 1\<bar> < 2 ^ 53" by auto
    from fl_le_dyadic [OF le this] have "fl ?q \<le> of_int (a * 2 ^ 51 - 1) / 2 ^ 53" by simp
    also have "\<dots> < of_int a / 4" by (simp add: field_simps)
    finally show ?thesis using False by simp
  qed
  then show ?thesis by (simp add: div)
qed

lemma self_share_exact:
  assumes "few_events d" "0 < total_events now d p"
  shows "SELF_USE_LOW_THRESHOLD \<le> self_share now d p \<longleftrightarrow> total_events now d p \<le> 2 * self_events now d p"
    and "SELF_USE_MEDIUM_THRESHOLD \<le> self_share now d p \<longleftrightarrow> 3 * total_events now d p \<le> 4 * self_events now d p"
proof -
  have "fl (1 / 2) = 1 / 2" "fl (3 / 4) = 3 / 4" using fl_dyadic [of 1 1] fl_dyadic [of 3 2] by simp_all
  then have t: "SELF_USE_LOW_THRESHOLD = Fin (of_int 2 / 4)" "SELF_USE_MEDIUM_THRESHOLD = Fin (of_int 3 / 4)"
    by (simp_all add: SELF_USE_LOW_THRESHOLD_def SELF_USE_MEDIUM_THRESHOLD_def to_f64_small)
  note c = event_counts [OF assms(1), of now p]
  from share_threshold [OF c(1,2) assms(2) c(3), of 2] share_threshold [OF c(1,2) assms(2) c(3), of 3] assms(2)
  show "SELF_USE_LOW_THRESHOLD \<le> self_share now d p \<longleftrightarrow> total_events now d p \<le> 2 * self_events now d p"
    "SELF_USE_MEDIUM_THRESHOLD \<le> self_share now d p \<longleftrightarrow> 3 * total_events now d p \<le> 4 * self_events now d p"
    unfolding t self_share_def by simp_all
qed

subsection \<open>Warranted flags\<close>

definition abuse_rule :: "league_config \<Rightarrow> time \<Rightarrow> database \<Rightarrow> protocol \<Rightarrow> string \<Rightarrow> string option" where
  \<comment> \<open>the severity at which a protocol deserves a flag of a kind, in integers\<close>
  "abuse_rule cfg now d p kind =
     (if p_status p \<noteq> ''active'' then None
      else if kind = ''repetitive_self_use'' then
        (if 10 \<le> total_events now d p \<and> total_events now d p \<le> 2 * self_events now d p
         then Some (if 3 * total_events now d p \<le> 4 * self_events now d p then ''medium'' else ''low'')
         else None)
      else if kind = ''unused_issuance'' then
        (if (\<exists>start. p_capacity_window_start p = Some start \<and> start + 7 * 86400000000 \<le> now)
            \<and> p_remaining_capacity p = Some (int (unat (lc_starter_grant_rewardz cfg))) \<and> events_of (p_id p) d = []
         then Some ''low'' else None)
      else if kind = ''daily_cap_breach'' then
        (if int (unat (dc_self (lc_daily_caps cfg))) < self_events now d p then Some ''medium'' else None)
      else None)"

definition kinds :: "string list" where
  "kinds = [''repetitive_self_use'', ''unused_issuance'', ''daily_cap_breach'']"

definition warranted :: "league_config \<Rightarrow> database \<Rightarrow> abuse_flag \<Rightarrow> bool" where
  "warranted cfg d f \<longleftrightarrow>
     (\<exists>p \<in> set (protocols d). \<exists>now. af_protocol_id f = p_id p \<and> af_resolved_at f = None
        \<and> abuse_rule cfg now d p (af_kind f) = Some (af_severity f))"

definition same_open_flag :: "abuse_flag \<Rightarrow> abuse_flag \<Rightarrow> bool" where
  "same_open_flag a b \<longleftrightarrow>
     af_resolved_at a = None \<and> af_resolved_at b = None
     \<and> af_protocol_id a = af_protocol_id b \<and> af_kind a = af_kind b"

interpretation open_flag_index: unique_index same_open_flag
  by unfold_locales (auto simp: same_open_flag_def)

definition flag_inv :: "database \<Rightarrow> bool" where
  "flag_inv d \<longleftrightarrow> distinct (map p_id (protocols d)) \<and> few_events d \<and> free_of_conflicts same_open_flag (abuse_flags d)"

definition flag_step :: "league_config \<Rightarrow> database \<Rightarrow> database \<Rightarrow> bool" where
  "flag_step cfg d e \<longleftrightarrow>
     (\<exists>new. e = d\<lparr>abuse_flags := abuse_flags d @ new\<rparr> \<and> list_all (warranted cfg d) new)"

lemma with_flags_simps [simp]:
  "abuse_rule cfg now (d\<lparr>abuse_flags := fs\<rparr>) = abuse_rule cfg now d"
  "warranted cfg (d\<lparr>abuse_flags := fs\<rparr>) = warranted cfg d"
proof -
  have "total_events now (d\<lparr>abuse_flags := fs\<rparr>) = total_events now d" "self_events now (d\<lparr>abuse_flags := fs\<rparr>) = self_events now d"
    "events_of i (d\<lparr>abuse_flags := fs\<rparr>) = events_of i d" for now i
    by (simp_all add: fun_eq_iff total_events_def self_events_def last_day_def events_of_def)
  then show rule: "abuse_rule cfg now (d\<lparr>abuse_flags := fs\<rparr>) = abuse_rule cfg now d" for now
    unfolding abuse_rule_def [abs_def] by (simp cong: if_cong)
  show "warranted cfg (d\<lparr>abuse_flags := fs\<rparr>) = warranted cfg d"
    unfolding warranted_def [abs_def] rule by simp
qed

lemma flag_step_refl [simp]: "flag_step cfg d d"
  unfolding flag_step_def by (rule exI [of _ "[]"]) simp

lemma flag_step_trans:
  assumes "flag_step cfg d e" "flag_step cfg e f"
  shows "flag_step cfg d f"
proof -
  from assms obtain a b where "e = d\<lparr>abuse_flags := abuse_flags d @ a\<rparr>" "list_all (warranted cfg d) a"
    "f = e\<lparr>abuse_flags := abuse_flags e @ b\<rparr>" "list_all (warranted cfg e) b"
    unfolding flag_step_def by blast
  then have "f = d\<lparr>abuse_flags := abuse_flags d @ (a @ b)\<rparr> \<and> list_all (warranted cfg d) (a @ b)" by simp
  then show ?thesis unfolding flag_step_def by blast
qed

lemma free_of_conflicts_append:
  "free_of_conflicts c xs \<Longrightarrow> free_of_conflicts c ys \<Longrightarrow> \<forall>x \<in> set xs. \<forall>y \<in> set ys. \<not> c x y \<Longrightarrow>
   free_of_conflicts c (xs @ ys)"
  by (auto simp: free_of_conflicts_def sorted_wrt_append)

lemma raise_flags_step:
  assumes "flag_inv d" "raise_flags kind crosses severity_of evidence now d = Inr (n, e)"
    and "\<And>p. p \<in> set (protocols d) \<Longrightarrow> p_status p = ''active'' \<Longrightarrow> crosses p \<Longrightarrow>
      abuse_rule cfg now d p kind = Some (severity_of p)"
  shows "flag_inv e" and "flag_step cfg d e"
proof -
  let ?hit = "filter (\<lambda>p. p_status p = ''active'' \<and> crosses p \<and> no_open_flag kind d p) (protocols d)"
  let ?flag = "\<lambda>p. \<lparr>af_protocol_id = p_id p, af_kind = kind, af_severity = severity_of p,
     af_evidence = evidence p, af_resolved_at = None\<rparr>"
  have e: "e = d\<lparr>abuse_flags := abuse_flags d @ map ?flag ?hit\<rparr>"
    using assms(2) by (simp add: raise_flags_def Let_def)
  have "list_all (warranted cfg d) (map ?flag ?hit)"
    using assms(3) by (fastforce simp: list_all_iff warranted_def)
  with e show "flag_step cfg d e" unfolding flag_step_def by blast
  have "distinct (map p_id ?hit)" using assms(1) by (simp add: flag_inv_def distinct_map_filter)
  then have new: "free_of_conflicts same_open_flag (map ?flag ?hit)"
    by (auto simp: free_of_conflicts_def sorted_wrt_map same_open_flag_def distinct_map sorted_wrt_iff_nth_less
        distinct_conv_nth)
  have "\<not> same_open_flag x y" if "x \<in> set (abuse_flags d)" "y \<in> set (map ?flag ?hit)" for x y
    using that by (auto simp: same_open_flag_def no_open_flag_def open_flags_def)
  with new assms(1) have "free_of_conflicts same_open_flag (abuse_flags d @ map ?flag ?hit)"
    by (intro free_of_conflicts_append) (auto simp: flag_inv_def)
  with assms(1) show "flag_inv e" by (simp add: e flag_inv_def few_events_def)
qed

lemma grants_and_caps:
  assumes "cfg = DEVNET \<or> cfg = MAINNET"
  shows "u64_as_i64 (lc_starter_grant_rewardz cfg) = int (unat (lc_starter_grant_rewardz cfg))"
    "u64_as_i64 (dc_self (lc_daily_caps cfg)) = int (unat (dc_self (lc_daily_caps cfg)))"
  using assms by (auto simp: u64_as_i64_id DEVNET_def MAINNET_def)

definition takes_days :: "'w pg \<Rightarrow> bool" where
  \<comment> \<open>if the server takes \<open>bigint\<close> days at all, they are days\<close>
  "takes_days pg \<longleftrightarrow>
     (\<forall>period. pg_make_interval pg ''days'' UNUSED_ISSUANCE_DAYS = Inr period \<longrightarrow> period = 7 * 86400000000)"

lemma statements_step:
  assumes "cfg = DEVNET \<or> cfg = MAINNET" "flag_inv d"
  shows "repetitive_self_use_statement now d = Inr (n, e) \<Longrightarrow> flag_inv e \<and> flag_step cfg d e"
    and "takes_days pg \<Longrightarrow> unused_issuance_statement pg (u64_as_i64 (lc_starter_grant_rewardz cfg)) now d = Inr (n, e) \<Longrightarrow>
      flag_inv e \<and> flag_step cfg d e"
    and "daily_cap_statement (u64_as_i64 (dc_self (lc_daily_caps cfg))) now d = Inr (n, e) \<Longrightarrow> flag_inv e \<and> flag_step cfg d e"
proof -
  have few: "few_events d" using assms(2) by (simp add: flag_inv_def)
  show "flag_inv e \<and> flag_step cfg d e" if "repetitive_self_use_statement now d = Inr (n, e)"
  proof (rule conjI)
    note run = that [unfolded repetitive_self_use_statement_def]
    have "abuse_rule cfg now d p ''repetitive_self_use'' = Some (if SELF_USE_MEDIUM_THRESHOLD \<le> self_share now d p then ''medium'' else ''low'')"
      if "p_status p = ''active''" "SELF_USE_MIN_EVENTS \<le> total_events now d p \<and> SELF_USE_LOW_THRESHOLD \<le> self_share now d p" for p
    proof -
      have "10 \<le> total_events now d p" using that(2) by (simp add: SELF_USE_MIN_EVENTS_def)
      with self_share_exact [OF few, of now p] that show ?thesis by (simp add: abuse_rule_def)
    qed
    from raise_flags_step [OF assms(2) run this] show "flag_inv e" "flag_step cfg d e" by blast+
  qed
  show "flag_inv e \<and> flag_step cfg d e" if pg: "takes_days pg"
    and "unused_issuance_statement pg (u64_as_i64 (lc_starter_grant_rewardz cfg)) now d = Inr (n, e)"
  proof -
    from that(2) obtain period where "pg_make_interval pg ''days'' UNUSED_ISSUANCE_DAYS = Inr period"
      by (auto simp: unused_issuance_statement_def split: sum.splits)
    moreover from this pg have "period = 7 * 86400000000" by (simp add: takes_days_def)
    ultimately have interval: "pg_make_interval pg ''days'' UNUSED_ISSUANCE_DAYS = Inr (7 * 86400000000)" by simp
    note run = that(2) [unfolded unused_issuance_statement_def interval sum.case]
    have "abuse_rule cfg now d p ''unused_issuance'' = Some ''low''"
      if "p_status p = ''active''" "(case p_capacity_window_start p of Some start \<Rightarrow> start \<le> now - 7 * 86400000000 | None \<Rightarrow> False)
               \<and> p_remaining_capacity p = Some (u64_as_i64 (lc_starter_grant_rewardz cfg))
               \<and> events_of (p_id p) d = []" for p
      using that by (auto simp: abuse_rule_def grants_and_caps [OF assms(1)] split: option.splits)
    from raise_flags_step [OF assms(2) run this] show ?thesis by blast
  qed
  show "flag_inv e \<and> flag_step cfg d e" if "daily_cap_statement (u64_as_i64 (dc_self (lc_daily_caps cfg))) now d = Inr (n, e)"
  proof -
    have "abuse_rule cfg now d p ''daily_cap_breach'' = Some ''medium''"
      if "p_status p = ''active''" "u64_as_i64 (dc_self (lc_daily_caps cfg)) < self_events now d p" for p
      using that by (simp add: abuse_rule_def grants_and_caps [OF assms(1)])
    from raise_flags_step [OF assms(2) that [unfolded daily_cap_statement_def] this] show ?thesis by blast
  qed
qed

lemma counted_step:
  assumes "no_other_writers pg" "flag_inv (db s)"
    and "\<And>now n e. f now (db s) = Inr (n, e) \<Longrightarrow> flag_inv e \<and> flag_step cfg (db s) e"
  shows "flag_inv (db (snd (counted (execute pg f) m s))) \<and> flag_step cfg (db s) (db (snd (counted (execute pg f) m s)))"
proof -
  obtain res t where run: "execute pg f s = (res, t)" by (cases "execute pg f s")
  from execute_outcome [OF assms(1) run] assms(2,3) have "flag_inv (db t) \<and> flag_step cfg (db s) (db t)" by fastforce
  with run show ?thesis
    by (auto simp: counted_def andThen_def attempt_def ret_def split: sum.splits fault.splits)
qed

lemma andThen_keep:
  assumes "flag_inv (db s)"
    and "\<And>s. flag_inv (db s) \<Longrightarrow> flag_inv (db (snd (m s))) \<and> flag_step cfg (db s) (db (snd (m s)))"
    and "\<And>x s. flag_inv (db s) \<Longrightarrow> flag_inv (db (snd (k x s))) \<and> flag_step cfg (db s) (db (snd (k x s)))"
  shows "flag_inv (db (snd (andThen m k s))) \<and> flag_step cfg (db s) (db (snd (andThen m k s)))"
proof -
  obtain res t where run: "m s = (res, t)" by (cases "m s")
  with assms(2) [OF assms(1)] have one: "flag_inv (db t)" "flag_step cfg (db s) (db t)" by simp_all
  from assms(3) [OF one(1)] one run show ?thesis
    by (auto simp: andThen_def intro: flag_step_trans split: sum.splits)
qed

lemma anti_abuse_tick_step:
  assumes "no_other_writers pg" "takes_days pg" "cfg = DEVNET \<or> cfg = MAINNET" "flag_inv (db s)"
  shows "flag_inv (db (snd (anti_abuse_tick pg cfg s))) \<and> flag_step cfg (db s) (db (snd (anti_abuse_tick pg cfg s)))"
  unfolding anti_abuse_tick_def detect_repetitive_self_use_def detect_unused_issuance_def detect_daily_cap_self_def
  by (intro andThen_keep counted_step assms(1,4)) (use statements_step [OF assms(3)] assms(2) in blast)+

interpretation abuse: ordered_system
    "\<lambda>s t. \<exists>pg. no_other_writers pg \<and> takes_days pg \<and> t = snd (anti_abuse_tick pg DEVNET s)"
    "\<lambda>s. flag_inv (db s)" "\<lambda>s t. flag_step DEVNET (db s) (db t)"
  using anti_abuse_tick_step by unfold_locales (blast intro: flag_step_trans flag_step_refl)+


subsection \<open>No abuse goes unflagged\<close>

definition flagged_all :: "league_config \<Rightarrow> time \<Rightarrow> string \<Rightarrow> database \<Rightarrow> bool" where
  "flagged_all cfg now kind d \<longleftrightarrow>
     (\<forall>p \<in> set (protocols d). abuse_rule cfg now d p kind \<noteq> None \<longrightarrow> \<not> no_open_flag kind d p)"

definition flags_added :: "database \<Rightarrow> database \<Rightarrow> bool" where
  "flags_added d e \<longleftrightarrow> (\<exists>new. e = d\<lparr>abuse_flags := abuse_flags d @ new\<rparr>)"

lemma flags_added_refl: "flags_added d d"
  unfolding flags_added_def by (rule exI [of _ "[]"]) simp

lemma flags_added_trans: "flags_added d e \<Longrightarrow> flags_added e f \<Longrightarrow> flags_added d f"
  unfolding flags_added_def by (elim exE) (metis (no_types, lifting) append_assoc database.update_convs(3)
      database.select_convs(3) database.surjective)

lemma flagged_all_added: "flagged_all cfg now kind d \<Longrightarrow> flags_added d e \<Longrightarrow> flagged_all cfg now kind e"
  by (fastforce simp: flagged_all_def flags_added_def no_open_flag_def open_flags_def)

lemma raise_flags_complete:
  assumes "\<And>p. p_status p = ''active'' \<and> crosses p \<longleftrightarrow> abuse_rule cfg now d p kind \<noteq> None"
  obtains n e where "raise_flags kind crosses severity_of evidence now d = Inr (n, e)" "flags_added d e"
    "flagged_all cfg now kind e" "flagged_all cfg now kind d \<longrightarrow> n = 0"
proof -
  let ?hit = "filter (\<lambda>p. p_status p = ''active'' \<and> crosses p \<and> no_open_flag kind d p) (protocols d)"
  let ?flag = "\<lambda>p. \<lparr>af_protocol_id = p_id p, af_kind = kind, af_severity = severity_of p,
     af_evidence = evidence p, af_resolved_at = None\<rparr>"
  let ?e = "d\<lparr>abuse_flags := abuse_flags d @ map ?flag ?hit\<rparr>"
  have run: "raise_flags kind crosses severity_of evidence now d = Inr (length ?hit, ?e)"
    by (simp add: raise_flags_def Let_def)
  have "\<not> no_open_flag kind ?e p" if p: "p \<in> set (protocols d)" "abuse_rule cfg now d p kind \<noteq> None" for p
  proof (cases "no_open_flag kind d p")
    case True
    with p assms [of p] have "?flag p \<in> set (map ?flag ?hit)" by auto
    then have "?flag p \<in> set (open_flags (p_id p) ?e)" by (auto simp: open_flags_def)
    then show ?thesis unfolding no_open_flag_def by (auto intro!: bexI [of _ "?flag p"])
  next
    case False
    then show ?thesis by (auto simp: no_open_flag_def open_flags_def)
  qed
  then have "flagged_all cfg now kind ?e" by (simp add: flagged_all_def)
  moreover have "length ?hit = 0" if "flagged_all cfg now kind d"
  proof -
    from that assms have "?hit = []" unfolding filter_empty_conv flagged_all_def by blast
    then show ?thesis by simp
  qed
  moreover have "flags_added d ?e" unfolding flags_added_def by blast
  ultimately show thesis using run by (intro that) auto
qed

lemma statements_complete:
  assumes "cfg = DEVNET \<or> cfg = MAINNET" "few_events d"
  obtains n e where "repetitive_self_use_statement now d = Inr (n, e)" "flags_added d e"
      "flagged_all cfg now ''repetitive_self_use'' e" "flagged_all cfg now ''repetitive_self_use'' d \<longrightarrow> n = 0"
proof (unfold repetitive_self_use_statement_def, rule raise_flags_complete)
  fix p
  show "p_status p = ''active'' \<and> SELF_USE_MIN_EVENTS \<le> total_events now d p \<and> SELF_USE_LOW_THRESHOLD \<le> self_share now d p
      \<longleftrightarrow> abuse_rule cfg now d p ''repetitive_self_use'' \<noteq> None"
    using self_share_exact(1) [OF assms(2), of now p] by (auto simp: abuse_rule_def SELF_USE_MIN_EVENTS_def)
qed

lemma unused_issuance_interval:
  "takes_bigint pg \<Longrightarrow> pg_make_interval pg ''days'' UNUSED_ISSUANCE_DAYS = Inr (7 * 86400000000)"
  by (simp add: takes_bigint_def UNUSED_ISSUANCE_DAYS_def)

lemma unused_complete:
  assumes "cfg = DEVNET \<or> cfg = MAINNET" "takes_bigint pg"
  obtains n e where "unused_issuance_statement pg (u64_as_i64 (lc_starter_grant_rewardz cfg)) now d = Inr (n, e)"
      "flags_added d e" "flagged_all cfg now ''unused_issuance'' e" "flagged_all cfg now ''unused_issuance'' d \<longrightarrow> n = 0"
proof (unfold unused_issuance_statement_def unused_issuance_interval [OF assms(2)] sum.case, rule raise_flags_complete)
  fix p
  show "p_status p = ''active''
        \<and> ((case p_capacity_window_start p of Some start \<Rightarrow> start \<le> now - 7 * 86400000000 | None \<Rightarrow> False)
        \<and> p_remaining_capacity p = Some (u64_as_i64 (lc_starter_grant_rewardz cfg)) \<and> events_of (p_id p) d = [])
        \<longleftrightarrow> abuse_rule cfg now d p ''unused_issuance'' \<noteq> None"
    by (auto simp: abuse_rule_def grants_and_caps [OF assms(1)] split: option.splits)
qed

lemma daily_complete:
  assumes "cfg = DEVNET \<or> cfg = MAINNET"
  obtains n e where "daily_cap_statement (u64_as_i64 (dc_self (lc_daily_caps cfg))) now d = Inr (n, e)" "flags_added d e"
      "flagged_all cfg now ''daily_cap_breach'' e" "flagged_all cfg now ''daily_cap_breach'' d \<longrightarrow> n = 0"
proof (unfold daily_cap_statement_def, rule raise_flags_complete)
  fix p
  show "p_status p = ''active'' \<and> u64_as_i64 (dc_self (lc_daily_caps cfg)) < self_events now d p
      \<longleftrightarrow> abuse_rule cfg now d p ''daily_cap_breach'' \<noteq> None"
    by (simp add: abuse_rule_def grants_and_caps [OF assms])
qed

lemma quiet_counted:
  "quiet pg \<Longrightarrow> f (pg_now pg (world s)) (db s) = Inr (n, e) \<Longrightarrow> counted (execute pg f) m s = (Inr (m + n), s\<lparr>db := e\<rparr>)"
  by (simp add: counted_def andThen_def attempt_def ret_def quiet_execute run_statement_def)

lemma quiet_anti_abuse_tick:
  assumes "quiet pg" "takes_bigint pg" "cfg = DEVNET \<or> cfg = MAINNET" "few_events (db s)"
  obtains n t where "anti_abuse_tick pg cfg s = (Inr n, t)" "world t = world s" "flags_added (db s) (db t)"
    "\<forall>kind \<in> set kinds. flagged_all cfg (pg_now pg (world s)) kind (db t)"
    "(\<forall>kind \<in> set kinds. flagged_all cfg (pg_now pg (world s)) kind (db s)) \<longrightarrow> n = 0"
proof -
  let ?now = "pg_now pg (world s)"
  obtain n1 e1 where 1: "repetitive_self_use_statement ?now (db s) = Inr (n1, e1)" "flags_added (db s) e1"
    "flagged_all cfg ?now ''repetitive_self_use'' e1" "flagged_all cfg ?now ''repetitive_self_use'' (db s) \<longrightarrow> n1 = 0"
    by (rule statements_complete [OF assms(3,4)])
  obtain n2 e2 where 2: "unused_issuance_statement pg (u64_as_i64 (lc_starter_grant_rewardz cfg)) ?now e1 = Inr (n2, e2)"
    "flags_added e1 e2" "flagged_all cfg ?now ''unused_issuance'' e2" "flagged_all cfg ?now ''unused_issuance'' e1 \<longrightarrow> n2 = 0"
    by (rule unused_complete [OF assms(3,2)])
  obtain n3 e3 where 3: "daily_cap_statement (u64_as_i64 (dc_self (lc_daily_caps cfg))) ?now e2 = Inr (n3, e3)"
    "flags_added e2 e3" "flagged_all cfg ?now ''daily_cap_breach'' e3" "flagged_all cfg ?now ''daily_cap_breach'' e2 \<longrightarrow> n3 = 0"
    by (rule daily_complete [OF assms(3)])
  have 12: "flags_added (db s) e2" and 13: "flags_added e1 e3" and 23: "flags_added (db s) e3"
    using 1(2) 2(2) 3(2) flags_added_trans by blast+
  have run: "anti_abuse_tick pg cfg s = (Inr (n1 + n2 + n3), s\<lparr>db := e3\<rparr>)"
    using quiet_counted [OF assms(1), of repetitive_self_use_statement s n1 e1 0] 1(1)
      quiet_counted [OF assms(1), of "unused_issuance_statement pg (u64_as_i64 (lc_starter_grant_rewardz cfg))" "s\<lparr>db := e1\<rparr>" n2 e2 n1] 2(1)
      quiet_counted [OF assms(1), of "daily_cap_statement (u64_as_i64 (dc_self (lc_daily_caps cfg)))" "s\<lparr>db := e2\<rparr>" n3 e3 "n1 + n2"] 3(1)
    by (simp add: anti_abuse_tick_def detect_repetitive_self_use_def detect_unused_issuance_def
        detect_daily_cap_self_def andThen_def)
  show thesis
  proof (rule that [OF run])
    show "\<forall>kind \<in> set kinds. flagged_all cfg ?now kind (db (s\<lparr>db := e3\<rparr>))"
      using flagged_all_added [OF 1(3) 13] flagged_all_added [OF 2(3) 3(2)] 3(3) by (simp add: kinds_def)
    show "(\<forall>kind \<in> set kinds. flagged_all cfg ?now kind (db s)) \<longrightarrow> n1 + n2 + n3 = 0"
      using 1(4) 2(4) 3(4) flagged_all_added [OF _ 1(2)] flagged_all_added [OF _ 12] by (simp add: kinds_def)
  qed (use 23 in simp_all)
qed


subsection \<open>Concrete runs\<close>

definition self_user_db :: database where
  \<comment> \<open>twelve events of the last day, ten of them by the admin's own wallet\<close>
  "self_user_db = one_protocol\<lparr>point_events :=
     map (\<lambda>k. \<lparr>pe_protocol_id = 1, pe_user_wallet = (if k < 2 then ''bob'' else replicate 32 CHR ''A''),
        pe_type = ''awarded'', pe_created_at = 900\<rparr>) [0 ..< 12]\<rparr>"

lemma self_user_db_rule:
  "abuse_rule DEVNET 1000 self_user_db league_protocol ''repetitive_self_use'' = Some ''medium''"
proof -
  have "total_events 1000 self_user_db league_protocol = 12" "self_events 1000 self_user_db league_protocol = 10"
    by (simp_all add: total_events_def self_events_def last_day_def since_def events_of_def self_user_db_def
        league_protocol_def hours24_def upt_rec numeral_eq_Suc)
  then show ?thesis by (simp add: abuse_rule_def)
qed

lemma self_user_db_simps [simp]:
  "protocols self_user_db = [league_protocol]" "abuse_flags self_user_db = []" "few_events self_user_db"
  "flag_inv self_user_db"
  by (simp_all add: self_user_db_def few_events_def flag_inv_def)

lemma takes_days_quiet_pg [simp]: "takes_days quiet_pg"
  by (simp add: takes_days_def quiet_pg_def interval_of_bigint_def UNUSED_ISSUANCE_DAYS_def)



end
