(* ===== verification/Leaderboard.thy ===== *)
theory Leaderboard
  imports Engagement League_Config Db
begin

section \<open>leaderboard.rs: the daily snapshot and its bonus\<close>

text \<open>
  \<^verbatim>\<open>src/src/leaderboard.rs\<close>: a first statement ranks the visible protocols by their weighted
  score and stores the first of them under the day; a second one, on the pool as well, pays a
  bonus to the protocols stored under the day. The two rely on three unique indexes: one rank
  and one place a day, and one earning a reason.
\<close>

definition RANKING_WINDOW_HOURS :: int where
  "RANKING_WINDOW_HOURS = 168"

definition UNIQUE_WALLETS_BASELINE_RANK :: f64 where
  "UNIQUE_WALLETS_BASELINE_RANK = Fin 100"

definition REPEAT_USERS_BASELINE :: f64 where
  "REPEAT_USERS_BASELINE = Fin 50"

definition COMPLETIONS_BASELINE :: f64 where
  "COMPLETIONS_BASELINE = Fin 200"

record scored_row =
  sr_protocol_id :: uuid
  sr_unique_wallets :: int
  sr_repeat_users :: int
  sr_completions :: int
  sr_score :: f64

definition visible_protocols :: "database \<Rightarrow> protocol list" where
  "visible_protocols d = filter (\<lambda>p. p_status p = ''active'' \<and> p_visibility p \<noteq> ''hidden'') (protocols d)"

definition rank_score :: "ranking_weights \<Rightarrow> f64 \<Rightarrow> int \<Rightarrow> int \<Rightarrow> int \<Rightarrow> f64" where
  "rank_score w quality_score unique_wallets repeat_users completions =
     f64_add (f64_add (f64_add
       (f64_mul (rk_quality w) (min quality_score (Fin 1)))
       (f64_mul (rk_unique_wallets w) (min (f64_div (f64_of_int unique_wallets) UNIQUE_WALLETS_BASELINE_RANK) (Fin 1))))
       (f64_mul (rk_repeat_users w) (min (f64_div (f64_of_int repeat_users) REPEAT_USERS_BASELINE) (Fin 1))))
       (f64_mul (rk_completions w) (min (f64_div (f64_of_int completions) COMPLETIONS_BASELINE) (Fin 1)))"

definition scored :: "ranking_weights \<Rightarrow> int \<Rightarrow> time \<Rightarrow> database \<Rightarrow> protocol \<Rightarrow> scored_row" where
  "scored w window now d p =
     (let recent = not_by (p_admin_wallet p) (since (now - window) (events_of (p_id p) d));
          quality_score = (case p_quality_score p of Some q \<Rightarrow> to_f64 q | None \<Rightarrow> Fin 0);
          unique_wallets = int (length (distinct_wallets recent));
          repeat_users = int (length (repeat_wallets hours24 recent));
          completions = int (length (filter (\<lambda>pe. pe_type pe = ''awarded'') recent)) in
      \<lparr>sr_protocol_id = p_id p, sr_unique_wallets = unique_wallets, sr_repeat_users = repeat_users,
       sr_completions = completions,
       sr_score = rank_score w quality_score unique_wallets repeat_users completions\<rparr>)"

definition outranks :: "scored_row \<Rightarrow> scored_row \<Rightarrow> bool" where
  \<comment> \<open>\<open>ORDER BY score DESC, protocol_id ASC\<close>\<close>
  "outranks a b \<longleftrightarrow>
     sr_score b < sr_score a \<or> sr_score a = sr_score b \<and> sr_protocol_id a < sr_protocol_id b"

fun place :: "scored_row \<Rightarrow> scored_row list \<Rightarrow> scored_row list" where
  "place r [] = [r]"
| "place r (x # xs) = (if outranks r x then r # x # xs else x # place r xs)"

definition ranked :: "ranking_weights \<Rightarrow> int \<Rightarrow> time \<Rightarrow> database \<Rightarrow> scored_row list" where
  \<comment> \<open>\<open>ROW_NUMBER()\<close> is the position in this list, from one\<close>
  "ranked w window now d = foldr place (map (scored w window now d) (visible_protocols d)) []"

definition snapshot_row :: "int \<Rightarrow> int \<Rightarrow> nat \<Rightarrow> scored_row \<Rightarrow> leaderboard_snapshot" where
  "snapshot_row today bonus rk r =
     \<lparr>ls_snapshot_date = today, ls_rank = int rk, ls_protocol_id = sr_protocol_id r,
      ls_unique_wallets = sr_unique_wallets r, ls_repeat_users = sr_repeat_users r,
      ls_successful_completions = sr_completions r, ls_bonus_awarded = bonus, ls_featured = True\<rparr>"

definition same_rank :: "leaderboard_snapshot \<Rightarrow> leaderboard_snapshot \<Rightarrow> bool" where
  "same_rank a b \<longleftrightarrow> ls_snapshot_date a = ls_snapshot_date b \<and> ls_rank a = ls_rank b"

definition same_place :: "leaderboard_snapshot \<Rightarrow> leaderboard_snapshot \<Rightarrow> bool" where
  "same_place a b \<longleftrightarrow> ls_snapshot_date a = ls_snapshot_date b \<and> ls_protocol_id a = ls_protocol_id b"

definition snapshot_conflict :: "leaderboard_snapshot \<Rightarrow> leaderboard_snapshot \<Rightarrow> bool" where
  \<comment> \<open>\<open>ON CONFLICT DO NOTHING\<close> without a target: any of the unique indexes\<close>
  "snapshot_conflict a b \<longleftrightarrow> same_rank a b \<or> same_place a b"

definition snapshot_rows :: "ranking_weights \<Rightarrow> int \<Rightarrow> int \<Rightarrow> int \<Rightarrow> int \<Rightarrow> time \<Rightarrow> database \<Rightarrow> leaderboard_snapshot list" where
  "snapshot_rows w today top_n bonus window now d =
     map (\<lambda>(rk, r). snapshot_row today bonus rk r)
       (filter (\<lambda>(rk, r). int rk \<le> top_n) (enumerate 1 (ranked w window now d)))"

definition snapshot_statement :: "'w pg \<Rightarrow> ranking_weights \<Rightarrow> int \<Rightarrow> int \<Rightarrow> nat statement" where
  "snapshot_statement pg w top_n bonus now d =
     (case pg_make_interval pg ''hours'' RANKING_WINDOW_HOURS of
        Inl e \<Rightarrow> Inl e
      | Inr window \<Rightarrow>
          (let (table, n) = insert_rows snapshot_conflict
                 (snapshot_rows w (pg_current_date pg now) top_n bonus window now d)
                 (league_leaderboard_snapshots d) in
           Inr (n, d\<lparr>league_leaderboard_snapshots := table\<rparr>)))"

definition bonus_reason :: "'w pg \<Rightarrow> int \<Rightarrow> string" where
  "bonus_reason pg day = ''leaderboard:'' @ pg_date_text pg day"

definition bonus_row :: "'w pg \<Rightarrow> int \<Rightarrow> time \<Rightarrow> leaderboard_snapshot \<Rightarrow> protocol \<Rightarrow> earning" where
  "bonus_row pg bonus now s p =
     \<lparr>re_protocol_id = ls_protocol_id s, re_protocol_authority = p_admin_wallet p, re_amount = bonus,
      re_reason = bonus_reason pg (ls_snapshot_date s), re_milestone_id = None, re_created_at = now,
      re_included_in_root_epoch = None\<rparr>"

definition same_bonus :: "earning \<Rightarrow> earning \<Rightarrow> bool" where
  \<comment> \<open>the partial unique index: a row of a milestone is not in it\<close>
  "same_bonus a b \<longleftrightarrow>
     re_milestone_id a = None \<and> re_milestone_id b = None
     \<and> re_protocol_id a = re_protocol_id b \<and> re_reason a = re_reason b"

definition bonus_rows :: "'w pg \<Rightarrow> int \<Rightarrow> time \<Rightarrow> database \<Rightarrow> earning list" where
  "bonus_rows pg bonus now d =
     map (\<lambda>(s, p). bonus_row pg bonus now s p)
       (filter (\<lambda>(s, p). p_id p = ls_protocol_id s \<and> ls_snapshot_date s = pg_current_date pg now)
         (List.product (league_leaderboard_snapshots d) (protocols d)))"

definition bonus_statement :: "'w pg \<Rightarrow> int \<Rightarrow> nat statement" where
  "bonus_statement pg bonus now d =
     (let (table, n) = insert_rows same_bonus (bonus_rows pg bonus now d) (rewardz_earnings d) in
      Inr (n, d\<lparr>rewardz_earnings := table\<rparr>))"

definition write_snapshot_and_bonuses :: "'w pg \<Rightarrow> league_config \<Rightarrow> ('w app, nat) prog" where
  "write_snapshot_and_bonuses pg cfg =
     (let top_n = u64_as_i64 (lc_leaderboard_top_n cfg);
          bonus = u64_as_i64 (lc_leaderboard_bonus_rewardz cfg) in
      andThen (execute pg (snapshot_statement pg (lc_ranking_weights cfg) top_n bonus)) (\<lambda>snapshot_rows.
      if snapshot_rows = 0 then ret 0
      else andThen (execute pg (bonus_statement pg bonus)) (\<lambda>bonus_rows. ret snapshot_rows)))"

definition leaderboard_tick :: "'w pg \<Rightarrow> league_config \<Rightarrow> ('w app, nat) prog" where
  "leaderboard_tick pg cfg = write_snapshot_and_bonuses pg cfg"

definition start_leaderboard_cron :: "environment \<Rightarrow> 'w pg \<Rightarrow> nat \<Rightarrow> ('w app, unit) prog" where
  "start_leaderboard_cron env pg n = league_cron env (leaderboard_tick pg) n"

subsection \<open>The ranking\<close>

declare of_nat_unat [simp del]

lemma set_place [simp]: "set (place r xs) = insert r (set xs)"
  by (induction xs) auto

lemma length_place [simp]: "length (place r xs) = Suc (length xs)"
  by (induction xs) auto

lemma outranks_total: "sr_protocol_id a \<noteq> sr_protocol_id b \<Longrightarrow> \<not> outranks a b \<Longrightarrow> outranks b a"
  by (auto simp: outranks_def)

lemma outranks_trans: "outranks a b \<Longrightarrow> outranks b c \<Longrightarrow> outranks a c"
  by (auto simp: outranks_def)

lemma sorted_place:
  "sorted_wrt outranks xs \<Longrightarrow> sr_protocol_id r \<notin> sr_protocol_id ` set xs \<Longrightarrow> sorted_wrt outranks (place r xs)"
proof (induction xs)
  case Nil
  then show ?case by simp
next
  case (Cons x xs)
  have "sr_protocol_id r \<noteq> sr_protocol_id x" using Cons.prems by auto
  with Cons outranks_total [of r x] show ?case by (auto intro: outranks_trans)
qed

lemma ranked_facts:
  "set (ranked w window now d) = scored w window now d ` set (visible_protocols d)"
  "length (ranked w window now d) = length (visible_protocols d)"
proof -
  have "set (foldr place rs []) = set rs" "length (foldr place rs []) = length rs" for rs
    by (induction rs) simp_all
  then show "set (ranked w window now d) = scored w window now d ` set (visible_protocols d)"
    "length (ranked w window now d) = length (visible_protocols d)" by (simp_all add: ranked_def)
qed

lemma sr_protocol_id_scored [simp]: "sr_protocol_id (scored w window now d p) = p_id p"
  by (simp add: scored_def Let_def)

lemma sorted_foldr_place:
  "distinct (map sr_protocol_id rs) \<Longrightarrow> sorted_wrt outranks (foldr place rs []) \<and> set (foldr place rs []) = set rs"
  by (induction rs) (auto intro: sorted_place)

lemma sorted_ranked:
  assumes "distinct (map p_id (protocols d))"
  shows "sorted_wrt outranks (ranked w window now d)"
proof -
  have "distinct (map sr_protocol_id (map (scored w window now d) (visible_protocols d)))"
    using assms by (simp add: o_def visible_protocols_def distinct_map_filter)
  then show ?thesis unfolding ranked_def using sorted_foldr_place by blast
qed

lemma filter_enumerate:
  "filter (\<lambda>(k, r). k \<le> m) (enumerate n xs) = enumerate n (take (Suc m - n) xs)"
proof (induction xs arbitrary: n)
  case Nil
  then show ?case by simp
next
  case (Cons x xs)
  then show ?case by (cases "n \<le> m") (auto simp: Suc_diff_le)
qed

lemma snapshot_rows_eq:
  "snapshot_rows w today top_n bonus window now d =
     map (\<lambda>(k, r). snapshot_row today bonus k r) (enumerate 1 (take (nat top_n) (ranked w window now d)))"
proof -
  have "(\<lambda>(k, r :: scored_row). int k \<le> top_n) = (\<lambda>(k, r). k \<le> nat top_n) \<or> top_n < 0"
    by (auto simp: fun_eq_iff)
  moreover have "filter (\<lambda>(k, r :: scored_row). int k \<le> top_n) (enumerate 1 rs) = []" if "top_n < 0" for rs
    using that by (auto simp: filter_empty_conv)
  ultimately show ?thesis
    unfolding snapshot_rows_def by (auto simp: filter_enumerate)
qed

lemma ex_map_mem: "set ys \<subseteq> f ` A \<Longrightarrow> \<exists>xs. ys = map f xs \<and> set xs \<subseteq> A"
proof (induction ys)
  case Nil
  then show ?case by simp
next
  case (Cons y ys)
  then obtain xs x where "ys = map f xs" "set xs \<subseteq> A" "y = f x" "x \<in> A" by auto
  then have "y # ys = map f (x # xs) \<and> set (x # xs) \<subseteq> A" by simp
  then show ?case by (rule exI)
qed

lemma distinct_ranked:
  assumes "distinct (map p_id (protocols d))"
  shows "distinct (map sr_protocol_id (ranked w window now d))"
proof (rule card_distinct)
  have "distinct (map p_id (visible_protocols d))" using assms by (simp add: visible_protocols_def distinct_map_filter)
  then have "card (p_id ` set (visible_protocols d)) = length (visible_protocols d)"
    by (metis distinct_card length_map set_map)
  then show "card (set (map sr_protocol_id (ranked w window now d))) = length (map sr_protocol_id (ranked w window now d))"
    by (simp add: ranked_facts image_image)
qed

lemma best_protocols:
  \<comment> \<open>the first ranks as protocols\<close>
  assumes "distinct (map p_id (protocols d))"
  obtains ps where "take k (ranked w window now d) = map (scored w window now d) ps"
    "set ps \<subseteq> set (visible_protocols d)" "length ps = min k (length (visible_protocols d))"
    "sorted_wrt (\<lambda>p q. outranks (scored w window now d p) (scored w window now d q)) ps"
    "\<forall>q \<in> set (visible_protocols d) - set ps. \<forall>p \<in> set ps. outranks (scored w window now d p) (scored w window now d q)"
    "distinct (map p_id ps)"
proof -
  let ?sc = "scored w window now d" and ?all = "ranked w window now d"
  have "set (take k ?all) \<subseteq> ?sc ` set (visible_protocols d)"
    using set_take_subset [of k ?all] by (simp add: ranked_facts)
  from ex_map_mem [OF this] obtain ps where ps: "take k ?all = map ?sc ps" "set ps \<subseteq> set (visible_protocols d)"
    by blast
  have sorted: "sorted_wrt outranks (take k ?all @ drop k ?all)" using sorted_ranked [OF assms] by simp
  show thesis
  proof (rule that [OF ps])
    show "length ps = min k (length (visible_protocols d))"
      using arg_cong [OF ps(1), of length] by (simp add: ranked_facts)
    show "sorted_wrt (\<lambda>p q. outranks (?sc p) (?sc q)) ps"
      using sorted unfolding ps(1) by (simp add: sorted_wrt_append sorted_wrt_map)
    show "\<forall>q \<in> set (visible_protocols d) - set ps. \<forall>p \<in> set ps. outranks (?sc p) (?sc q)"
    proof (intro ballI)
      fix q p assume q: "q \<in> set (visible_protocols d) - set ps" and p: "p \<in> set ps"
      have "?sc q \<in> set (take k ?all @ drop k ?all)" using q by (simp add: ranked_facts)
      moreover have "?sc q \<notin> set (take k ?all)"
      proof
        assume "?sc q \<in> set (take k ?all)"
        then obtain p' where "p' \<in> set ps" "?sc q = ?sc p'" using ps(1) by auto
        then have "p_id q = p_id p'" using sr_protocol_id_scored by metis
        moreover have "q \<in> set (protocols d)" "p' \<in> set (protocols d)"
          using q ps(2) \<open>p' \<in> set ps\<close> by (auto simp: visible_protocols_def)
        ultimately have "q = p'" using assms by (auto simp: distinct_map dest: inj_onD)
        with q \<open>p' \<in> set ps\<close> show False by simp
      qed
      ultimately have "?sc q \<in> set (drop k ?all)" by (metis Un_iff set_append)
      with sorted p show "outranks (?sc p) (?sc q)" unfolding ps(1) by (auto simp: sorted_wrt_append)
    qed
    have "distinct (map sr_protocol_id (take k ?all))"
      using distinct_ranked [OF assms] by (simp add: take_map [symmetric])
    then show "distinct (map p_id ps)" by (simp add: ps(1) o_def)
  qed
qed

subsection \<open>One day's payment\<close>

lemma bonus_rows_concat:
  "bonus_rows pg bonus now d =
     concat (map (\<lambda>s. if ls_snapshot_date s = pg_current_date pg now
                    then map (bonus_row pg bonus now s) (filter (\<lambda>p. p_id p = ls_protocol_id s) (protocols d)) else [])
       (league_leaderboard_snapshots d))"
proof -
  have "map (\<lambda>(s, p). g s p) (filter (\<lambda>(s, p). p_id p = ls_protocol_id s \<and> ls_snapshot_date s = today) (List.product ss ps)) =
      concat (map (\<lambda>s. if ls_snapshot_date s = today then map (g s) (filter (\<lambda>p. p_id p = ls_protocol_id s) ps) else []) ss)"
    for ss and ps :: "protocol list" and today and g :: "leaderboard_snapshot \<Rightarrow> protocol \<Rightarrow> earning"
    by (induction ss) (auto simp: filter_map o_def)
  then show ?thesis unfolding bonus_rows_def .
qed

lemma filter_id:
  assumes "distinct (map p_id ps)" "p \<in> set ps"
  shows "filter (\<lambda>q. p_id q = p_id p) ps = [p]"
  using assms by (induction ps) (auto simp: filter_empty_conv image_iff)

definition bonus_of :: "'w pg \<Rightarrow> int \<Rightarrow> time \<Rightarrow> protocol \<Rightarrow> earning" where
  "bonus_of pg bonus now p =
     \<lparr>re_protocol_id = p_id p, re_protocol_authority = p_admin_wallet p, re_amount = bonus,
      re_reason = bonus_reason pg (pg_current_date pg now), re_milestone_id = None, re_created_at = now,
      re_included_in_root_epoch = None\<rparr>"

lemma bonus_rows_fresh:
  assumes "distinct (map p_id (protocols d))" "set ps \<subseteq> set (protocols d)"
    and "\<And>s. s \<in> set old \<Longrightarrow> ls_snapshot_date s \<noteq> pg_current_date pg now"
    and "league_leaderboard_snapshots d = old @ map (\<lambda>(k, p). snapshot_row (pg_current_date pg now) bonus k (f p)) (enumerate n ps)"
    and "\<And>p. sr_protocol_id (f p) = p_id p"
  shows "bonus_rows pg bonus now d = map (bonus_of pg bonus now) ps"
proof -
  let ?today = "pg_current_date pg now"
  let ?rows = "\<lambda>s. if ls_snapshot_date s = ?today
        then map (bonus_row pg bonus now s) (filter (\<lambda>p. p_id p = ls_protocol_id s) (protocols d)) else []"
  have "concat (map ?rows old) = []" using assms(3) by simp
  moreover have "concat (map ?rows (map (\<lambda>(k, p). snapshot_row ?today bonus k (f p)) (enumerate n ps))) = map (bonus_of pg bonus now) ps"
    using assms(2)
  proof (induction ps arbitrary: n)
    case (Cons p ps)
    then have "filter (\<lambda>q. p_id q = p_id p) (protocols d) = [p]" using filter_id [OF assms(1)] by simp
    with Cons show ?case by (simp add: snapshot_row_def assms(5) bonus_row_def bonus_of_def)
  qed simp
  ultimately show ?thesis by (simp add: bonus_rows_concat assms(4))
qed

lemma snapshot_rows_free:
  assumes "distinct (map p_id ps)" "\<And>p. sr_protocol_id (f p) = p_id p"
  shows "free_of_conflicts snapshot_conflict (map (\<lambda>(k, p). snapshot_row today bonus k (f p)) (enumerate n ps))"
  using assms(1)
proof (induction ps arbitrary: n)
  case (Cons p ps)
  have "\<not> snapshot_conflict (snapshot_row today bonus n (f p)) (snapshot_row today bonus k (f q))"
    if "(k, q) \<in> set (enumerate (Suc n) ps)" for k q
  proof -
    from that have "Suc n \<le> k" "q \<in> set ps" by (auto simp: in_set_enumerate_eq)
    then have "k \<noteq> n" by simp
    moreover have "p_id q \<in> p_id ` set ps" using \<open>q \<in> set ps\<close> by (rule imageI)
    then have "p_id q \<noteq> p_id p" using Cons.prems by auto
    ultimately show ?thesis by (simp add: snapshot_conflict_def same_rank_def same_place_def snapshot_row_def assms(2))
  qed
  with Cons show ?case by auto
qed simp

lemma enumerate_map: "enumerate n (map f xs) = map (\<lambda>(k, x). (k, f x)) (enumerate n xs)"
  by (induction xs arbitrary: n) simp_all

lemma bonuses_free: "distinct (map p_id ps) \<Longrightarrow> free_of_conflicts same_bonus (map (bonus_of pg bonus now) ps)"
  by (induction ps) (auto simp: same_bonus_def bonus_of_def)

lemma board_parameters:
  assumes "cfg = DEVNET \<or> cfg = MAINNET"
  shows "u64_as_i64 (lc_leaderboard_top_n cfg) = int (unat (lc_leaderboard_top_n cfg))"
    "u64_as_i64 (lc_leaderboard_bonus_rewardz cfg) = int (unat (lc_leaderboard_bonus_rewardz cfg))"
  using assms by (auto simp: u64_as_i64_id DEVNET_def MAINNET_def)

lemma takes_ranking_window: "takes_bigint pg \<Longrightarrow> pg_make_interval pg ''hours'' RANKING_WINDOW_HOURS = Inr (168 * 3600000000)"
  by (simp add: takes_bigint_def RANKING_WINDOW_HOURS_def)

definition candidates :: "database \<Rightarrow> protocol set" where
  "candidates d = {p \<in> set (protocols d). p_status p = ''active'' \<and> p_visibility p \<noteq> ''hidden''}"

lemma set_visible_protocols: "set (visible_protocols d) = candidates d"
  by (auto simp: visible_protocols_def candidates_def)

lemma card_candidates: "distinct (map p_id (protocols d)) \<Longrightarrow> card (candidates d) = length (visible_protocols d)"
proof -
  assume "distinct (map p_id (protocols d))"
  then have "distinct (visible_protocols d)" by (simp add: visible_protocols_def distinct_map)
  then show ?thesis using distinct_card by (metis set_visible_protocols)
qed

definition score_at :: "league_config \<Rightarrow> time \<Rightarrow> database \<Rightarrow> protocol \<Rightarrow> scored_row" where
  "score_at cfg now d = scored (lc_ranking_weights cfg) (168 * 3600000000) now d"

definition ahead :: "league_config \<Rightarrow> time \<Rightarrow> database \<Rightarrow> protocol \<Rightarrow> protocol \<Rightarrow> bool" where
  \<comment> \<open>a higher score, or the same score and a smaller id\<close>
  "ahead cfg now d p q \<longleftrightarrow>
     (let a = sr_score (score_at cfg now d p); b = sr_score (score_at cfg now d q) in
      a > b \<or> a = b \<and> p_id p < p_id q)"

lemma outranks_ahead: "outranks (score_at cfg now d p) (score_at cfg now d q) \<longleftrightarrow> ahead cfg now d p q"
  by (simp add: outranks_def ahead_def Let_def score_at_def)


subsection \<open>At most one bonus a day\<close>

interpretation rank_index: unique_index same_rank
  by unfold_locales (auto simp: same_rank_def)

interpretation place_index: unique_index same_place
  by unfold_locales (auto simp: same_place_def)

interpretation bonus_index: unique_index same_bonus
  by unfold_locales (auto simp: same_bonus_def)

definition board_inv :: "database \<Rightarrow> bool" where
  "board_inv d \<longleftrightarrow>
     free_of_conflicts snapshot_conflict (league_leaderboard_snapshots d) \<and> free_of_conflicts same_bonus (rewardz_earnings d)"

lemma free_of_snapshot_conflicts:
  assumes "free_of_conflicts snapshot_conflict table"
  shows "free_of_conflicts same_rank table" "free_of_conflicts same_place table"
  using assms unfolding free_of_conflicts_def snapshot_conflict_def by (auto elim: sorted_wrt_mono_rel [rotated])

definition placed_well :: "league_config \<Rightarrow> database \<Rightarrow> leaderboard_snapshot \<Rightarrow> bool" where
  \<comment> \<open>a row of the snapshot is of a visible protocol, of a rank that the league rewards\<close>
  "placed_well cfg d ls \<longleftrightarrow>
     (\<exists>p \<in> candidates d. p_id p = ls_protocol_id ls)
     \<and> 1 \<le> ls_rank ls \<and> ls_rank ls \<le> int (unat (lc_leaderboard_top_n cfg))
     \<and> ls_bonus_awarded ls = int (unat (lc_leaderboard_bonus_rewardz cfg))"

definition backed :: "'w pg \<Rightarrow> league_config \<Rightarrow> leaderboard_snapshot list \<Rightarrow> earning \<Rightarrow> bool" where
  \<comment> \<open>a bonus is backed by a snapshot row of its protocol and its day\<close>
  "backed pg cfg table e \<longleftrightarrow>
     re_milestone_id e = None \<and> re_amount e = int (unat (lc_leaderboard_bonus_rewardz cfg))
     \<and> (\<exists>ls \<in> set table. ls_protocol_id ls = re_protocol_id e \<and> re_reason e = bonus_reason pg (ls_snapshot_date ls))"

definition board_step :: "'w pg \<Rightarrow> league_config \<Rightarrow> database \<Rightarrow> database \<Rightarrow> bool" where
  "board_step pg cfg d e \<longleftrightarrow>
     (\<exists>rows earned. e = d\<lparr>league_leaderboard_snapshots := league_leaderboard_snapshots d @ rows,
                          rewardz_earnings := rewardz_earnings d @ earned\<rparr>
        \<and> list_all (placed_well cfg d) rows
        \<and> list_all (backed pg cfg (league_leaderboard_snapshots d @ rows)) earned)"

lemma board_step_refl [simp]: "board_step pg cfg d d"
proof -
  have "d = d\<lparr>league_leaderboard_snapshots := league_leaderboard_snapshots d @ [],
      rewardz_earnings := rewardz_earnings d @ []\<rparr>" by (cases d) simp
  then show ?thesis unfolding board_step_def by fastforce
qed

lemma backed_more: "backed pg cfg table e \<Longrightarrow> set table \<subseteq> set table' \<Longrightarrow> backed pg cfg table' e"
  by (auto simp: backed_def)

lemma board_step_trans:
  assumes "board_step pg cfg d e" "board_step pg cfg e f"
  shows "board_step pg cfg d f"
proof -
  from assms obtain a x b y where e: "e = d\<lparr>league_leaderboard_snapshots := league_leaderboard_snapshots d @ a,
      rewardz_earnings := rewardz_earnings d @ x\<rparr>"
    and f: "f = e\<lparr>league_leaderboard_snapshots := league_leaderboard_snapshots e @ b,
      rewardz_earnings := rewardz_earnings e @ y\<rparr>"
    and a: "list_all (placed_well cfg d) a" and b: "list_all (placed_well cfg e) b"
    and x: "list_all (backed pg cfg (league_leaderboard_snapshots d @ a)) x"
    and y: "list_all (backed pg cfg (league_leaderboard_snapshots e @ b)) y"
    unfolding board_step_def by blast
  have "placed_well cfg e = placed_well cfg d" by (simp add: fun_eq_iff e placed_well_def candidates_def)
  with a b have "list_all (placed_well cfg d) (a @ b)" by simp
  moreover have "list_all (backed pg cfg (league_leaderboard_snapshots d @ (a @ b))) (x @ y)"
  proof -
    have "list_all (backed pg cfg (league_leaderboard_snapshots d @ (a @ b))) x"
      using x by (rule list.pred_mono_strong) (erule backed_more, auto)
    with y show ?thesis by (simp add: e)
  qed
  moreover have "f = d\<lparr>league_leaderboard_snapshots := league_leaderboard_snapshots d @ (a @ b),
      rewardz_earnings := rewardz_earnings d @ (x @ y)\<rparr>" by (simp add: e f)
  ultimately show ?thesis unfolding board_step_def by blast
qed

lemma insert_rows_result:
  obtains added where "insert_rows conflict rows table = (table @ added, length added)" "set added \<subseteq> set rows"
    "free_of_conflicts conflict table \<longrightarrow> free_of_conflicts conflict (table @ added)"
proof -
  from insert_rows_appends [of conflict rows table]
  obtain added where "insert_rows conflict rows table = (table @ added, length added)" "set added \<subseteq> set rows"
    by (elim exE conjE)
  with insert_rows_free [of conflict table rows] that show thesis by auto
qed

lemma snapshot_statement_step:
  assumes "cfg = DEVNET \<or> cfg = MAINNET" "board_inv d"
    and "snapshot_statement pg (lc_ranking_weights cfg) (u64_as_i64 (lc_leaderboard_top_n cfg))
      (u64_as_i64 (lc_leaderboard_bonus_rewardz cfg)) now d = Inr (n, e)"
  shows "board_inv e \<and> board_step pg cfg d e"
proof -
  note cfg = board_parameters [OF assms(1)]
  from assms(3) obtain window where window: "pg_make_interval pg ''hours'' RANKING_WINDOW_HOURS = Inr window"
    by (auto simp: snapshot_statement_def split: sum.splits)
  let ?rows = "snapshot_rows (lc_ranking_weights cfg) (pg_current_date pg now) (int (unat (lc_leaderboard_top_n cfg)))
      (int (unat (lc_leaderboard_bonus_rewardz cfg))) window now d"
  obtain added where added: "insert_rows snapshot_conflict ?rows (league_leaderboard_snapshots d) =
      (league_leaderboard_snapshots d @ added, length added)" "set added \<subseteq> set ?rows"
    "free_of_conflicts snapshot_conflict (league_leaderboard_snapshots d) \<longrightarrow>
       free_of_conflicts snapshot_conflict (league_leaderboard_snapshots d @ added)" by (rule insert_rows_result)
  have e: "e = d\<lparr>league_leaderboard_snapshots := league_leaderboard_snapshots d @ added\<rparr>"
    using assms(3) added(1) by (simp add: snapshot_statement_def window cfg)
  have "placed_well cfg d ls" if "ls \<in> set ?rows" for ls
  proof -
    from that obtain k r where "ls = snapshot_row (pg_current_date pg now) (int (unat (lc_leaderboard_bonus_rewardz cfg))) k r"
      "1 \<le> k" "int k \<le> int (unat (lc_leaderboard_top_n cfg))" "r \<in> set (ranked (lc_ranking_weights cfg) window now d)"
      by (auto simp: snapshot_rows_def in_set_enumerate_eq)
    then show ?thesis by (auto simp: placed_well_def snapshot_row_def ranked_facts simp flip: set_visible_protocols)
  qed
  with added(2) have "list_all (placed_well cfg d) added" by (auto simp: list_all_iff)
  moreover have "e = d\<lparr>league_leaderboard_snapshots := league_leaderboard_snapshots d @ added,
      rewardz_earnings := rewardz_earnings d @ []\<rparr>" by (cases d) (simp add: e)
  ultimately have "board_step pg cfg d e" unfolding board_step_def by fastforce
  with assms(2) added(3) show ?thesis by (simp add: board_inv_def e)
qed

lemma bonus_statement_step:
  assumes "cfg = DEVNET \<or> cfg = MAINNET" "board_inv d"
    and "bonus_statement pg (u64_as_i64 (lc_leaderboard_bonus_rewardz cfg)) now d = Inr (n, e)"
  shows "board_inv e \<and> board_step pg cfg d e"
proof -
  let ?rows = "bonus_rows pg (int (unat (lc_leaderboard_bonus_rewardz cfg))) now d"
  obtain added where added: "insert_rows same_bonus ?rows (rewardz_earnings d) = (rewardz_earnings d @ added, length added)"
    "set added \<subseteq> set ?rows" "free_of_conflicts same_bonus (rewardz_earnings d) \<longrightarrow>
       free_of_conflicts same_bonus (rewardz_earnings d @ added)" by (rule insert_rows_result)
  have e: "e = d\<lparr>rewardz_earnings := rewardz_earnings d @ added\<rparr>"
    using assms(3) added(1) by (simp add: bonus_statement_def board_parameters [OF assms(1)])
  have "backed pg cfg (league_leaderboard_snapshots d) x" if "x \<in> set ?rows" for x
    using that by (auto simp: bonus_rows_def bonus_row_def backed_def)
  with added(2) have "list_all (backed pg cfg (league_leaderboard_snapshots d @ [])) added" by (auto simp: list_all_iff)
  moreover have "e = d\<lparr>league_leaderboard_snapshots := league_leaderboard_snapshots d @ [],
      rewardz_earnings := rewardz_earnings d @ added\<rparr>" by (cases d) (simp add: e)
  moreover have "list_all (placed_well cfg d) []" by simp
  ultimately have "board_step pg cfg d e" unfolding board_step_def by blast
  with assms(2) added(3) show ?thesis by (simp add: board_inv_def e)
qed

lemma leaderboard_tick_step:
  assumes "no_other_writers pg" "cfg = DEVNET \<or> cfg = MAINNET" "board_inv (db s)"
  shows "board_inv (db (snd (leaderboard_tick pg cfg s))) \<and> board_step pg cfg (db s) (db (snd (leaderboard_tick pg cfg s)))"
proof -
  let ?snap = "execute pg (snapshot_statement pg (lc_ranking_weights cfg) (u64_as_i64 (lc_leaderboard_top_n cfg))
      (u64_as_i64 (lc_leaderboard_bonus_rewardz cfg)))"
  let ?pay = "execute pg (bonus_statement pg (u64_as_i64 (lc_leaderboard_bonus_rewardz cfg)))"
  obtain res t where t: "?snap s = (res, t)" by (cases "?snap s")
  have one: "board_inv (db t) \<and> board_step pg cfg (db s) (db t)"
    using execute_outcome [OF assms(1) t] snapshot_statement_step [OF assms(2,3)] assms(3) by fastforce
  obtain res2 u where u: "?pay t = (res2, u)" by (cases "?pay t")
  have two: "board_inv (db u) \<and> board_step pg cfg (db t) (db u)"
    using execute_outcome [OF assms(1) u] bonus_statement_step [OF assms(2)] one by fastforce
  from one two board_step_trans show ?thesis
    by (auto simp: leaderboard_tick_def write_snapshot_and_bonuses_def Let_def andThen_def t u ret_def split: sum.splits)
qed

interpretation board: ordered_system
    "\<lambda>s t. no_other_writers pg \<and> t = snd (leaderboard_tick pg DEVNET s)"
    "\<lambda>s. board_inv (db s)" "\<lambda>s t. board_step pg DEVNET (db s) (db t)" for pg
  using leaderboard_tick_step by unfold_locales (blast intro: board_step_trans board_step_refl)+

text \<open>
  C15: at most one bonus a day. Over any number of turns, with round trips failing anywhere, the
  cron only adds rows to the snapshots and to the earnings. Every row it adds to the snapshots is
  of a visible protocol, of a rewarded rank and of the league's bonus; every earning it adds is
  that bonus and is backed by a row of its protocol and its day. A day never has two protocols
  of one rank nor two ranks of one protocol, and a protocol never has two bonuses of one day.
\<close>

theorem leaderboard_at_most_one_bonus:
  fixes pg :: "'w pg"
  assumes "no_other_writers pg" "load_league_config env = Inr cfg" "board_inv (db s)"
    and "t = snd (start_leaderboard_cron env pg n s)"
  shows "board_step pg cfg (db s) (db t)
    \<and> (\<forall>ls. length (filter (same_rank ls) (league_leaderboard_snapshots (db t))) \<le> 1)
    \<and> (\<forall>ls. length (filter (same_place ls) (league_leaderboard_snapshots (db t))) \<le> 1)
    \<and> (\<forall>e. length (filter (same_bonus e) (rewardz_earnings (db t))) \<le> 1)"
proof -
  have "board_inv (db t) \<and> board_step pg cfg (db s) (db t)"
    unfolding assms(4) start_leaderboard_cron_def
  proof (rule league_cron_keep [where ok = "\<lambda>s. board_inv (db s)" and R = "\<lambda>s t. board_step pg cfg (db s) (db t)"])
    fix c and s :: "'w app"
    assume "load_league_config env = Inr c" and s: "board_inv (db s)"
    then have "c = cfg" "c = DEVNET \<or> c = MAINNET" using assms(2) load_league_config_cases by auto
    with leaderboard_tick_step [OF assms(1) _ s]
    show "board_inv (db (snd (leaderboard_tick pg c s))) \<and> board_step pg cfg (db s) (db (snd (leaderboard_tick pg c s)))"
      by blast
  qed (use assms(3) in \<open>auto intro: board_step_trans\<close>)
  then show ?thesis
    using free_of_snapshot_conflicts rank_index.at_most_one place_index.at_most_one bonus_index.at_most_one
    by (auto simp: board_inv_def)
qed

subsection \<open>A day whose bonuses are lost\<close>

definition on_day :: "'w pg \<Rightarrow> int \<Rightarrow> bool" where
  "on_day pg day \<longleftrightarrow> (\<forall>w. pg_current_date pg (pg_now pg w) = day)"

definition ranks_taken :: "int \<Rightarrow> league_config \<Rightarrow> database \<Rightarrow> bool" where
  \<comment> \<open>the day has a row for every rank that the visible protocols can take\<close>
  "ranks_taken day cfg d \<longleftrightarrow>
     (\<forall>k. 1 \<le> k \<and> k \<le> min (unat (lc_leaderboard_top_n cfg)) (length (visible_protocols d)) \<longrightarrow>
        (\<exists>ls \<in> set (league_leaderboard_snapshots d). ls_snapshot_date ls = day \<and> ls_rank ls = int k))"

lemma ranks_taken_silent:
  assumes "cfg = DEVNET \<or> cfg = MAINNET" "ranks_taken day cfg d" "pg_current_date pg now = day"
    and "snapshot_statement pg (lc_ranking_weights cfg) (u64_as_i64 (lc_leaderboard_top_n cfg)) bonus now d = Inr (n, e)"
  shows "n = 0 \<and> e = d"
proof -
  from assms(4) obtain window where window: "pg_make_interval pg ''hours'' RANKING_WINDOW_HOURS = Inr window"
    by (auto simp: snapshot_statement_def split: sum.splits)
  let ?top = "unat (lc_leaderboard_top_n cfg)"
  let ?rows = "snapshot_rows (lc_ranking_weights cfg) day (int ?top) bonus window now d"
  have "\<exists>ls \<in> set (league_leaderboard_snapshots d). snapshot_conflict ls r" if "r \<in> set ?rows" for r
  proof -
    from that obtain k x where r: "r = snapshot_row day bonus k x" "1 \<le> k" "k \<le> ?top"
      "k < 1 + length (ranked (lc_ranking_weights cfg) window now d)"
      by (auto simp: snapshot_rows_def in_set_enumerate_eq)
    then have "1 \<le> k \<and> k \<le> min ?top (length (visible_protocols d))" by (simp add: ranked_facts)
    with assms(2) obtain ls where "ls \<in> set (league_leaderboard_snapshots d)" "ls_snapshot_date ls = day" "ls_rank ls = int k"
      unfolding ranks_taken_def by blast
    then show ?thesis using r(1) by (auto simp: snapshot_conflict_def same_rank_def snapshot_row_def)
  qed
  then have "insert_rows snapshot_conflict ?rows (league_leaderboard_snapshots d) = (league_leaderboard_snapshots d, 0)"
    by (intro insert_rows_all_conflict ballI)
  with assms(4) show ?thesis by (simp add: snapshot_statement_def window assms(3) board_parameters [OF assms(1)])
qed

lemma ranks_taken_tick:
  assumes "no_other_writers pg" "on_day pg day" "cfg = DEVNET \<or> cfg = MAINNET" "ranks_taken day cfg (db s)"
  shows "db (snd (leaderboard_tick pg cfg s)) = db s"
proof -
  let ?snap = "execute pg (snapshot_statement pg (lc_ranking_weights cfg) (u64_as_i64 (lc_leaderboard_top_n cfg))
      (u64_as_i64 (lc_leaderboard_bonus_rewardz cfg)))"
  obtain res t where t: "?snap s = (res, t)" by (cases "?snap s")
  have "(\<exists>e. res = Inl e) \<and> db t = db s \<or> res = Inr 0 \<and> db t = db s"
    using execute_outcome_at [OF assms(1) t] ranks_taken_silent [OF assms(3,4)] assms(2) unfolding on_day_def by blast
  then show ?thesis
    by (auto simp: leaderboard_tick_def write_snapshot_and_bonuses_def Let_def andThen_def t ret_def)
qed

lemma snapshot_takes_ranks:
  assumes "cfg = DEVNET \<or> cfg = MAINNET" "distinct (map p_id (protocols d))"
    and "\<And>ls. ls \<in> set (league_leaderboard_snapshots d) \<Longrightarrow> ls_snapshot_date ls \<noteq> day" "pg_current_date pg now = day"
    and "snapshot_statement pg (lc_ranking_weights cfg) (u64_as_i64 (lc_leaderboard_top_n cfg)) bonus now d = Inr (n, e)"
  shows "ranks_taken day cfg e \<and> rewardz_earnings e = rewardz_earnings d
    \<and> (league_leaderboard_snapshots e = league_leaderboard_snapshots d \<longrightarrow> e = d)"
proof -
  from assms(5) obtain window where window: "pg_make_interval pg ''hours'' RANKING_WINDOW_HOURS = Inr window"
    by (auto simp: snapshot_statement_def split: sum.splits)
  let ?top = "unat (lc_leaderboard_top_n cfg)"
  obtain ps where ps: "take ?top (ranked (lc_ranking_weights cfg) window now d) = map (scored (lc_ranking_weights cfg) window now d) ps"
    "length ps = min ?top (length (visible_protocols d))" "distinct (map p_id ps)"
    by (rule best_protocols [OF assms(2)])
  let ?new = "map (\<lambda>(k, p). snapshot_row day bonus k (scored (lc_ranking_weights cfg) window now d p)) (enumerate 1 ps)"
  have rows: "snapshot_rows (lc_ranking_weights cfg) day (int ?top) bonus window now d = ?new"
    unfolding snapshot_rows_eq nat_int ps(1) by (simp add: enumerate_map split_def)
  have "insert_rows snapshot_conflict ?new (league_leaderboard_snapshots d) = (league_leaderboard_snapshots d @ ?new, length ?new)"
  proof (rule insert_rows_fresh)
    show "free_of_conflicts snapshot_conflict ?new" by (rule snapshot_rows_free [OF ps(3) sr_protocol_id_scored])
  qed (use assms(3) in \<open>auto simp: snapshot_conflict_def same_rank_def same_place_def snapshot_row_def\<close>)
  then have e: "e = d\<lparr>league_leaderboard_snapshots := league_leaderboard_snapshots d @ ?new\<rparr>"
    using assms(5) by (simp add: snapshot_statement_def window assms(4) board_parameters [OF assms(1)] rows)
  have "ranks_taken day cfg e"
    unfolding ranks_taken_def
  proof (intro allI impI)
    fix k assume k: "1 \<le> k \<and> k \<le> min ?top (length (visible_protocols e))"
    then have "k \<le> length ps" by (simp add: ps(2) e visible_protocols_def)
    with k have "k - 1 < length ps" by linarith
    then have "(k, ps ! (k - 1)) \<in> set (enumerate 1 ps)" using k by (auto simp: in_set_enumerate_eq)
    then have "snapshot_row day bonus k (scored (lc_ranking_weights cfg) window now d (ps ! (k - 1))) \<in> set ?new" by force
    then show "\<exists>ls \<in> set (league_leaderboard_snapshots e). ls_snapshot_date ls = day \<and> ls_rank ls = int k"
      by (intro bexI [of _ "snapshot_row day bonus k (scored (lc_ranking_weights cfg) window now d (ps ! (k - 1)))"])
        (simp_all add: e snapshot_row_def)
  qed
  then show ?thesis by (simp add: e)
qed

text \<open>
  C24: a failure between the two statements costs the day's bonuses. When the first tick of a day
  ends in an error after it has stored its rows, every later tick of that day, however many there
  are and whether or not the server answers, finds the ranks taken, returns before the second
  statement, and pays nobody.
\<close>

theorem leaderboard_failure_loses_bonuses:
  fixes pg :: "'w pg"
  assumes "no_other_writers pg" "on_day pg day" "load_league_config env = Inr cfg"
    and "distinct (map p_id (protocols (db s)))"
    and "\<And>ls. ls \<in> set (league_leaderboard_snapshots (db s)) \<Longrightarrow> ls_snapshot_date ls \<noteq> day"
    and "leaderboard_tick pg cfg s = (Inl (Fault e), t)" "db t \<noteq> db s"
  shows "rewardz_earnings (db (snd (start_leaderboard_cron env pg n t))) = rewardz_earnings (db s)
    \<and> league_leaderboard_snapshots (db t) \<noteq> league_leaderboard_snapshots (db s)"
proof -
  have cfg: "cfg = DEVNET \<or> cfg = MAINNET" by (rule load_league_config_cases [OF assms(3)])
  let ?bonus = "u64_as_i64 (lc_leaderboard_bonus_rewardz cfg)"
  let ?snap = "execute pg (snapshot_statement pg (lc_ranking_weights cfg) (u64_as_i64 (lc_leaderboard_top_n cfg)) ?bonus)"
  obtain res u where u: "?snap s = (res, u)" by (cases "?snap s")
  obtain res2 v where v: "execute pg (bonus_statement pg ?bonus) u = (res2, v)" by (cases "execute pg (bonus_statement pg ?bonus) u")
  from execute_outcome [OF assms(1) v] have "db v = db u" if "res2 = Inl x" for x using that by auto
  with assms(6) u v have t: "db t = db u"
    by (auto simp: leaderboard_tick_def write_snapshot_and_bonuses_def Let_def andThen_def ret_def split: sum.splits if_splits)
  with assms(7) execute_outcome_at [OF assms(1) u] assms(2) obtain k now where "pg_current_date pg now = day"
    "snapshot_statement pg (lc_ranking_weights cfg) (u64_as_i64 (lc_leaderboard_top_n cfg)) ?bonus now (db s) = Inr (k, db t)"
    by (auto simp: on_day_def)
  from snapshot_takes_ranks [OF cfg assms(4,5) this]
  have taken: "ranks_taken day cfg (db t)" and same: "rewardz_earnings (db t) = rewardz_earnings (db s)"
    and rows: "league_leaderboard_snapshots (db t) \<noteq> league_leaderboard_snapshots (db s)" using assms(7) by auto
  have "db (snd (start_leaderboard_cron env pg n t)) = db t"
  proof -
    have "ranks_taken day cfg (db (snd (start_leaderboard_cron env pg n t)))
        \<and> db t = db (snd (start_leaderboard_cron env pg n t))"
      unfolding start_leaderboard_cron_def
    proof (rule league_cron_keep [where ok = "\<lambda>s. ranks_taken day cfg (db s)" and R = "\<lambda>s t. db s = db t"])
      fix c and s :: "'w app"
      assume "load_league_config env = Inr c" and s: "ranks_taken day cfg (db s)"
      then have "c = cfg" using assms(3) by simp
      with ranks_taken_tick [OF assms(1,2) cfg s] s
      show "ranks_taken day cfg (db (snd (leaderboard_tick pg c s))) \<and> db s = db (snd (leaderboard_tick pg c s))" by simp
    qed (use taken in simp_all)
    then show ?thesis by simp
  qed
  with same rows show ?thesis by simp
qed

subsection \<open>Concrete runs\<close>

definition second_fails_pg :: "nat pg" where
  \<comment> \<open>the second round trip fails\<close>
  "second_fails_pg =
     flaky_pg\<lparr>pg_error := (\<lambda>w. (if w = 1 then Some ''connection reset'' else None, Suc w)), pg_now := (\<lambda>w. 1000)\<rparr>"

lemma second_fails_pg_simps [simp]:
  "pg_error second_fails_pg w = (if w = 1 then Some ''connection reset'' else None, Suc w)"
  "pg_now second_fails_pg w = 1000" "pg_others second_fails_pg w d = d"
  "pg_current_date second_fails_pg t = t div 86400000000" "pg_make_interval second_fails_pg = interval_of_bigint"
  by (simp_all add: second_fails_pg_def flaky_pg_def)

lemma one_protocol_board [simp]:
  "league_leaderboard_snapshots one_protocol = []" "rewardz_earnings one_protocol = []"
  "visible_protocols one_protocol = [league_protocol]" "candidates one_protocol = {league_protocol}" "board_inv one_protocol"
  by (auto simp: one_protocol_def empty_db_def visible_protocols_def board_inv_def candidates_def)


theorem leaderboard_at_most_one_bonus_witness:
  "list_all (\<lambda>e. length (filter (same_bonus e)
       (rewardz_earnings (db (snd (start_leaderboard_cron devnet_only flaky_pg 4 (app_of 0 one_protocol)))))) \<le> 1)
     (rewardz_earnings (db (snd (start_leaderboard_cron devnet_only flaky_pg 4 (app_of 0 one_protocol)))))"
proof -
  have "no_other_writers flaky_pg" by (simp add: no_other_writers_def flaky_pg_def)
  moreover have "board_inv (db (app_of 0 one_protocol :: nat app))" by simp
  ultimately show ?thesis
    using leaderboard_at_most_one_bonus [OF _ load_devnet_only _ refl, of flaky_pg "app_of 0 one_protocol" 4]
    by (simp add: list_all_iff)
qed

theorem leaderboard_failure_loses_bonuses_witness:
  "rewardz_earnings (db (snd (start_leaderboard_cron devnet_only second_fails_pg 9
     (snd (leaderboard_tick second_fails_pg DEVNET (app_of 0 one_protocol)))))) = []"
proof -
  let ?s = "app_of 0 one_protocol :: nat app"
  obtain t where t: "leaderboard_tick second_fails_pg DEVNET ?s = (Inl (Fault ''connection reset''), t)"
    "db t \<noteq> db ?s"
  proof -
    let ?row = "snapshot_row 0 50 1 (scored (lc_ranking_weights DEVNET) (168 * 3600000000) 1000 one_protocol league_protocol)"
    have rows: "snapshot_rows (lc_ranking_weights DEVNET) 0 10 50 (168 * 3600000000) 1000 one_protocol = [?row]"
      by (simp add: snapshot_rows_def ranked_def)
    have "snapshot_statement second_fails_pg (lc_ranking_weights DEVNET) 10 50 1000 one_protocol =
        Inr (1, one_protocol\<lparr>league_leaderboard_snapshots := [?row]\<rparr>)"
      using rows by (simp add: snapshot_statement_def interval_of_bigint_def RANKING_WINDOW_HOURS_def)
    moreover have "u64_as_i64 (lc_leaderboard_top_n DEVNET) = 10" "u64_as_i64 (lc_leaderboard_bonus_rewardz DEVNET) = 50"
      by (simp_all add: u64_as_i64_id DEVNET_def)
    ultimately have "leaderboard_tick second_fails_pg DEVNET ?s = (Inl (Fault ''connection reset''),
        ?s\<lparr>world := 2, db := one_protocol\<lparr>league_leaderboard_snapshots := [?row]\<rparr>\<rparr>)"
      by (simp add: leaderboard_tick_def write_snapshot_and_bonuses_def Let_def execute_def round_trip_def see_others_def
          run_statement_def andThen_def ret_def)
    moreover have "one_protocol\<lparr>league_leaderboard_snapshots := [?row]\<rparr> \<noteq> one_protocol"
    proof
      assume "one_protocol\<lparr>league_leaderboard_snapshots := [?row]\<rparr> = one_protocol"
      then have "league_leaderboard_snapshots (one_protocol\<lparr>league_leaderboard_snapshots := [?row]\<rparr>) =
        league_leaderboard_snapshots one_protocol" by (rule arg_cong)
      then show False by simp
    qed
    ultimately show thesis using that by simp
  qed
  have pg: "no_other_writers second_fails_pg" "on_day second_fails_pg 0"
    by (simp_all add: no_other_writers_def on_day_def second_fails_pg_def flaky_pg_def)
  have "distinct (map p_id (protocols (db ?s)))"
    "\<And>ls. ls \<in> set (league_leaderboard_snapshots (db ?s)) \<Longrightarrow> ls_snapshot_date ls \<noteq> 0" by simp_all
  from leaderboard_failure_loses_bonuses [OF pg load_devnet_only this t, of 9] t(1) show ?thesis by simp
qed

end
