(* ===== verification/League.thy ===== *)
theory League
  imports Anti_Abuse Milestone_Processor Capacity Leaderboard
begin

section \<open>League: the crons of the league together\<close>

text \<open>
  The crons of the league share nothing but the database. Two of their interactions: the flags
  of the detectors are the gate of the milestones, and the reset of the windows takes away what
  one of the detectors looks for.
\<close>

subsection \<open>Flags gate milestones\<close>


subsection \<open>Resets disarm the unused issuance\<close>

text \<open>
  A reset disarms the detector of unused issuance. A protocol counts as parked when its
  window is seven days old, which is when the weekly reset gives it a new one: right after a tick
  of the reset the detector finds nobody, whatever the tables were.
\<close>

theorem reset_disarms_unused_issuance:
  assumes "quiet pg" "takes_bigint pg" "override_secs env = Inr None"
  shows "fst (detect_unused_issuance pg DEVNET (snd (reset_capacities env pg DEVNET s))) = Inr 0"
proof -
  let ?t = "snd (reset_capacities env pg DEVNET s)" and ?now = "pg_now pg (world s)"
  have t: "world ?t = world s" "protocols (db ?t) = map (\<lambda>p. if window_elapsed ?now 604800000000 p then granted DEVNET ?now p else p)
      (protocols (db s))"
    unfolding quiet_reset [OF assms(1,3) DEVNET_grants(1)] by simp_all
  have "abuse_rule DEVNET ?now (db ?t) p ''unused_issuance'' = None" if "p \<in> set (protocols (db ?t))" for p
    using that by (auto simp: t abuse_rule_def granted_def window_elapsed_def split: option.splits if_splits)
  then have "flagged_all DEVNET ?now ''unused_issuance'' (db ?t)" by (simp add: flagged_all_def)
  moreover obtain n e where "unused_issuance_statement pg (u64_as_i64 (lc_starter_grant_rewardz DEVNET)) ?now (db ?t) = Inr (n, e)"
    "flagged_all DEVNET ?now ''unused_issuance'' (db ?t) \<longrightarrow> n = 0" by (rule unused_complete [OF _ assms(2), of DEVNET]) simp
  ultimately show ?thesis
    by (simp add: detect_unused_issuance_def quiet_execute [OF assms(1)] run_statement_def t(1))
qed

subsection \<open>Concrete runs\<close>

definition honest_and_abuser_db :: database where
  \<comment> \<open>a protocol used by another wallet, beside one that uses itself\<close>
  "honest_and_abuser_db = self_user_db\<lparr>
     protocols := [league_protocol, league_protocol\<lparr>p_id := 2\<rparr>],
     point_events := point_events self_user_db @
       [\<lparr>pe_protocol_id = 2, pe_user_wallet = ''bob'', pe_type = ''awarded'', pe_created_at = 900\<rparr>],
     milestones := [\<lparr>m_id = 7, m_slug = ''first_blink'', m_bucket = ''activation''\<rparr>],
     milestone_rewards := [\<lparr>mr_milestone_id = 7, mr_network = ''devnet'', mr_rewardz_amount = 100\<rparr>]\<rparr>"


theorem reset_disarms_unused_issuance_witness:
  "fst (detect_unused_issuance quiet_pg DEVNET (snd (reset_capacities devnet_only quiet_pg DEVNET (app_of () one_protocol)))) = Inr 0"
  by (rule reset_disarms_unused_issuance) (simp_all add: override_secs_def devnet_only_def)

end
