(* ===== verification/Subscriptions.thy ===== *)
theory Subscriptions
  imports Db League_Config
begin

section \<open>subscriptions.rs: the executor of due subscriptions\<close>

text \<open>
  \<^verbatim>\<open>src/src/subscriptions.rs\<close>: a poll reads at most a hundred due subscriptions, posts the
  intent of each to the API and, when that succeeds, moves the subscription on. The API is a
  parameter: from the address, the value of the header \<^verbatim>\<open>x-internal-key\<close> and the body to an
  error of the network or a status. Rows that are due at the same moment come in table order.
\<close>

type_synonym 'w http = "string \<Rightarrow> string \<Rightarrow> json \<Rightarrow> 'w \<Rightarrow> (string + nat) \<times> 'w"

definition is_success :: "nat \<Rightarrow> bool" where
  "is_success status \<longleftrightarrow> 200 \<le> status \<and> status < 300"

definition streak_multiplier :: "int \<Rightarrow> f64" where
  "streak_multiplier streak =
     (if 0 \<le> streak \<and> streak \<le> 2 then Fin 1
      else if 3 \<le> streak \<and> streak \<le> 6 then to_f64 (12 / 10)
      else if 7 \<le> streak \<and> streak \<le> 13 then to_f64 (15 / 10)
      else if 14 \<le> streak \<and> streak \<le> 29 then to_f64 (18 / 10)
      else Fin 2)"

definition is_due :: "time \<Rightarrow> subscription \<Rightarrow> bool" where
  "is_due now su \<longleftrightarrow> su_next_due_at su \<le> now \<and> su_status su = ''active''"

definition due_statement :: "subscription list statement" where
  "due_statement now d =
     Inr (take 100 (sort_key su_next_due_at (filter (is_due now) (subscriptions d))), d)"

definition frequency_seconds :: "string \<Rightarrow> int" where
  "frequency_seconds frequency =
     (if frequency = ''daily'' then 86400
      else if frequency = ''weekly'' then 604800
      else if frequency = ''monthly'' then 2592000
      else 86400)"

definition advance_statement :: "int \<Rightarrow> int \<Rightarrow> f64 \<Rightarrow> int \<Rightarrow> string \<Rightarrow> unit statement" where
  "advance_statement new_streak new_longest new_multiplier interval sub_id now d =
     Inr ((), d\<lparr>subscriptions := map (\<lambda>su.
        if su_subscription_id su = sub_id
        then su\<lparr>su_streak_current := new_streak, su_streak_longest := new_longest,
                su_multiplier := new_multiplier, su_last_executed_at := Some now,
                su_next_due_at := now + interval * 1000000, su_updated_at := now\<rparr>
        else su) (subscriptions d)\<rparr>)"

definition resolve_body :: "subscription \<Rightarrow> json" where
  "resolve_body sub =
     JObj [(''query'', JStr (su_intent_query sub)), (''user_wallet'', JStr (su_wallet_address sub))]"

definition execute_subscription ::
    "profile \<Rightarrow> 'w pg \<Rightarrow> 'w http \<Rightarrow> string \<Rightarrow> string \<Rightarrow> subscription \<Rightarrow> ('w app, unit) prog" where
  \<comment> \<open>the body of the loop; an answer that is no success is logged only\<close>
  "execute_subscription prof pg post api_base_url internal_api_key sub =
     andThen (attempt (call (post (api_base_url @ ''/v1/intents/resolve'') internal_api_key (resolve_body sub)))) (\<lambda>resp.
       case resp of
         Inr status \<Rightarrow>
           if is_success status then
             andThen (or_panic ''attempt to add with overflow'' (i64_result prof (su_streak_current sub + 1))) (\<lambda>new_streak.
             let new_longest = max (su_streak_longest sub) new_streak;
                 new_multiplier = streak_multiplier new_streak;
                 interval = frequency_seconds (su_frequency sub) in
             execute pg (advance_statement new_streak new_longest new_multiplier interval (su_subscription_id sub)))
           else ret ()
       | Inl e \<Rightarrow> ret ())"

fun execute_each ::
    "profile \<Rightarrow> 'w pg \<Rightarrow> 'w http \<Rightarrow> string \<Rightarrow> string \<Rightarrow> subscription list \<Rightarrow> ('w app, unit) prog" where
  "execute_each prof pg post api_base_url internal_api_key [] = ret ()"
| "execute_each prof pg post api_base_url internal_api_key (sub # subs) =
     andThen (execute_subscription prof pg post api_base_url internal_api_key sub) (\<lambda>_.
     execute_each prof pg post api_base_url internal_api_key subs)"

definition poll_subscriptions ::
    "profile \<Rightarrow> 'w pg \<Rightarrow> 'w http \<Rightarrow> string \<Rightarrow> string \<Rightarrow> ('w app, unit) prog" where
  "poll_subscriptions prof pg post api_base_url internal_api_key =
     andThen (execute pg due_statement) (\<lambda>due_subs.
     if due_subs = [] then ret ()
     else execute_each prof pg post api_base_url internal_api_key due_subs)"

definition start_subscription_cron ::
    "profile \<Rightarrow> 'w pg \<Rightarrow> 'w http \<Rightarrow> string \<Rightarrow> string \<Rightarrow> nat \<Rightarrow> ('w app, unit) prog" where
  "start_subscription_cron prof pg post api_base_url internal_api_key n =
     turns (poll_subscriptions prof pg post api_base_url internal_api_key) n"

subsection \<open>A poll that succeeds\<close>

definition advanced :: "time \<Rightarrow> subscription \<Rightarrow> subscription" where
  \<comment> \<open>what a successful execution makes of a row\<close>
  "advanced now su =
     su\<lparr>su_streak_current := su_streak_current su + 1,
        su_streak_longest := max (su_streak_longest su) (su_streak_current su + 1),
        su_multiplier := streak_multiplier (su_streak_current su + 1),
        su_last_executed_at := Some now,
        su_next_due_at := now + frequency_seconds (su_frequency su) * 1000000,
        su_updated_at := now\<rparr>"

definition always_succeeds :: "'w http \<Rightarrow> bool" where
  "always_succeeds post \<longleftrightarrow>
     (\<forall>url key body w. \<exists>status w'. post url key body w = (Inr status, w') \<and> is_success status)"

lemma advanced_id [simp]: "su_subscription_id (advanced now su) = su_subscription_id su"
  by (simp add: advanced_def)

lemma frequency_positive: "0 < frequency_seconds f"
  by (simp add: frequency_seconds_def)

lemma advanced_not_due: "\<not> is_due now (advanced now su)"
  using frequency_positive [of "su_frequency su"] by (simp add: is_due_def advanced_def)

lemma execute_subscription_success:
  assumes "quiet pg" "\<And>w. pg_now pg w = now" "always_succeeds post" "in_i64 (su_streak_current sub + 1)"
    and "distinct (map su_subscription_id (subscriptions (db s)))" "sub \<in> set (subscriptions (db s))"
  shows "\<exists>t. execute_subscription prof pg post base_url key sub s = (Inr (), t)
    \<and> db t = (db s)\<lparr>subscriptions := map (\<lambda>su. if su = sub then advanced now su else su) (subscriptions (db s))\<rparr>"
proof -
  obtain status w where post: "post (base_url @ ''/v1/intents/resolve'') key (resolve_body sub) (world s) = (Inr status, w)"
    "is_success status" using assms(3) unfolding always_succeeds_def by blast
  let ?streak = "su_streak_current sub + 1"
  let ?adv = "advance_statement ?streak (max (su_streak_longest sub) ?streak) (streak_multiplier ?streak)
      (frequency_seconds (su_frequency sub)) (su_subscription_id sub)"
  have "su = sub" if "su \<in> set (subscriptions (db s))" "su_subscription_id su = su_subscription_id sub" for su
    using that assms(5,6) by (auto simp: distinct_map dest: inj_onD)
  then have "?adv now (db s) = Inr ((), (db s)\<lparr>subscriptions :=
      map (\<lambda>su. if su = sub then advanced now su else su) (subscriptions (db s))\<rparr>)"
    by (auto simp: advance_statement_def advanced_def intro!: arg_cong [where f = "\<lambda>x. (db s)\<lparr>subscriptions := x\<rparr>"])
  with post assms(4) show ?thesis
    by (simp add: execute_subscription_def call_def prog_simps i64_result_def Let_def quiet_execute [OF assms(1)]
        run_statement_def assms(2))
qed

lemma execute_each_success:
  assumes "quiet pg" "\<And>w. pg_now pg w = now" "always_succeeds post"
    and "distinct (map su_subscription_id (subscriptions (db s)))" "set subs \<subseteq> set (subscriptions (db s))" "distinct subs"
    and "\<And>sub. sub \<in> set subs \<Longrightarrow> in_i64 (su_streak_current sub + 1)"
  shows "\<exists>t. execute_each prof pg post base_url key subs s = (Inr (), t)
    \<and> db t = (db s)\<lparr>subscriptions := map (\<lambda>su. if su \<in> set subs then advanced now su else su) (subscriptions (db s))\<rparr>"
  using assms(4-7)
proof (induction subs arbitrary: s)
  case Nil
  have "(db s)\<lparr>subscriptions := subscriptions (db s)\<rparr> = db s" by (cases "db s") simp
  then show ?case by (simp add: ret_def)
next
  case (Cons sub subs)
  let ?table = "subscriptions (db s)"
  from Cons.prems have sub: "sub \<in> set ?table" "in_i64 (su_streak_current sub + 1)" by simp_all
  obtain t where t: "execute_subscription prof pg post base_url key sub s = (Inr (), t)"
    "db t = (db s)\<lparr>subscriptions := map (\<lambda>su. if su = sub then advanced now su else su) ?table\<rparr>"
    using execute_subscription_success [where sub = sub and s = s and key = key and base_url = base_url,
        OF assms(1-3) sub(2) Cons.prems(1) sub(1)] by blast
  have same_id: "a = b" if "a \<in> set ?table" "b \<in> set ?table" "su_subscription_id a = su_subscription_id b" for a b
    using that Cons.prems(1) by (auto simp: distinct_map dest: inj_onD)
  have "map su_subscription_id (subscriptions (db t)) = map su_subscription_id ?table" by (simp add: t(2))
  with Cons.prems(1) have ids: "distinct (map su_subscription_id (subscriptions (db t)))" by simp
  have "set subs \<subseteq> set (subscriptions (db t))" using Cons.prems(2,3) by (force simp: t(2))
  from Cons.IH [OF ids this] Cons.prems(3,4) obtain u where u: "execute_each prof pg post base_url key subs t = (Inr (), u)"
    "db u = (db t)\<lparr>subscriptions := map (\<lambda>su. if su \<in> set subs then advanced now su else su) (subscriptions (db t))\<rparr>" by auto
  have "advanced now sub \<notin> set subs"
  proof
    assume "advanced now sub \<in> set subs"
    with Cons.prems(2) sub(1) same_id [of "advanced now sub" sub] have "advanced now sub = sub" by auto
    with \<open>advanced now sub \<in> set subs\<close> Cons.prems(3) show False by simp
  qed
  then have "db u = (db s)\<lparr>subscriptions := map (\<lambda>su. if su \<in> set (sub # subs) then advanced now su else su) ?table\<rparr>"
    by (simp add: u(2) t(2) o_def)
  with t(1) u(1) show ?case by (simp add: andThen_def)
qed

definition due_in_order :: "time \<Rightarrow> database \<Rightarrow> subscription list" where
  "due_in_order now d = sort_key su_next_due_at (filter (is_due now) (subscriptions d))"


subsection \<open>Streaks stay consistent\<close>

definition streak_ok :: "subscription \<Rightarrow> bool" where
  "streak_ok su \<longleftrightarrow>
     0 \<le> su_streak_current su \<and> su_streak_current su \<le> su_streak_longest su
     \<and> su_multiplier su = streak_multiplier (su_streak_current su)"

definition streaks_ok :: "database \<Rightarrow> bool" where
  "streaks_ok d \<longleftrightarrow> list_all streak_ok (subscriptions d)"

definition others_keep_streaks :: "'w pg \<Rightarrow> bool" where
  \<comment> \<open>the other sessions may write subscriptions, consistent ones\<close>
  "others_keep_streaks pg \<longleftrightarrow> (\<forall>w d. streaks_ok d \<longrightarrow> streaks_ok (pg_others pg w d))"

lemma execute_keeps_streaks:
  assumes "others_keep_streaks pg" "streaks_ok (db s)"
    and "\<And>now d x e. streaks_ok d \<Longrightarrow> f now d = Inr (x, e) \<Longrightarrow> streaks_ok e"
  shows "streaks_ok (db (snd (execute pg f s)))"
    and "fst (execute pg f s) = Inr x \<Longrightarrow> \<exists>now d. streaks_ok d \<and> f now d = Inr (x, db (snd (execute pg f s)))"
proof -
  have others: "streaks_ok (pg_others pg w (db s))" for w using assms(1,2) by (simp add: others_keep_streaks_def)
  show "streaks_ok (db (snd (execute pg f s)))"
    using others by (auto simp: execute_def andThen_def round_trip_def see_others_def run_statement_def assms(2)
        split: prod.splits option.splits sum.splits dest: assms(3) [OF others])
  show "\<exists>now d. streaks_ok d \<and> f now d = Inr (x, db (snd (execute pg f s)))" if "fst (execute pg f s) = Inr x"
    using that others by (auto simp: execute_def andThen_def round_trip_def see_others_def run_statement_def
        split: prod.splits option.splits sum.splits)
qed

lemma advance_keeps_streaks:
  assumes "streak_ok sub" "streaks_ok d"
    and "advance_statement (su_streak_current sub + 1) (max (su_streak_longest sub) (su_streak_current sub + 1))
      (streak_multiplier (su_streak_current sub + 1)) interval i now d = Inr (x, e)"
  shows "streaks_ok e"
  using assms by (auto simp: advance_statement_def streaks_ok_def streak_ok_def list_all_iff)

lemma execute_subscription_streaks:
  assumes "others_keep_streaks pg" "streak_ok sub" "streaks_ok (db s)"
  shows "streaks_ok (db (snd (execute_subscription Debug pg post base_url key sub s)))"
proof -
  let ?streak = "su_streak_current sub + 1"
  let ?adv = "execute pg (advance_statement ?streak (max (su_streak_longest sub) ?streak) (streak_multiplier ?streak)
      (frequency_seconds (su_frequency sub)) (su_subscription_id sub))"
  have "streaks_ok (db (snd (?adv s')))" if "streaks_ok (db s')" for s'
    by (rule execute_keeps_streaks [OF assms(1) that]) (rule advance_keeps_streaks [OF assms(2)])
  with assms(3) show ?thesis
    by (auto simp: execute_subscription_def call_def prog_simps i64_result_def Let_def split: prod.splits sum.splits)
qed

lemma execute_each_streaks:
  assumes "others_keep_streaks pg" "list_all streak_ok subs" "streaks_ok (db s)"
  shows "streaks_ok (db (snd (execute_each Debug pg post base_url key subs s)))"
  using assms(2,3)
proof (induction subs arbitrary: s)
  case Nil
  then show ?case by (simp add: ret_def)
next
  case (Cons sub subs)
  obtain res t where run: "execute_subscription Debug pg post base_url key sub s = (res, t)"
    by (cases "execute_subscription Debug pg post base_url key sub s")
  with execute_subscription_streaks [OF assms(1), of sub s post base_url key] Cons.prems have "streaks_ok (db t)" by simp
  with run Cons show ?case by (auto simp: andThen_def split: sum.splits)
qed

lemma due_statement_streaks: "streaks_ok d \<Longrightarrow> due_statement now d = Inr (subs, e) \<Longrightarrow> list_all streak_ok subs \<and> streaks_ok e"
  by (auto simp: due_statement_def streaks_ok_def list_all_iff dest!: in_set_takeD)

lemma poll_keeps_streaks:
  assumes "others_keep_streaks pg" "streaks_ok (db s)"
  shows "streaks_ok (db (snd (poll_subscriptions Debug pg post base_url key s)))"
proof -
  obtain res t where run: "execute pg due_statement s = (res, t)" by (cases "execute pg due_statement s")
  have t: "streaks_ok (db t)"
    using execute_keeps_streaks(1) [OF assms, of due_statement] due_statement_streaks run by (metis snd_conv)
  show ?thesis
  proof (cases res)
    case (Inl e)
    with run t show ?thesis by (simp add: poll_subscriptions_def andThen_def)
  next
    case (Inr subs)
    then obtain now d where "streaks_ok d" "due_statement now d = Inr (subs, db t)"
      using execute_keeps_streaks(2) [OF assms, of due_statement subs] due_statement_streaks run by (metis fst_conv snd_conv)
    with due_statement_streaks have "list_all streak_ok subs" by blast
    from execute_each_streaks [OF assms(1) this t] run Inr t show ?thesis
      by (simp add: poll_subscriptions_def andThen_def ret_def)
  qed
qed

interpretation streaks: invariant_system
    "\<lambda>s t. others_keep_streaks pg \<and> t = snd (poll_subscriptions Debug pg post base_url key s)"
    "\<lambda>s. streaks_ok (db s)" for pg post base_url key
  using poll_keeps_streaks by unfold_locales blast

text \<open>
  A streak, its record and its multiplier agree. Over any number of turns of the cron in a
  build that checks overflow, with the database and the API failing anywhere and other sessions
  writing consistent rows in between, every subscription has a streak of at least zero, at most
  its longest one, and the multiplier of that streak's tier.
\<close>

theorem streaks_stay_consistent:
  assumes "others_keep_streaks pg" "streaks_ok (db s)"
  shows "streaks_ok (db (snd (start_subscription_cron Debug pg post base_url key n s)))"
proof -
  have "streaks_ok (db (snd (turns (poll_subscriptions Debug pg post base_url key) n s))) \<and> True"
    by (rule turns_keep [where R = "\<lambda>s t. True" and ok = "\<lambda>s. streaks_ok (db s)"])
      (use poll_keeps_streaks [OF assms(1)] assms(2) in auto)
  then show ?thesis by (simp add: start_subscription_cron_def)
qed

subsection \<open>Subscriptions that block the others\<close>

definition never_succeeds :: "'w http \<Rightarrow> string \<Rightarrow> string \<Rightarrow> subscription \<Rightarrow> bool" where
  "never_succeeds post base_url key sub \<longleftrightarrow>
     (\<forall>w status w'. post (base_url @ ''/v1/intents/resolve'') key (resolve_body sub) w = (Inr status, w') \<longrightarrow> \<not> is_success status)"

lemma filter_takeWhile_sorted:
  fixes f :: "'a \<Rightarrow> 'b::linorder"
  shows "sorted (map f xs) \<Longrightarrow> filter (\<lambda>x. f x \<le> t) xs = takeWhile (\<lambda>x. f x \<le> t) xs"
proof (induction xs)
  case Nil
  then show ?case by simp
next
  case (Cons x xs)
  then show ?case by (cases xs) (auto dest: order_trans)
qed

lemma due_later_same_first:
  \<comment> \<open>what becomes due later queues up behind\<close>
  assumes "now \<le> later" "k \<le> length (due_in_order now d)"
  shows "take k (due_in_order later d) = take k (due_in_order now d)"
proof -
  let ?early = "\<lambda>su. su_next_due_at su \<le> now" and ?all = "due_in_order later d"
  have "due_in_order now d = filter ?early ?all"
    using assms(1) unfolding due_in_order_def filter_sort filter_filter
    by (intro arg_cong [where f = "sort_key su_next_due_at"] filter_cong) (auto simp: is_due_def)
  also have "\<dots> = takeWhile ?early ?all" by (rule filter_takeWhile_sorted) (simp add: due_in_order_def)
  finally have "?all = due_in_order now d @ dropWhile ?early ?all" by simp
  then show ?thesis using assms(2) by (metis append_Nil2 diff_is_0_eq take0 take_append)
qed

lemma never_succeeds_silent:
  assumes "list_all (never_succeeds post base_url key) subs"
  shows "\<exists>t. execute_each prof pg post base_url key subs s = (Inr (), t) \<and> db t = db s"
  using assms
proof (induction subs arbitrary: s)
  case Nil
  then show ?case by (simp add: ret_def)
next
  case (Cons sub subs)
  obtain answer w where post: "post (base_url @ ''/v1/intents/resolve'') key (resolve_body sub) (world s) = (answer, w)"
    by (cases "post (base_url @ ''/v1/intents/resolve'') key (resolve_body sub) (world s)")
  with Cons.prems have "\<not> is_success status" if "answer = Inr status" for status
    using that by (auto simp: never_succeeds_def)
  with post have "\<exists>t. execute_subscription prof pg post base_url key sub s = (Inr (), t) \<and> db t = db s"
    by (cases answer) (simp_all add: execute_subscription_def call_def prog_simps)
  then obtain t where t: "execute_subscription prof pg post base_url key sub s = (Inr (), t)" "db t = db s" by blast
  from Cons obtain u where "execute_each prof pg post base_url key subs t = (Inr (), u)" "db u = db t" by fastforce
  with t show ?case by (simp add: andThen_def)
qed

text \<open>
  C30: a hundred failing subscriptions block all others. A failure does not move the next date of
  a subscription, so when the hundred that are due longest never succeed, no poll from then on
  executes any subscription at all, whatever becomes due behind them.
\<close>

theorem failing_subscriptions_block:
  assumes "quiet pg" "\<And>w. now \<le> pg_now pg w" "100 \<le> length (due_in_order now (db s))"
    and "list_all (never_succeeds post base_url key) (take 100 (due_in_order now (db s)))"
  shows "db (snd (start_subscription_cron prof pg post base_url key n s)) = db s"
proof -
  let ?ok = "\<lambda>t. db t = db s"
  have "?ok (snd (poll_subscriptions prof pg post base_url key t))" if "?ok t" for t
  proof -
    let ?first = "take 100 (due_in_order now (db s))"
    have "due_statement (pg_now pg (world t)) (db t) = Inr (?first, db t)"
      using due_later_same_first [OF assms(2) assms(3)] that by (simp add: due_statement_def due_in_order_def)
    then have "execute pg due_statement t = (Inr ?first, t)" by (simp add: quiet_execute [OF assms(1)] run_statement_def)
    moreover obtain u where "execute_each prof pg post base_url key ?first t = (Inr (), u)" "db u = db t"
      using never_succeeds_silent [OF assms(4)] by blast
    moreover have "?first \<noteq> []" using assms(3) by auto
    ultimately show ?thesis using that by (simp add: poll_subscriptions_def andThen_def)
  qed
  then have "?ok (snd (turns (poll_subscriptions prof pg post base_url key) n s)) \<and> True"
    by (intro turns_keep [where R = "\<lambda>s t. True" and ok = ?ok]) auto
  then show ?thesis by (simp add: start_subscription_cron_def)
qed

subsection \<open>Concrete runs\<close>

definition sample_subscription :: "string \<Rightarrow> string \<Rightarrow> time \<Rightarrow> subscription" where
  "sample_subscription i intent due =
     \<lparr>su_subscription_id = i, su_wallet_address = ''ann'', su_intent_query = intent, su_auto_execute = False,
      su_streak_current = 2, su_streak_longest = 5, su_multiplier = Fin 1, su_frequency = ''daily'',
      su_next_due_at = due, su_last_executed_at = None, su_updated_at = 0, su_status = ''active''\<rparr>"

definition accepting_api :: "unit http" where
  "accepting_api url key body w = (Inr 200, w)"

definition broken_intent_api :: "unit http" where
  \<comment> \<open>one intent is refused, every other accepted\<close>
  "broken_intent_api url key body w =
     (Inr (if body = JObj [(''query'', JStr ''broken''), (''user_wallet'', JStr ''ann'')] then 422 else 200), w)"

definition due_db :: database where
  "due_db = empty_db\<lparr>subscriptions := [sample_subscription ''a'' ''swap'' 500, sample_subscription ''b'' ''swap'' 2000]\<rparr>"

definition starving_db :: database where
  \<comment> \<open>a hundred rows whose intent is broken, and one behind them\<close>
  "starving_db = empty_db\<lparr>subscriptions :=
     map (\<lambda>k. sample_subscription (dec_nat k) ''broken'' 500) [0 ..< 100] @ [sample_subscription ''a'' ''swap'' 600]\<rparr>"


theorem streaks_stay_consistent_witness:
  "list_all streak_ok (subscriptions (db (snd (start_subscription_cron Debug quiet_pg broken_intent_api ''http'' ''key'' 7
      (app_of () due_db)))))"
proof -
  have "others_keep_streaks quiet_pg" by (simp add: others_keep_streaks_def quiet_pg_def)
  moreover have "streaks_ok (db (app_of () due_db))"
    by (simp add: streaks_ok_def streak_ok_def due_db_def sample_subscription_def streak_multiplier_def)
  ultimately show ?thesis
    using streaks_stay_consistent [of quiet_pg "app_of () due_db" broken_intent_api "''http''" "''key''" 7]
    by (simp add: streaks_ok_def)
qed

theorem failing_subscriptions_block_witness:
  "subscriptions (db (snd (start_subscription_cron Release quiet_pg broken_intent_api ''http'' ''key'' 5
      (app_of () starving_db)))) = subscriptions starving_db"
proof -
  let ?stuck = "map (\<lambda>k. sample_subscription (dec_nat k) ''broken'' 500) [0 ..< 100]"
  have "filter (is_due 550) (subscriptions starving_db) = ?stuck"
    by (simp add: starving_db_def sample_subscription_def is_due_def filter_map o_def del: upt_Suc)
  then have due: "due_in_order 550 starving_db = sort_key su_next_due_at ?stuck" by (simp add: due_in_order_def)
  have "list_all (never_succeeds broken_intent_api ''http'' ''key'') (take 100 (due_in_order 550 starving_db))"
    by (auto simp: due list_all_iff never_succeeds_def broken_intent_api_def resolve_body_def sample_subscription_def is_success_def
        dest!: in_set_takeD)
  moreover have "100 \<le> length (due_in_order 550 (db (app_of () starving_db)))" by (simp add: due)
  ultimately have "db (snd (start_subscription_cron Release quiet_pg broken_intent_api ''http'' ''key'' 5 (app_of () starving_db)))
      = starving_db"
    using failing_subscriptions_block [OF quiet_pg, of 550 "app_of () starving_db" broken_intent_api "''http''" "''key''" Release 5]
    by simp
  then show ?thesis by simp
qed

end
