(* ===== verification/Rental.thy ===== *)
theory Rental
  imports Game_Loop League_Config
begin

section \<open>rental.rs: the settlement of rentals\<close>

text \<open>
  \<^verbatim>\<open>src/src/rental.rs\<close>: a scan of the program's accounts by their discriminator, and one
  transaction for each, whose failure is counted and logged.
\<close>

definition DISC_RENTAL_AGREEMENT :: u8 where
  "DISC_RENTAL_AGREEMENT = 4"

definition SETTLE_RENTAL_DISCRIMINATOR :: u8 where
  "SETTLE_RENTAL_DISCRIMINATOR = 12"

definition settle_rental_ix :: "sdk \<Rightarrow> pubkey \<Rightarrow> pubkey \<Rightarrow> pubkey \<Rightarrow> instruction" where
  "settle_rental_ix sdk signer program_id rental_pda =
     \<lparr>ix_program_id = program_id,
      ix_accounts =
        [meta_new signer True,
         meta_new rental_pda False,
         meta_new_readonly (sdk_system_program_id sdk) False],
      ix_data = [SETTLE_RENTAL_DISCRIMINATOR]\<rparr>"

definition settle_single_rental ::
    "sdk \<Rightarrow> 'w rpc \<Rightarrow> pubkey \<Rightarrow> pubkey \<Rightarrow> pubkey \<Rightarrow> (('w, 'z) keeper_scheme, unit) prog" where
  "settle_single_rental sdk r signer program_id rental_pda =
     andThen (send_instruction r signer (settle_rental_ix sdk signer program_id rental_pda)) (\<lambda>sig. ret ())"

fun settle_each ::
    "sdk \<Rightarrow> 'w rpc \<Rightarrow> pubkey \<Rightarrow> pubkey \<Rightarrow> pubkey list \<Rightarrow> nat \<times> nat \<Rightarrow> (('w, 'z) keeper_scheme, nat \<times> nat) prog" where
  \<comment> \<open>with the counts of successes and failures that the scan logs\<close>
  "settle_each sdk r signer program_id [] counts = ret counts"
| "settle_each sdk r signer program_id (rental_pda # accounts) (success_count, fail_count) =
     andThen (attempt (settle_single_rental sdk r signer program_id rental_pda)) (\<lambda>outcome.
     settle_each sdk r signer program_id accounts
       (case outcome of Inr _ \<Rightarrow> (success_count + 1, fail_count) | Inl _ \<Rightarrow> (success_count, fail_count + 1)))"

definition settle_rentals ::
    "sdk \<Rightarrow> 'w rpc \<Rightarrow> pubkey \<Rightarrow> pubkey \<Rightarrow> (('w, 'z) keeper_scheme, unit) prog" where
  "settle_rentals sdk r signer program_id =
     andThen (call (rpc_get_program_accounts r program_id [(0, [DISC_RENTAL_AGREEMENT])])) (\<lambda>accounts.
     if accounts = [] then ret ()
     else andThen (settle_each sdk r signer program_id accounts (0, 0)) (\<lambda>counts. ret ()))"

definition start_rental_cron ::
    "sdk \<Rightarrow> 'w rpc \<Rightarrow> pubkey \<Rightarrow> pubkey \<Rightarrow> nat \<Rightarrow> (('w, 'z) keeper_scheme, unit) prog" where
  "start_rental_cron sdk r signer program_id n = turns (settle_rentals sdk r signer program_id) n"

subsection \<open>Every rental is tried once\<close>

definition settles :: "sdk \<Rightarrow> pubkey \<Rightarrow> pubkey \<Rightarrow> pubkey list \<Rightarrow> transaction list \<Rightarrow> bool" where
  "settles sdk signer program_id pdas txs \<longleftrightarrow>
     map tx_instructions txs = map (\<lambda>pda. [settle_rental_ix sdk signer program_id pda]) pdas
     \<and> list_all (\<lambda>tx. tx_payer tx = signer) txs"

lemma settle_single_rental_sends:
  assumes "\<And>w. \<exists>bh w'. rpc_get_latest_blockhash r w = (Inr bh, w')"
  shows "\<exists>tx. sent (snd (attempt (settle_single_rental sdk r signer program_id pda) s)) = sent s @ [tx]
      \<and> settles sdk signer program_id [pda] [tx]"
    and "\<exists>outcome. fst (attempt (settle_single_rental sdk r signer program_id pda) s) = Inr outcome"
proof -
  from assms [of "world s"] obtain bh w where bh: "rpc_get_latest_blockhash r (world s) = (Inr bh, w)" by blast
  then show "\<exists>tx. sent (snd (attempt (settle_single_rental sdk r signer program_id pda) s)) = sent s @ [tx]
      \<and> settles sdk signer program_id [pda] [tx]"
    by (auto simp: settle_single_rental_def send_instruction_def submit_def call_def settles_def prog_simps
        split: prod.splits sum.splits)
  from bh show "\<exists>outcome. fst (attempt (settle_single_rental sdk r signer program_id pda) s) = Inr outcome"
    by (auto simp: settle_single_rental_def send_instruction_def submit_def call_def prog_simps
        split: prod.splits sum.splits)
qed

lemma settle_each_sends:
  assumes "\<And>w. \<exists>bh w'. rpc_get_latest_blockhash r w = (Inr bh, w')"
  shows "\<exists>txs t done_count fail_count. settle_each sdk r signer program_id pdas (a, b) s = (Inr (done_count, fail_count), t)
    \<and> sent t = sent s @ txs \<and> settles sdk signer program_id pdas txs
    \<and> done_count + fail_count = a + b + length pdas"
proof (induction pdas arbitrary: a b s)
  case Nil
  then show ?case by (simp add: ret_def settles_def)
next
  case (Cons pda pdas)
  let ?m = "attempt (settle_single_rental sdk r signer program_id pda)"
  obtain outcome where outcome: "fst (?m s) = Inr outcome" using settle_single_rental_sends(2) [OF assms] by blast
  obtain tx where tx: "sent (snd (?m s)) = sent s @ [tx]" "settles sdk signer program_id [pda] [tx]"
    using settle_single_rental_sends(1) [OF assms] by blast
  obtain c d where counts: "(case outcome of Inr _ \<Rightarrow> (a + 1, b) | Inl _ \<Rightarrow> (a, b + 1)) = (c, d)" "c + d = a + b + 1"
    by (cases outcome) auto
  from Cons [of c d "snd (?m s)"] obtain txs t n k where
    "settle_each sdk r signer program_id pdas (c, d) (snd (?m s)) = (Inr (n, k), t)"
    "sent t = sent (snd (?m s)) @ txs" "settles sdk signer program_id pdas txs" "n + k = c + d + length pdas" by blast
  with tx outcome counts show ?case
    by (cases "?m s") (auto simp: andThen_def settles_def intro!: exI [of _ "tx # txs"])
qed

text \<open>
  Every rental agreement is tried once. When the scan answers and a blockhash is always to be
  had, one run hands over one transaction for each account of the scan, in its order, each with
  the settling of that account alone and paid by the signer, whatever comes of those before it;
  and the run itself succeeds.
\<close>

theorem rentals_each_tried_once:
  assumes "rpc_get_program_accounts r program_id [(0, [4])] (world s) = (Inr pdas, w)"
    and "\<And>w. \<exists>bh w'. rpc_get_latest_blockhash r w = (Inr bh, w')"
  shows "\<exists>txs. fst (settle_rentals sdk r signer program_id s) = Inr ()
    \<and> sent (snd (settle_rentals sdk r signer program_id s)) = sent s @ txs
    \<and> map tx_instructions txs = map (\<lambda>pda. [settle_rental_ix sdk signer program_id pda]) pdas
    \<and> list_all (\<lambda>tx. tx_payer tx = signer) txs"
proof -
  obtain txs t n k where "settle_each sdk r signer program_id pdas (0, 0) (s\<lparr>world := w\<rparr>) = (Inr (n, k), t)"
    "sent t = sent (s\<lparr>world := w\<rparr>) @ txs" "settles sdk signer program_id pdas txs"
    using settle_each_sends [OF assms(2), of sdk signer program_id pdas 0 0] by blast
  with assms(1) show ?thesis
    by (cases pdas) (auto simp: settle_rentals_def DISC_RENTAL_AGREEMENT_def call_def andThen_def ret_def settles_def)
qed

definition rental_rpc :: "unit rpc" where
  \<comment> \<open>two agreements, and no transaction goes through\<close>
  "rental_rpc = \<lparr>rpc_get_account = (\<lambda>k w. (Inl ''AccountNotFound'', w)), rpc_get_account_opt = (\<lambda>k w. (Inr None, w)),
     rpc_get_slot = (\<lambda>w. (Inr 7, w)), rpc_get_program_accounts = (\<lambda>k f w. (Inr [[1], [2]], w)),
     rpc_get_latest_blockhash = (\<lambda>w. (Inr [9], w)), rpc_send_and_confirm = (\<lambda>tx w. (Inl ''timeout'', w))\<rparr>"

theorem rentals_each_tried_once_witness:
  "length (sent (snd (settle_rentals sample_sdk rental_rpc [7] [8] \<lparr>world = (), sent = []\<rparr>))) = 2"
proof -
  let ?s = "\<lparr>world = (), sent = []\<rparr> :: unit keeper"
  have "rpc_get_program_accounts rental_rpc [8] [(0, [4])] (world ?s) = (Inr [[1], [2]], ())" by (simp add: rental_rpc_def)
  moreover have "\<exists>bh w'. rpc_get_latest_blockhash rental_rpc w = (Inr bh, w')" for w by (simp add: rental_rpc_def)
  ultimately obtain txs where txs: "sent (snd (settle_rentals sample_sdk rental_rpc [7] [8] ?s)) = txs"
    and ixs: "map tx_instructions txs = map (\<lambda>pda. [settle_rental_ix sample_sdk [7] [8] pda]) [[1], [2]]"
    using rentals_each_tried_once [of rental_rpc "[8]" ?s "[[1], [2]]" "()" sample_sdk "[7]"] by auto
  have "length txs = 2" using arg_cong [OF ixs, of length] by simp
  with txs show ?thesis by simp
qed

end
