(* ===== verification/Keeper_Config.thy ===== *)
theory Keeper_Config
  imports Chain Text League_Config
begin

section \<open>config.rs: the configuration of the process\<close>

text \<open>
  \<^verbatim>\<open>src/src/config.rs\<close>: the variables of the environment, after the file \<^verbatim>\<open>.env\<close> has been read
  into it, with defaults for most and a panic for what is missing or does not parse. Reading a
  keypair file is a parameter; a keypair is known by its public key.
\<close>

record keeper_config =
  database_url :: string
  solana_rpc_url :: string
  api_listen_addr :: string
  point_root_interval_secs :: u64
  rental_settle_interval_secs :: u64
  subscription_poll_interval_secs :: u64
  game_loop_interval_secs :: u64
  capacity_reset_interval_secs :: u64
  quality_score_interval_secs :: u64
  milestone_processor_interval_secs :: u64
  anti_abuse_interval_secs :: u64
  visibility_tick_interval_secs :: u64
  leaderboard_interval_secs :: u64
  stake_watcher_interval_secs :: u64
  rewardz_publish_interval_secs :: u64
  points_request_ttl_seconds :: int
  points_receipt_ttl_seconds :: int
  points_cors_origins :: string
  internal_api_key :: string
  api_base_url :: string
  config_program_id :: pubkey

definition required :: "environment \<Rightarrow> string \<Rightarrow> ('s, string) prog" where
  "required env name = or_panic (name @ '' is required'') (env name)"

definition with_default :: "environment \<Rightarrow> string \<Rightarrow> string \<Rightarrow> string" where
  "with_default env name fallback = (case env name of Some v \<Rightarrow> v | None \<Rightarrow> fallback)"

definition u64_var :: "environment \<Rightarrow> string \<Rightarrow> string \<Rightarrow> ('s, u64) prog" where
  "u64_var env name fallback = or_panic (name @ '' must be a u64'') (parse_u64 (with_default env name fallback))"

definition i64_var :: "environment \<Rightarrow> string \<Rightarrow> string \<Rightarrow> ('s, int) prog" where
  "i64_var env name fallback = or_panic (name @ '' must be i64'') (parse_i64 (with_default env name fallback))"

definition load_config ::
    "sdk \<Rightarrow> (string \<Rightarrow> pubkey option) \<Rightarrow> environment \<Rightarrow> ('s, keeper_config \<times> pubkey) prog" where
  "load_config sdk read_keypair_file env =
     andThen (required env ''DATABASE_URL'') (\<lambda>database_url.
     andThen (required env ''KEYPAIR'') (\<lambda>keypair_path.
     andThen (or_panic ''Failed to read keypair'' (read_keypair_file keypair_path)) (\<lambda>keypair.
     let solana_rpc_url = with_default env ''SOLANA_RPC_URL'' ''http://127.0.0.1:8899'';
         api_listen_addr = with_default env ''API_LISTEN_ADDR'' ''0.0.0.0:8081'' in
     andThen (u64_var env ''POINT_ROOT_INTERVAL_SECS'' ''28800'') (\<lambda>point_root.
     andThen (u64_var env ''RENTAL_SETTLE_INTERVAL_SECS'' ''604800'') (\<lambda>rental.
     andThen (u64_var env ''SUBSCRIPTION_POLL_INTERVAL_SECS'' ''60'') (\<lambda>subscription.
     andThen (u64_var env ''GAME_LOOP_INTERVAL_SECS'' ''15'') (\<lambda>game_loop.
     andThen (u64_var env ''CAPACITY_RESET_INTERVAL_SECS'' ''3600'') (\<lambda>capacity_reset.
     andThen (u64_var env ''QUALITY_SCORE_INTERVAL_SECS'' ''3600'') (\<lambda>quality_score.
     andThen (u64_var env ''MILESTONE_PROCESSOR_INTERVAL_SECS'' ''300'') (\<lambda>milestone_processor.
     andThen (u64_var env ''ANTI_ABUSE_INTERVAL_SECS'' ''3600'') (\<lambda>anti_abuse.
     andThen (u64_var env ''VISIBILITY_TICK_INTERVAL_SECS'' ''900'') (\<lambda>visibility_tick.
     andThen (u64_var env ''LEADERBOARD_INTERVAL_SECS'' ''86400'') (\<lambda>leaderboard.
     andThen (u64_var env ''STAKE_WATCHER_INTERVAL_SECS'' ''60'') (\<lambda>stake_watcher.
     andThen (u64_var env ''REWARDZ_PUBLISH_INTERVAL_SECS'' ''3600'') (\<lambda>rewardz_publish.
     andThen (i64_var env ''POINTS_REQUEST_TTL_SECONDS'' ''300'') (\<lambda>request_ttl.
     andThen (i64_var env ''POINTS_RECEIPT_TTL_SECONDS'' ''600'') (\<lambda>receipt_ttl.
     let points_cors_origins = with_default env ''POINTS_CORS_ORIGINS'' ''*'' in
     andThen (required env ''INTERNAL_API_KEY'') (\<lambda>internal_api_key.
     let api_base_url = with_default env ''API_BASE_URL'' ''http://127.0.0.1:3001'' in
     andThen (required env ''PROGRAM_ID'') (\<lambda>program_id_str.
     andThen (or_panic ''Invalid PROGRAM_ID'' (sdk_pubkey_from_str sdk program_id_str)) (\<lambda>program_id.
     ret
       (\<lparr>database_url = database_url, solana_rpc_url = solana_rpc_url, api_listen_addr = api_listen_addr,
         point_root_interval_secs = point_root, rental_settle_interval_secs = rental,
         subscription_poll_interval_secs = subscription, game_loop_interval_secs = game_loop,
         capacity_reset_interval_secs = capacity_reset, quality_score_interval_secs = quality_score,
         milestone_processor_interval_secs = milestone_processor, anti_abuse_interval_secs = anti_abuse,
         visibility_tick_interval_secs = visibility_tick, leaderboard_interval_secs = leaderboard,
         stake_watcher_interval_secs = stake_watcher, rewardz_publish_interval_secs = rewardz_publish,
         points_request_ttl_seconds = request_ttl, points_receipt_ttl_seconds = receipt_ttl,
         points_cors_origins = points_cors_origins, internal_api_key = internal_api_key,
         api_base_url = api_base_url, config_program_id = program_id\<rparr>, keypair)))))))))))))))))))))"

subsection \<open>What the environment says\<close>

definition config_environment :: "sdk \<Rightarrow> string \<Rightarrow> keeper_config \<Rightarrow> environment" where
  \<comment> \<open>every variable spelled out\<close>
  "config_environment sdk keypair_path c = map_of
     [(''DATABASE_URL'', database_url c),
      (''KEYPAIR'', keypair_path),
      (''SOLANA_RPC_URL'', solana_rpc_url c),
      (''API_LISTEN_ADDR'', api_listen_addr c),
      (''POINT_ROOT_INTERVAL_SECS'', dec_u64 (point_root_interval_secs c)),
      (''RENTAL_SETTLE_INTERVAL_SECS'', dec_u64 (rental_settle_interval_secs c)),
      (''SUBSCRIPTION_POLL_INTERVAL_SECS'', dec_u64 (subscription_poll_interval_secs c)),
      (''GAME_LOOP_INTERVAL_SECS'', dec_u64 (game_loop_interval_secs c)),
      (''CAPACITY_RESET_INTERVAL_SECS'', dec_u64 (capacity_reset_interval_secs c)),
      (''QUALITY_SCORE_INTERVAL_SECS'', dec_u64 (quality_score_interval_secs c)),
      (''MILESTONE_PROCESSOR_INTERVAL_SECS'', dec_u64 (milestone_processor_interval_secs c)),
      (''ANTI_ABUSE_INTERVAL_SECS'', dec_u64 (anti_abuse_interval_secs c)),
      (''VISIBILITY_TICK_INTERVAL_SECS'', dec_u64 (visibility_tick_interval_secs c)),
      (''LEADERBOARD_INTERVAL_SECS'', dec_u64 (leaderboard_interval_secs c)),
      (''STAKE_WATCHER_INTERVAL_SECS'', dec_u64 (stake_watcher_interval_secs c)),
      (''REWARDZ_PUBLISH_INTERVAL_SECS'', dec_u64 (rewardz_publish_interval_secs c)),
      (''POINTS_REQUEST_TTL_SECONDS'', dec_int (points_request_ttl_seconds c)),
      (''POINTS_RECEIPT_TTL_SECONDS'', dec_int (points_receipt_ttl_seconds c)),
      (''POINTS_CORS_ORIGINS'', points_cors_origins c),
      (''INTERNAL_API_KEY'', internal_api_key c),
      (''API_BASE_URL'', api_base_url c),
      (''PROGRAM_ID'', sdk_pubkey_to_string sdk (config_program_id c))]"

lemma pure_andThen: "snd (m s) = s \<Longrightarrow> (\<And>x. snd (k x s) = s) \<Longrightarrow> snd (andThen m k s) = s"
  by (cases "m s") (auto simp: andThen_def split: sum.splits)

lemma pure_reads:
  "snd (required env name s) = s" "snd (u64_var env name v s) = s" "snd (i64_var env name v s) = s"
  "snd (or_panic e r s) = s" "snd (ret x s) = s"
  by (simp_all add: required_def u64_var_def i64_var_def prog_simps split: option.splits)

lemma load_config_pure: "snd (load_config sdk keypair_file env s) = s"
  unfolding load_config_def Let_def by (intro pure_andThen pure_reads)

lemma load_config_spelled_out:
  assumes "keypair_file keypair_path = Some keypair"
    and "sdk_pubkey_from_str sdk (sdk_pubkey_to_string sdk (config_program_id c)) = Some (config_program_id c)"
    and "in_i64 (points_request_ttl_seconds c)" "in_i64 (points_receipt_ttl_seconds c)"
  shows "load_config sdk keypair_file (others ++ config_environment sdk keypair_path c) s = (Inr (c, keypair), s)"
proof -
  let ?env = "others ++ config_environment sdk keypair_path c"
  have strings: "?env ''DATABASE_URL'' = Some (database_url c)" "?env ''KEYPAIR'' = Some keypair_path"
    "?env ''SOLANA_RPC_URL'' = Some (solana_rpc_url c)" "?env ''API_LISTEN_ADDR'' = Some (api_listen_addr c)"
    "?env ''POINTS_CORS_ORIGINS'' = Some (points_cors_origins c)" "?env ''INTERNAL_API_KEY'' = Some (internal_api_key c)"
    "?env ''API_BASE_URL'' = Some (api_base_url c)" "?env ''PROGRAM_ID'' = Some (sdk_pubkey_to_string sdk (config_program_id c))"
    by (simp_all add: config_environment_def map_add_def)
  have intervals: "?env ''POINT_ROOT_INTERVAL_SECS'' = Some (dec_u64 (point_root_interval_secs c))"
    "?env ''RENTAL_SETTLE_INTERVAL_SECS'' = Some (dec_u64 (rental_settle_interval_secs c))"
    "?env ''SUBSCRIPTION_POLL_INTERVAL_SECS'' = Some (dec_u64 (subscription_poll_interval_secs c))"
    "?env ''GAME_LOOP_INTERVAL_SECS'' = Some (dec_u64 (game_loop_interval_secs c))"
    "?env ''CAPACITY_RESET_INTERVAL_SECS'' = Some (dec_u64 (capacity_reset_interval_secs c))"
    "?env ''QUALITY_SCORE_INTERVAL_SECS'' = Some (dec_u64 (quality_score_interval_secs c))"
    "?env ''MILESTONE_PROCESSOR_INTERVAL_SECS'' = Some (dec_u64 (milestone_processor_interval_secs c))"
    "?env ''ANTI_ABUSE_INTERVAL_SECS'' = Some (dec_u64 (anti_abuse_interval_secs c))"
    "?env ''VISIBILITY_TICK_INTERVAL_SECS'' = Some (dec_u64 (visibility_tick_interval_secs c))"
    "?env ''LEADERBOARD_INTERVAL_SECS'' = Some (dec_u64 (leaderboard_interval_secs c))"
    "?env ''STAKE_WATCHER_INTERVAL_SECS'' = Some (dec_u64 (stake_watcher_interval_secs c))"
    "?env ''REWARDZ_PUBLISH_INTERVAL_SECS'' = Some (dec_u64 (rewardz_publish_interval_secs c))"
    "?env ''POINTS_REQUEST_TTL_SECONDS'' = Some (dec_int (points_request_ttl_seconds c))"
    "?env ''POINTS_RECEIPT_TTL_SECONDS'' = Some (dec_int (points_receipt_ttl_seconds c))"
    by (simp_all add: config_environment_def map_add_def)
  show ?thesis
    by (simp add: load_config_def Let_def required_def u64_var_def i64_var_def with_default_def strings intervals
        parse_u64_dec_u64 parse_i64_dec_int or_panic_def assms ret_def)
qed

text \<open>
  C37: the configuration is read as it is written. From an environment that spells out all 22
  variables, whatever the values and whatever other variables there are, the process reads the
  same values back: no interval is swapped with another, and none is refused, zero included.
\<close>

theorem load_config_roundtrip:
  assumes "keypair_file keypair_path = Some keypair"
    and "sdk_pubkey_from_str sdk (sdk_pubkey_to_string sdk (config_program_id c)) = Some (config_program_id c)"
    and "in_i64 (points_request_ttl_seconds c)" "in_i64 (points_receipt_ttl_seconds c)"
  shows "load_config sdk keypair_file (others ++ config_environment sdk keypair_path c) s = (Inr (c, keypair), s)"
  using assms by (rule load_config_spelled_out)

definition sample_keeper_config :: keeper_config where
  "sample_keeper_config =
     \<lparr>database_url = ''postgres'', solana_rpc_url = ''http://rpc'', api_listen_addr = ''0.0.0.0:1'',
      point_root_interval_secs = 1, rental_settle_interval_secs = 2, subscription_poll_interval_secs = 3,
      game_loop_interval_secs = 0, capacity_reset_interval_secs = 5, quality_score_interval_secs = 6,
      milestone_processor_interval_secs = 7, anti_abuse_interval_secs = 8, visibility_tick_interval_secs = 9,
      leaderboard_interval_secs = 10, stake_watcher_interval_secs = 11, rewardz_publish_interval_secs = 12,
      points_request_ttl_seconds = - 13, points_receipt_ttl_seconds = 14, points_cors_origins = ''*'',
      internal_api_key = ''key'', api_base_url = ''http://api'', config_program_id = [65]\<rparr>"

definition text_sdk :: sdk where
  \<comment> \<open>an address is the text of its bytes\<close>
  "text_sdk =
     \<lparr>sdk_keccak = id, sdk_find_program_address = (\<lambda>seeds p. concat seeds), sdk_pubkey_from_str = (\<lambda>cs. Some (map (word_of_nat \<circ> of_char) cs)),
      sdk_pubkey_to_string = map (char_of \<circ> unat), sdk_slot_hashes_id = [1], sdk_system_program_id = [0], sdk_bs58_encode = map (char_of \<circ> unat),
      sdk_bs58_decode = (\<lambda>cs. Some (map (word_of_nat \<circ> of_char) cs)), sdk_sign = (\<lambda>k m. m), sdk_verify = (\<lambda>s k m. s = m)\<rparr>"

lemma sample_program_id [simp]:
  "sdk_pubkey_from_str text_sdk (sdk_pubkey_to_string text_sdk (config_program_id sample_keeper_config)) =
     Some (config_program_id sample_keeper_config)"
  by (simp add: text_sdk_def sample_keeper_config_def)

lemma sample_ttls [simp]:
  "in_i64 (points_request_ttl_seconds sample_keeper_config)" "in_i64 (points_receipt_ttl_seconds sample_keeper_config)"
  by (simp_all add: sample_keeper_config_def in_i64_def)

theorem load_config_roundtrip_witness:
  "load_config text_sdk [''id.json'' \<mapsto> [7]] (devnet_only ++ config_environment text_sdk ''id.json'' sample_keeper_config) () =
     (Inr (sample_keeper_config, [7]), ())"
  by (rule load_config_roundtrip) simp_all

end
