(* ===== verification/Keeper_Main.thy ===== *)
theory Keeper_Main
  imports Keeper_Config League_Json Game_Loop Router
begin

section \<open>main.rs: the commands of the process\<close>

text \<open>
  \<^verbatim>\<open>src/src/main.rs\<close>: what each command starts. The state of the process extends that of the
  keeper by the lines it has printed, the tasks it has spawned with their intervals, and the
  listeners it serves. A cron of the league reads the league's configuration before it spawns its
  task, so an unknown network panics in \<^verbatim>\<open>main\<close>. What the tasks then do is the matter of the other
  theories; the CLI parser, the printer of JSON, the connection pool and the listener are
  parameters.
\<close>

datatype command = ServeApi | RunCrons | FullMode | PrintLeagueConfig | StartRound

datatype exit_code = EXIT_SUCCESS | EXIT_FAILURE

datatype cron =
    PublisherCron
  | RentalCron
  | SubscriptionCron
  | GameLoopCron
  | CrankerLoop
  | CapacityResetCron
  | QualityScoreCron
  | MilestoneProcessorCron
  | AntiAbuseCron
  | VisibilityTickCron
  | LeaderboardCron
  | StakeWatcherCron
  | RewardzPublisherCron

record 'w process = "'w app" +
  printed :: "string list"
  spawned :: "(cron \<times> u64) list"
  serving :: "(string \<times> router) list"

record 'w host =
  host_sdk :: sdk
  host_api :: mvp_api
  host_env :: environment
    \<comment> \<open>the environment with the file \<^verbatim>\<open>.env\<close> read into it\<close>
  host_keypair_file :: "string \<Rightarrow> pubkey option"
  host_rpc :: "string \<Rightarrow> 'w rpc"
    \<comment> \<open>the client of an RPC address\<close>
  host_connect :: "nat \<Rightarrow> string \<Rightarrow> 'w \<Rightarrow> (string + unit) \<times> 'w"
    \<comment> \<open>a pool of so many connections\<close>
  host_bind :: "string \<Rightarrow> 'w \<Rightarrow> (string + unit) \<times> 'w"
  host_http :: http_crates
  host_json_pretty :: "json \<Rightarrow> string"
    \<comment> \<open>\<^verbatim>\<open>serde_json::to_string_pretty\<close>\<close>

definition print_line :: "string \<Rightarrow> ('w process, unit) prog" where
  "print_line line s = (Inr (), s\<lparr>printed := printed s @ [line]\<rparr>)"

definition spawn :: "cron \<Rightarrow> u64 \<Rightarrow> ('w process, unit) prog" where
  "spawn c interval_secs s = (Inr (), s\<lparr>spawned := spawned s @ [(c, interval_secs)]\<rparr>)"

definition spawn_league :: "environment \<Rightarrow> cron \<Rightarrow> u64 \<Rightarrow> ('w process, unit) prog" where
  \<comment> \<open>a starter that begins with \<open>let cfg = load_league_config();\<close>\<close>
  "spawn_league env c interval_secs = with_config env (\<lambda>cfg. spawn c interval_secs)"

definition to_ascii_lowercase :: "string \<Rightarrow> string" where
  "to_ascii_lowercase s =
     map (\<lambda>c. if 65 \<le> (of_char c :: nat) \<and> (of_char c :: nat) \<le> 90 then char_of ((of_char c :: nat) + 32) else c) s"

definition cranker_enabled :: "environment \<Rightarrow> bool" where
  "cranker_enabled env =
     (case env ''KEEPER_RUN_CRANKER'' of
        Some v \<Rightarrow> to_ascii_lowercase (trim v) \<in> {''true'', ''1'', ''yes''}
      | None \<Rightarrow> False)"

definition start_cranker_loop :: "environment \<Rightarrow> u64 \<Rightarrow> ('w process, unit) prog" where
  "start_cranker_loop env interval_secs =
     (if \<not> cranker_enabled env then ret () else spawn CrankerLoop interval_secs)"

definition run_crons :: "environment \<Rightarrow> keeper_config \<Rightarrow> ('w process, unit) prog" where
  "run_crons env config =
     andThen (spawn PublisherCron (point_root_interval_secs config)) (\<lambda>_.
     andThen (spawn RentalCron (rental_settle_interval_secs config)) (\<lambda>_.
     andThen (spawn SubscriptionCron (subscription_poll_interval_secs config)) (\<lambda>_.
     andThen (spawn GameLoopCron (game_loop_interval_secs config)) (\<lambda>_.
     andThen (start_cranker_loop env (game_loop_interval_secs config)) (\<lambda>_.
     andThen (spawn_league env CapacityResetCron (capacity_reset_interval_secs config)) (\<lambda>_.
     andThen (spawn_league env QualityScoreCron (quality_score_interval_secs config)) (\<lambda>_.
     andThen (spawn_league env MilestoneProcessorCron (milestone_processor_interval_secs config)) (\<lambda>_.
     andThen (spawn_league env AntiAbuseCron (anti_abuse_interval_secs config)) (\<lambda>_.
     andThen (spawn_league env VisibilityTickCron (visibility_tick_interval_secs config)) (\<lambda>_.
     andThen (spawn_league env LeaderboardCron (leaderboard_interval_secs config)) (\<lambda>_.
     andThen (spawn_league env StakeWatcherCron (stake_watcher_interval_secs config)) (\<lambda>_.
     spawn RewardzPublisherCron (rewardz_publish_interval_secs config)))))))))))))"

definition api_state :: "keeper_config \<Rightarrow> pubkey \<Rightarrow> app_state" where
  "api_state config keypair =
     \<lparr>as_keypair = keypair,
      as_program_id = config_program_id config,
      as_points_request_ttl_seconds = points_request_ttl_seconds config,
      as_points_receipt_ttl_seconds = points_receipt_ttl_seconds config,
      as_rewardz_publish_interval_secs = u64_as_i64 (rewardz_publish_interval_secs config)\<rparr>"

definition or_die :: "('s, 'a) prog \<Rightarrow> string \<Rightarrow> ('s, 'a) prog" where
  \<comment> \<open>\<open>expect\<close>\<close>
  "or_die m message =
     andThen (attempt m) (\<lambda>outcome. case outcome of Inr x \<Rightarrow> ret x | Inl e \<Rightarrow> panic message)"

definition run_api :: "'w host \<Rightarrow> keeper_config \<Rightarrow> pubkey \<Rightarrow> ('w process, unit) prog" where
  "run_api h config keypair =
     andThen (or_fault (create_router (host_http h) (api_state config keypair) (points_cors_origins config))) (\<lambda>app.
     andThen (or_die (call (host_bind h (api_listen_addr config))) ''Failed to bind'') (\<lambda>_ s.
       (Inr (), s\<lparr>serving := serving s @ [(api_listen_addr config, app)]\<rparr>)))"

definition start_round_once :: "'w host \<Rightarrow> keeper_config \<Rightarrow> pubkey \<Rightarrow> ('w process, exit_code) prog" where
  "start_round_once h config keypair =
     andThen (attempt (run_start_round_once (host_sdk h) (host_api h) (host_rpc h (solana_rpc_url config)) keypair
         (config_program_id config))) (\<lambda>outcome.
       case outcome of
         Inr (Submitted sig) \<Rightarrow>
           andThen (print_line (''start_round submitted: '' @ sdk_bs58_encode (host_sdk h) sig)) (\<lambda>_. ret EXIT_SUCCESS)
       | Inr (Skipped round_id) \<Rightarrow>
           andThen (print_line (''start_round skipped: round '' @ dec_u64 round_id @ '' already active'')) (\<lambda>_.
           ret EXIT_SUCCESS)
       | Inl e \<Rightarrow> ret EXIT_FAILURE)"

definition keeper_main :: "'w host \<Rightarrow> command option \<Rightarrow> ('w process, exit_code) prog" where
  "keeper_main h cmd =
     (let command = (case cmd of Some c \<Rightarrow> c | None \<Rightarrow> FullMode);
          load = load_config (host_sdk h) (host_keypair_file h) (host_env h) in
      if command = PrintLeagueConfig then
        andThen (dump_json (host_json_pretty h) (host_env h)) (\<lambda>text.
        andThen (print_line text) (\<lambda>_. ret EXIT_SUCCESS))
      else if command = StartRound then
        andThen load (\<lambda>(config, keypair). start_round_once h config keypair)
      else
        andThen load (\<lambda>(config, keypair).
        andThen (or_die (create_pool (host_connect h) (database_url config)) ''Failed to create database pool'') (\<lambda>_.
        andThen
          (if command = ServeApi then run_api h config keypair
           else if command = RunCrons then run_crons (host_env h) config
           else andThen (run_crons (host_env h) config) (\<lambda>_. run_api h config keypair)) (\<lambda>_.
        ret EXIT_SUCCESS))))"

subsection \<open>Programs that touch the chain only\<close>

definition chain_only :: "(('w, 'z) keeper_scheme, 'a) prog \<Rightarrow> bool" where
  "chain_only m \<longleftrightarrow> (\<forall>s. \<exists>w txs. snd (m s) = s\<lparr>world := w, sent := txs\<rparr>)"

named_theorems chain_only_intros \<open>programs that touch the chain only\<close>

lemma chain_only_same: "(\<And>s. snd (m s) = s) \<Longrightarrow> chain_only m"
  unfolding chain_only_def by (metis keeper.surjective keeper.update_convs(1,2))

lemma chain_only_basic [chain_only_intros]:
  "chain_only (ret x)" "chain_only (throw e)" "chain_only (panic e)"
  "chain_only (or_throw e r)" "chain_only (or_panic e r)"
  by (rule chain_only_same, simp add: prog_simps split: option.splits)+

lemma chain_only_call [chain_only_intros]: "chain_only (call f)"
  unfolding chain_only_def
proof
  fix s
  obtain res w where "f (world s) = (res, w)" by (cases "f (world s)")
  then have "snd (call f s) = s\<lparr>world := w, sent := sent s\<rparr>" by (auto simp: call_def split: sum.splits)
  then show "\<exists>w txs. snd (call f s) = s\<lparr>world := w, sent := txs\<rparr>" by blast
qed

lemma chain_only_andThen [chain_only_intros]:
  assumes "chain_only m" "\<And>x. chain_only (k x)"
  shows "chain_only (andThen m k)"
  unfolding chain_only_def
proof
  fix s
  obtain res t where m: "m s = (res, t)" by (cases "m s")
  with assms(1) obtain w txs where t: "t = s\<lparr>world := w, sent := txs\<rparr>" unfolding chain_only_def by (metis snd_conv)
  show "\<exists>w txs. snd (andThen m k s) = s\<lparr>world := w, sent := txs\<rparr>"
  proof (cases res)
    case (Inl e)
    with m t show ?thesis by (auto simp: andThen_def)
  next
    case (Inr x)
    from assms(2) [of x] obtain w' txs' where "snd (k x t) = t\<lparr>world := w', sent := txs'\<rparr>" unfolding chain_only_def by blast
    then have "snd (k x t) = s\<lparr>world := w', sent := txs'\<rparr>" by (simp add: t)
    with m Inr show ?thesis by (auto simp: andThen_def)
  qed
qed

lemma chain_only_attempt [chain_only_intros]: "chain_only m \<Longrightarrow> chain_only (attempt m)"
  by (simp add: chain_only_def)

lemma chain_only_submit [chain_only_intros]: "chain_only (submit r tx)"
  unfolding chain_only_def submit_def
proof
  fix s
  from chain_only_call [of "rpc_send_and_confirm r tx"]
  obtain w txs where "snd (call (rpc_send_and_confirm r tx) (s\<lparr>sent := sent s @ [tx]\<rparr>)) = s\<lparr>sent := sent s @ [tx], world := w, sent := txs\<rparr>"
    unfolding chain_only_def by blast
  then show "\<exists>w txs. snd (call (rpc_send_and_confirm r tx) (s\<lparr>sent := sent s @ [tx]\<rparr>)) = s\<lparr>world := w, sent := txs\<rparr>"
    by (intro exI [of _ w] exI [of _ txs]) simp
qed

lemma chain_only_cases [chain_only_intros]:
  "chain_only a \<Longrightarrow> chain_only b \<Longrightarrow> chain_only (if c then a else b)"
  "(\<And>x. chain_only (f x)) \<Longrightarrow> (\<And>y. chain_only (g y)) \<Longrightarrow> chain_only (case z of Inl x \<Rightarrow> f x | Inr y \<Rightarrow> g y)"
  by (auto split: sum.splits)

lemma chain_only_run_start_round_once [chain_only_intros]: "chain_only (run_start_round_once sdk api r signer program_id)"
  unfolding run_start_round_once_def load_game_config_def start_round_def load_game_round_def submit_start_round_def
    send_instruction_def
  by (intro chain_only_intros)

subsection \<open>The one-shot commands\<close>

lemma start_round_once_outcome:
  obtains res w txs where
    "run_start_round_once (host_sdk h) (host_api h) (host_rpc h (solana_rpc_url config)) keypair (config_program_id config) s =
       (res, s\<lparr>world := w, sent := sent s @ txs\<rparr>)" "length txs \<le> 1"
proof -
  let ?m = "run_start_round_once (host_sdk h) (host_api h) (host_rpc h (solana_rpc_url config)) keypair (config_program_id config)"
  obtain res t where t: "?m s = (res, t)" by (cases "?m s")
  have "chain_only ?m" by (rule chain_only_run_start_round_once)
  then obtain w txs where "snd (?m s) = s\<lparr>world := w, sent := txs\<rparr>" unfolding chain_only_def by blast
  moreover have "sends (Suc 0) ?m" unfolding run_start_round_once_def load_game_config_def by (intro sends_intros)
  then obtain more_txs where "length more_txs \<le> Suc 0" "sent (snd (?m s)) = sent s @ more_txs" by (rule sendsE) blast
  ultimately have "?m s = (res, s\<lparr>world := w, sent := sent s @ more_txs\<rparr>)" "length more_txs \<le> 1" using t by simp_all
  then show thesis by (rule that)
qed

text \<open>
  The one-shot commands start nothing. \<open>print-league-config\<close> prints one line, or panics on an
  unknown network, and does nothing else at all; \<open>start-round\<close> sends at most one transaction and
  never touches the database. Neither spawns a cron nor serves the API.
\<close>

theorem one_shot_commands_isolated:
  "(keeper_main h (Some PrintLeagueConfig) s =
      (case load_league_config (host_env h) of
         Inr cfg \<Rightarrow> (Inr EXIT_SUCCESS, s\<lparr>printed := printed s @ [host_json_pretty h (json_of_league_config cfg)]\<rparr>)
       | Inl e \<Rightarrow> (Inl e, s)))
   \<and> (\<exists>w txs lines. length txs \<le> 1 \<and> length lines \<le> 1 \<and>
        snd (keeper_main h (Some StartRound) s) = s\<lparr>world := w, sent := sent s @ txs, printed := printed s @ lines\<rparr>)"
proof (rule conjI)
  show "keeper_main h (Some PrintLeagueConfig) s =
      (case load_league_config (host_env h) of
         Inr cfg \<Rightarrow> (Inr EXIT_SUCCESS, s\<lparr>printed := printed s @ [host_json_pretty h (json_of_league_config cfg)]\<rparr>)
       | Inl e \<Rightarrow> (Inl e, s))"
    by (simp add: keeper_main_def dump_json_def with_config_def print_line_def andThen_def ret_def split: sum.splits)
  show "\<exists>w txs lines. length txs \<le> 1 \<and> length lines \<le> 1 \<and>
        snd (keeper_main h (Some StartRound) s) = s\<lparr>world := w, sent := sent s @ txs, printed := printed s @ lines\<rparr>"
  proof (cases "load_config (host_sdk h) (host_keypair_file h) (host_env h) s")
    case (Pair res t)
    then have t: "t = s" using load_config_pure by (metis snd_conv)
    show ?thesis
    proof (cases res)
      case (Inl e)
      with Pair t show ?thesis
        by (intro exI [of _ "world s"] exI [of _ "[]"]) (simp add: keeper_main_def andThen_def)
    next
      case (Inr loaded)
      obtain config keypair where loaded: "loaded = (config, keypair)" by (cases loaded)
      obtain out w txs where run:
        "run_start_round_once (host_sdk h) (host_api h) (host_rpc h (solana_rpc_url config)) keypair (config_program_id config) s =
          (out, s\<lparr>world := w, sent := sent s @ txs\<rparr>)" "length txs \<le> 1" by (rule start_round_once_outcome)
      have "\<exists>lines. length lines \<le> 1 \<and> snd (start_round_once h config keypair s) =
          s\<lparr>world := w, sent := sent s @ txs, printed := printed s @ lines\<rparr>"
      proof -
        have no_lines: "s\<lparr>world := w, sent := x, printed := printed s @ []\<rparr> = s\<lparr>world := w, sent := x\<rparr>" for x by (cases s) simp
        consider (err) e where "out = Inl e" | (sub) sig where "out = Inr (Submitted sig)" | (skip) i where "out = Inr (Skipped i)"
          by (metis start_round_outcome.exhaust sum.exhaust)
        then show ?thesis
        proof cases
          case err
          then have "snd (start_round_once h config keypair s) = s\<lparr>world := w, sent := sent s @ txs\<rparr>"
            using run(1) by (cases e) (simp_all add: start_round_once_def attempt_def andThen_def ret_def)
          then show ?thesis by (intro exI [of _ "[]"]) (simp only: no_lines list.size le0 simp_thms)
        next
          case sub
          with run(1) show ?thesis
            by (intro exI [of _ "[''start_round submitted: '' @ sdk_bs58_encode (host_sdk h) sig]"])
              (simp add: start_round_once_def attempt_def andThen_def ret_def print_line_def)
        next
          case skip
          with run(1) show ?thesis
            by (intro exI [of _ "[''start_round skipped: round '' @ dec_u64 i @ '' already active'']"])
              (simp add: start_round_once_def attempt_def andThen_def ret_def print_line_def)
        qed
      qed
      with run(2) Pair t Inr loaded show ?thesis by (auto simp: keeper_main_def andThen_def)
    qed
  qed
qed

subsection \<open>Starting everything\<close>

definition startup_crons :: "environment \<Rightarrow> keeper_config \<Rightarrow> (cron \<times> u64) list" where
  "startup_crons env config =
     [(PublisherCron, point_root_interval_secs config), (RentalCron, rental_settle_interval_secs config),
      (SubscriptionCron, subscription_poll_interval_secs config), (GameLoopCron, game_loop_interval_secs config)]
     @ (if cranker_enabled env then [(CrankerLoop, game_loop_interval_secs config)] else [])"

definition league_crons :: "keeper_config \<Rightarrow> (cron \<times> u64) list" where
  "league_crons config =
     [(CapacityResetCron, capacity_reset_interval_secs config), (QualityScoreCron, quality_score_interval_secs config),
      (MilestoneProcessorCron, milestone_processor_interval_secs config), (AntiAbuseCron, anti_abuse_interval_secs config),
      (VisibilityTickCron, visibility_tick_interval_secs config), (LeaderboardCron, leaderboard_interval_secs config),
      (StakeWatcherCron, stake_watcher_interval_secs config), (RewardzPublisherCron, rewardz_publish_interval_secs config)]"

lemma run_crons_outcome:
  "run_crons env config s =
     (case load_league_config env of
        Inl e \<Rightarrow> (Inl e, s\<lparr>spawned := spawned s @ startup_crons env config\<rparr>)
      | Inr cfg \<Rightarrow> (Inr (), s\<lparr>spawned := spawned s @ startup_crons env config @ league_crons config\<rparr>))"
  by (simp add: run_crons_def spawn_league_def spawn_def start_cranker_loop_def with_config_def andThen_def ret_def
      startup_crons_def league_crons_def split: sum.splits)

text \<open>
  C38: the full mode needs a network. With its configuration, database and listener in order, the
  default command spawns every cron at its configured interval and then serves the API at the
  configured address, if the league's network is known. If it is not, the process panics with
  four or five crons spawned, none of the league's among them, and the API is not served. If the
  origins of the API are refused, it panics with every cron spawned.
\<close>

theorem full_mode_needs_a_network:
  assumes "fst (load_config (host_sdk h) (host_keypair_file h) (host_env h) s) = Inr (config, keypair)"
    and "host_connect h 10 (database_url config) (world s) = (Inr (), w)"
    and "host_bind h (api_listen_addr config) w = (Inr (), w')"
  shows "keeper_main h None s =
    (case load_league_config (host_env h) of
       Inr cfg \<Rightarrow>
         (case create_router (host_http h) (api_state config keypair) (points_cors_origins config) of
            Inr app \<Rightarrow> (Inr EXIT_SUCCESS, s\<lparr>world := w',
              spawned := spawned s @ startup_crons (host_env h) config @ league_crons config,
              serving := serving s @ [(api_listen_addr config, app)]\<rparr>)
          | Inl e \<Rightarrow> (Inl e, s\<lparr>world := w,
              spawned := spawned s @ startup_crons (host_env h) config @ league_crons config\<rparr>))
     | Inl e \<Rightarrow> (Inl (Panic ''Unknown SOLANA_NETWORK''), s\<lparr>world := w,
          spawned := spawned s @ startup_crons (host_env h) config\<rparr>))"
proof -
  have "load_config (host_sdk h) (host_keypair_file h) (host_env h) s = (Inr (config, keypair), s)"
    using assms(1) load_config_pure by (metis prod.collapse)
  with assms(2,3) show ?thesis
    by (cases "load_league_config (host_env h)")
      (simp_all add: keeper_main_def create_pool_def or_die_def or_fault_def call_def attempt_def andThen_def ret_def
        run_crons_outcome run_api_def load_league_config_fault split: sum.splits)
qed

definition sample_host :: "unit host" where
  "sample_host =
     \<lparr>host_sdk = text_sdk, host_api = sample_api, host_env = devnet_only ++ config_environment text_sdk ''id.json'' sample_keeper_config,
      host_keypair_file = [''id.json'' \<mapsto> [7]], host_rpc = (\<lambda>url. failing_rpc), host_connect = (\<lambda>n url w. (Inr (), w)),
      host_bind = (\<lambda>addr w. (Inr (), w)), host_http = sample_http_crates,
      host_json_pretty = (\<lambda>j. ''{}'')\<rparr>"

definition fresh_process :: "unit process" where
  "fresh_process = \<lparr>world = (), sent = [], db = empty_db, printed = [], spawned = [], serving = []\<rparr>"

theorem full_mode_needs_a_network_witness:
  "fst (keeper_main sample_host None fresh_process) = Inr EXIT_SUCCESS
   \<and> length (spawned (snd (keeper_main sample_host None fresh_process))) = 12"
proof -
  have "load_league_config (host_env sample_host) = Inr DEVNET"
    by (simp add: load_league_config_def sample_host_def devnet_only_def config_environment_def map_add_def)
  moreover have "\<not> cranker_enabled (host_env sample_host)"
    by (simp add: cranker_enabled_def sample_host_def devnet_only_def config_environment_def map_add_def)
  moreover have "fst (load_config (host_sdk sample_host) (host_keypair_file sample_host) (host_env sample_host) fresh_process) =
      Inr (sample_keeper_config, [7])"
    by (simp add: sample_host_def load_config_spelled_out)
  moreover have "host_connect sample_host 10 (database_url sample_keeper_config) (world fresh_process) = (Inr (), ())"
    "host_bind sample_host (api_listen_addr sample_keeper_config) () = (Inr (), ())" by (simp_all add: sample_host_def)
  moreover have "points_cors_origins sample_keeper_config = ''*''" by (simp add: sample_keeper_config_def)
  then obtain app where "create_router (host_http sample_host) (api_state sample_keeper_config [7])
      (points_cors_origins sample_keeper_config) = Inr app" by (simp add: create_router_def)
  ultimately show ?thesis
    using full_mode_needs_a_network [of sample_host fresh_process sample_keeper_config "[7]" "()" "()"]
    by (simp add: startup_crons_def league_crons_def fresh_process_def)
qed

end
