(* ===== verification/Interleaving.thy ===== *)
theory Interleaving
  imports Db League_Config
begin

section \<open>Programs among other sessions\<close>

text \<open>
  What a program does to the tables while other sessions write between its statements. A relation
  \<open>R\<close> on the tables is at once the rely and the guarantee: when whatever the other sessions do is
  in \<open>R\<close>, so is what the program does, statement after statement. The locale holds the calculus,
  one rule a construct of the programs; the theory \<open>Concurrency\<close> interprets it on the writes of
  the keeper.
\<close>

definition relies :: "(database \<Rightarrow> bool) \<Rightarrow> (database \<Rightarrow> database \<Rightarrow> bool) \<Rightarrow> 'w pg \<Rightarrow> bool" where
  \<comment> \<open>what other sessions do between two statements is in \<open>R\<close>\<close>
  "relies I R pg \<longleftrightarrow> (\<forall>w d. I d \<longrightarrow> R d (pg_others pg w d))"

definition guarantees ::
    "(database \<Rightarrow> bool) \<Rightarrow> (database \<Rightarrow> database \<Rightarrow> bool) \<Rightarrow> 'w pg \<Rightarrow> ('w app, 'a) prog \<Rightarrow> bool" where
  "guarantees I R pg m \<longleftrightarrow> (relies I R pg \<longrightarrow> (\<forall>s. I (db s) \<longrightarrow> R (db s) (db (snd (m s)))))"

lemma guaranteesD:
  "guarantees I R pg m \<Longrightarrow> relies I R pg \<Longrightarrow> I (db s) \<Longrightarrow> R (db s) (db (snd (m s)))"
  by (simp add: guarantees_def)

lemma guaranteesI:
  "(\<And>s. relies I R pg \<Longrightarrow> I (db s) \<Longrightarrow> R (db s) (db (snd (m s)))) \<Longrightarrow> guarantees I R pg m"
  by (simp add: guarantees_def)

definition leaves_tables :: "('w app, 'a) prog \<Rightarrow> bool" where
  \<comment> \<open>a program that writes no table and lets no other session in\<close>
  "leaves_tables m \<longleftrightarrow> (\<forall>s. db (snd (m s)) = db s)"

named_theorems leaves_intros \<open>programs that leave the tables alone\<close>
named_theorems guarantee_intros \<open>the rely-guarantee rules of the programs\<close>

lemma leaves_basic [leaves_intros]:
  "leaves_tables (ret x)" "leaves_tables (throw e)" "leaves_tables (panic e)"
  "leaves_tables (or_throw e r)" "leaves_tables (or_panic e r)" "leaves_tables (call f)"
  "leaves_tables (submit rpc tx)" "leaves_tables (round_trip pg)" "leaves_tables (commit pg)"
  by (simp_all add: leaves_tables_def prog_simps call_def submit_def round_trip_def commit_def
      split: option.splits sum.splits prod.splits)

lemma leaves_andThen [leaves_intros]:
  "leaves_tables m \<Longrightarrow> (\<And>x. leaves_tables (k x)) \<Longrightarrow> leaves_tables (andThen m k)"
  by (simp add: leaves_tables_def andThen_def split: prod.splits sum.splits) (metis snd_conv)

lemma leaves_attempt [leaves_intros]: "leaves_tables m \<Longrightarrow> leaves_tables (attempt m)"
  by (simp add: leaves_tables_def)

lemma leaves_cases [leaves_intros]:
  "leaves_tables a \<Longrightarrow> leaves_tables b \<Longrightarrow> leaves_tables (if c then a else b)"
  "(\<And>x. leaves_tables (f x)) \<Longrightarrow> (\<And>y. leaves_tables (g y)) \<Longrightarrow> leaves_tables (case z of Inl x \<Rightarrow> f x | Inr y \<Rightarrow> g y)"
  "leaves_tables a \<Longrightarrow> (\<And>x. leaves_tables (f x)) \<Longrightarrow> leaves_tables (case y of None \<Rightarrow> a | Some x \<Rightarrow> f x)"
  by (simp_all split: sum.splits option.splits)

lemma leaves_turns [leaves_intros]: "leaves_tables m \<Longrightarrow> leaves_tables (turns m n)"
  by (induction n) (auto intro: leaves_intros)

locale rely_guarantee =
  fixes I :: "database \<Rightarrow> bool" and R :: "database \<Rightarrow> database \<Rightarrow> bool"
  assumes unchanged [simp]: "R d d"
    and chained: "R d e \<Longrightarrow> R e f \<Longrightarrow> R d f"
    and stable: "R d e \<Longrightarrow> I d \<Longrightarrow> I e"
begin

lemma guarantees_leaves: "leaves_tables m \<Longrightarrow> guarantees I R pg m"
  by (simp add: guarantees_def leaves_tables_def unchanged)

lemma guarantees_basic [guarantee_intros]:
  "guarantees I R pg (ret x)" "guarantees I R pg (throw e)" "guarantees I R pg (panic e)"
  "guarantees I R pg (or_throw e r)" "guarantees I R pg (or_panic e r)" "guarantees I R pg (call f)"
  "guarantees I R pg (submit rpc tx)" "guarantees I R pg (round_trip pg')"
  by (rule guarantees_leaves, rule leaves_basic)+

lemma guarantees_andThen_value:
  \<comment> \<open>what the first program answers may be used for the second\<close>
  fixes pg :: "'w pg"
  assumes "guarantees I R pg m" and "\<And>x. Q x \<Longrightarrow> guarantees I R pg (k x)"
    and "\<And>s x t. relies I R pg \<Longrightarrow> I (db s) \<Longrightarrow> m s = (Inr x, t) \<Longrightarrow> Q x"
  shows "guarantees I R pg (andThen m k)"
proof (rule guaranteesI)
  fix s :: "'w app"
  assume rely: "relies I R pg" and start: "I (db s)"
  obtain res t where m: "m s = (res, t)" by (cases "m s")
  have first: "R (db s) (db t)" using guaranteesD [OF assms(1) rely start] m by simp
  show "R (db s) (db (snd (andThen m k s)))"
  proof (cases res)
    case (Inl e)
    with m first show ?thesis by (simp add: andThen_def)
  next
    case (Inr x)
    with m have "Q x" using assms(3) [OF rely start] by simp
    then have "guarantees I R pg (k x)" by (rule assms(2))
    then have "R (db t) (db (snd (k x t)))" using rely stable [OF first start] by (rule guaranteesD)
    with first have "R (db s) (db (snd (k x t)))" by (rule chained)
    with m Inr show ?thesis by (simp add: andThen_def)
  qed
qed

lemma guarantees_andThen [guarantee_intros]:
  "guarantees I R pg m \<Longrightarrow> (\<And>x. guarantees I R pg (k x)) \<Longrightarrow> guarantees I R pg (andThen m k)"
  by (rule guarantees_andThen_value [where Q = "\<lambda>_. True"]) (assumption | rule TrueI)+

lemma guarantees_attempt [guarantee_intros]: "guarantees I R pg m \<Longrightarrow> guarantees I R pg (attempt m)"
  by (simp add: guarantees_def)

lemma guarantees_cases [guarantee_intros]:
  "(c \<Longrightarrow> guarantees I R pg a) \<Longrightarrow> (\<not> c \<Longrightarrow> guarantees I R pg b) \<Longrightarrow> guarantees I R pg (if c then a else b)"
  "(\<And>x. guarantees I R pg (f x)) \<Longrightarrow> (\<And>y. guarantees I R pg (g y)) \<Longrightarrow>
   guarantees I R pg (case z of Inl x \<Rightarrow> f x | Inr y \<Rightarrow> g y)"
  "guarantees I R pg a \<Longrightarrow> (\<And>x. guarantees I R pg (h x)) \<Longrightarrow>
   guarantees I R pg (case y of None \<Rightarrow> a | Some x \<Rightarrow> h x)"
  "(\<And>x y. guarantees I R pg (q x y)) \<Longrightarrow> guarantees I R pg (case v of (x, y) \<Rightarrow> q x y)"
  by (simp_all split: sum.splits option.splits prod.splits)

lemma guarantees_with_config [guarantee_intros]:
  "(\<And>cfg. load_league_config env = Inr cfg \<Longrightarrow> guarantees I R pg (k cfg)) \<Longrightarrow> guarantees I R pg (with_config env k)"
  unfolding with_config_def guarantees_def by (auto simp: unchanged split: sum.splits)

lemma guarantees_turns [guarantee_intros]: "guarantees I R pg m \<Longrightarrow> guarantees I R pg (turns m n)"
  by (induction n) (auto intro!: guarantee_intros)

lemma guarantees_league_cron [guarantee_intros]:
  "(\<And>cfg. load_league_config env = Inr cfg \<Longrightarrow> guarantees I R pg (tick cfg)) \<Longrightarrow> guarantees I R pg (league_cron env tick n)"
  unfolding league_cron_def by (intro guarantee_intros)

lemma guarantees_run_statement:
  "(\<And>d x e. I d \<Longrightarrow> f now d = Inr (x, e) \<Longrightarrow> R d e) \<Longrightarrow> guarantees I R pg (run_statement now f)"
  unfolding guarantees_def run_statement_def by (auto simp: unchanged split: sum.splits)

lemma guarantees_see_others: "guarantees I R pg (see_others pg)"
  unfolding guarantees_def relies_def see_others_def by simp

lemma guarantees_execute:
  "(\<And>now d x e. I d \<Longrightarrow> f now d = Inr (x, e) \<Longrightarrow> R d e) \<Longrightarrow> guarantees I R pg (execute pg f)"
  unfolding execute_def by (intro guarantee_intros guarantees_see_others guarantees_run_statement)

lemma guarantees_execute_in:
  "(\<And>d x e. I d \<Longrightarrow> f now d = Inr (x, e) \<Longrightarrow> R d e) \<Longrightarrow> guarantees I R pg (execute_in pg now f)"
  unfolding execute_in_def by (intro guarantee_intros guarantees_run_statement)

lemma guarantees_begin_tx: "guarantees I R pg (begin_tx pg)"
  unfolding begin_tx_def
  by (intro guarantee_intros guarantees_see_others guarantees_leaves) (simp add: leaves_tables_def)

lemma guarantees_rollback:
  \<comment> \<open>a program over the tables of \<open>begin_tx\<close> that may put them back\<close>
  fixes pg :: "'w pg"
  assumes "\<And>now d s. relies I R pg \<Longrightarrow> I d \<Longrightarrow> d = db s \<Longrightarrow> R d (db (snd (k (now, d) s)))"
  shows "guarantees I R pg (andThen (begin_tx pg) k)"
proof (rule guaranteesI)
  fix s :: "'w app"
  assume rely: "relies I R pg" and start: "I (db s)"
  obtain res t where b: "begin_tx pg s = (res, t)" by (cases "begin_tx pg s")
  have first: "R (db s) (db t)" using guaranteesD [OF guarantees_begin_tx rely start] b by simp
  show "R (db s) (db (snd (andThen (begin_tx pg) k s)))"
  proof (cases res)
    case (Inl e)
    with b first show ?thesis by (simp add: andThen_def)
  next
    case (Inr x)
    with b obtain now where x: "x = (now, db t)"
      by (auto simp: begin_tx_def andThen_def round_trip_def see_others_def split: prod.splits sum.splits option.splits)
    have "R (db t) (db (snd (k (now, db t) t)))" using rely stable [OF first start] refl by (rule assms)
    with first have "R (db s) (db (snd (k (now, db t) t)))" by (rule chained)
    with b Inr x show ?thesis by (simp add: andThen_def)
  qed
qed

lemma guarantees_transaction [guarantee_intros]:
  fixes pg :: "'w pg"
  assumes "\<And>now. guarantees I R pg (body now)"
  shows "guarantees I R pg (transaction pg body)"
  unfolding transaction_def
proof (rule guarantees_rollback, unfold prod.case)
  fix now d and s :: "'w app"
  assume rely: "relies I R pg" and start: "I d" "d = db s"
  let ?m = "andThen (body now) (\<lambda>x. andThen (commit pg) (\<lambda>_. ret x))"
  have "guarantees I R pg ?m"
    unfolding commit_def by (intro guarantee_intros assms)
  then have "R d (db (snd (?m s)))" using rely start by (auto dest: guaranteesD)
  then show "R d (db (snd (or_rollback d ?m s)))"
    by (auto simp: or_rollback_def unchanged split: prod.splits sum.splits)
qed

end

end
