(* ===== verification/Concurrency.thy ===== *)
theory Concurrency
  imports Interleaving Keeper_Main Capacity Quality_Score Milestone_Processor Anti_Abuse Leaderboard Subscriptions Rental
begin

section \<open>The tasks of the keeper among each other\<close>

text \<open>
  The crons of \<^verbatim>\<open>run_crons\<close> and the handlers of the API share the pool and nothing else, so
  each of them sees the tables change between two of its statements. This theory closes the
  system: the writes of the keeper are a step relation on the tables, with a rule for each statement
  that writes, and whatever those steps and the other sessions keep, every task keeps. Since the
  other sessions may be tasks of the keeper, this covers every interleaving of any number of
  keepers, statement by statement; a transaction is one step of the history, as in the theory
  \<open>Database\<close>.
\<close>

subsection \<open>The tasks\<close>

record 'w deployment =
  dp_profile :: profile
  dp_env :: environment
  dp_sdk :: sdk
  dp_api :: mvp_api
  dp_rpc :: "'w rpc"
  dp_pg :: "'w pg"
  dp_http :: "'w http"
  dp_clock :: "'w \<Rightarrow> int"
  dp_keypair :: pubkey
  dp_config :: keeper_config

definition ignoring :: "('s, 'a) prog \<Rightarrow> ('s, unit) prog" where
  "ignoring m = andThen m (\<lambda>_. ret ())"

definition cron_task :: "'w deployment \<Rightarrow> cron \<Rightarrow> nat \<Rightarrow> ('w app, unit) prog" where
  \<comment> \<open>\<open>n\<close> turns of the task that \<^verbatim>\<open>run_crons\<close> spawns, with the arguments it passes\<close>
  "cron_task dp c n =
     (let p = dp_profile dp; env = dp_env dp; sdk = dp_sdk dp; api = dp_api dp; r = dp_rpc dp; pg = dp_pg dp;
          signer = dp_keypair dp; program_id = config_program_id (dp_config dp) in
      case c of
        PublisherCron \<Rightarrow> ignoring (publisher_cron p sdk r pg signer program_id n)
      | RentalCron \<Rightarrow> start_rental_cron sdk r signer program_id n
      | SubscriptionCron \<Rightarrow>
          start_subscription_cron p pg (dp_http dp) (api_base_url (dp_config dp)) (internal_api_key (dp_config dp)) n
      | GameLoopCron \<Rightarrow> turns (tick_game_loop sdk api r signer program_id) n
      | CrankerLoop \<Rightarrow> turns (ret ()) n
      | CapacityResetCron \<Rightarrow> start_capacity_reset_cron env pg n
      | QualityScoreCron \<Rightarrow> start_quality_score_cron env pg n
      | MilestoneProcessorCron \<Rightarrow> start_milestone_processor_cron env pg n
      | AntiAbuseCron \<Rightarrow> start_anti_abuse_cron env pg n
      | VisibilityTickCron \<Rightarrow> start_visibility_tick_cron env pg n
      | LeaderboardCron \<Rightarrow> start_leaderboard_cron env pg n
      | StakeWatcherCron \<Rightarrow> start_stake_watcher_cron env sdk r pg program_id n
      | RewardzPublisherCron \<Rightarrow> ignoring (rewardz_turns p env sdk api r pg signer program_id n 0))"

datatype api_request =
    PostSignReceipt sign_receipt_request
  | PostBootstrapAward bootstrap_award_request
  | GetRewardzProof string
  | GetHealthz

definition api_task :: "'w deployment \<Rightarrow> api_request \<Rightarrow> ('w app, unit) prog" where
  \<comment> \<open>the handler of a request, its answer left out\<close>
  "api_task dp req =
     (let p = dp_profile dp; sdk = dp_sdk dp; r = dp_rpc dp; pg = dp_pg dp; clock = dp_clock dp;
          state = api_state (dp_config dp) (dp_keypair dp) in
      case req of
        PostSignReceipt q \<Rightarrow> ignoring (sign_receipt p sdk r pg clock state q)
      | PostBootstrapAward q \<Rightarrow> ignoring (bootstrap_award p sdk r pg clock state q)
      | GetRewardzProof a \<Rightarrow> ignoring (get_rewardz_proof p sdk (dp_api dp) r pg clock state a)
      | GetHealthz \<Rightarrow> ret ())"

datatype task = Cron cron nat | Request api_request

definition run_task :: "'w deployment \<Rightarrow> task \<Rightarrow> ('w app, unit) prog" where
  "run_task dp t = (case t of Cron c n \<Rightarrow> cron_task dp c n | Request q \<Rightarrow> api_task dp q)"

subsection \<open>The writes of the keeper\<close>

inductive keeper_write :: "'w pg \<Rightarrow> (int \<Rightarrow> bool) \<Rightarrow> database \<Rightarrow> database \<Rightarrow> bool" for pg payable where
  reset: "reset_statement baseline cadence now d = Inr (n, e) \<Longrightarrow> keeper_write pg payable d e"
| mirror: "mirror_stake i stake now d = Inr (x, e) \<Longrightarrow> keeper_write pg payable d e"
| unlock: "unlock_capacity i capacity now d = Inr (x, e) \<Longrightarrow> keeper_write pg payable d e"
| timeline: "insert_event ev now d = Inr (x, e) \<Longrightarrow> keeper_write pg payable d e"
| show_or_hide: "set_visibility i v now d = Inr (x, e) \<Longrightarrow> keeper_write pg payable d e"
| score: "set_quality_score pg q i now d = Inr (x, e) \<Longrightarrow> keeper_write pg payable d e"
| award:
    "award_statement pg i amount reason predicate now d = Inr (n, e) \<Longrightarrow> payable amount \<Longrightarrow> keeper_write pg payable d e"
| flag_raised: "raise_flags kind crosses sev evidence now d = Inr (n, e) \<Longrightarrow> keeper_write pg payable d e"
| ranking: "snapshot_statement pg w top_n prize now d = Inr (n, e) \<Longrightarrow> keeper_write pg payable d e"
| bonus: "bonus_statement pg amount now d = Inr (n, e) \<Longrightarrow> 0 \<le> amount \<Longrightarrow> keeper_write pg payable d e"
| move_on: "advance_statement st lo mu iv i now d = Inr (x, e) \<Longrightarrow> keeper_write pg payable d e"
| drop_proofs: "keeper_write pg payable d (d\<lparr>merkle_proofs := filter keep (merkle_proofs d)\<rparr>)"
| save_proof: "keeper_write pg payable d (d\<lparr>merkle_proofs := upsert same_epoch_authority m (merkle_proofs d)\<rparr>)"
| root_published: "insert_root_epoch row now d = Inr (x, e) \<Longrightarrow> keeper_write pg payable d e"
| stamp: "stamp_earnings epoch authorities cutoff now d = Inr (n, e) \<Longrightarrow> keeper_write pg payable d e"
| new_user: "insert_user wallet now d = Inr (n, e) \<Longrightarrow> keeper_write pg payable d e"
| new_balance: "insert_balance wallet now d = Inr (n, e) \<Longrightarrow> keeper_write pg payable d e"

lemmas write_statement_defs =
  reset_statement_def mirror_stake_def unlock_capacity_def insert_event_def set_visibility_def
  set_quality_score_def award_statement_def raise_flags_def snapshot_statement_def bonus_statement_def
  advance_statement_def insert_root_epoch_def stamp_earnings_def insert_user_def insert_balance_def
  update_protocol_def

lemma keeper_write_keeps_catalogue:
  "keeper_write pg payable d e \<Longrightarrow> milestone_rewards e = milestone_rewards d \<and> wallet_weights e = wallet_weights d
     \<and> milestones e = milestones d \<and> point_events e = point_events d"
  by (induction rule: keeper_write.induct)
    (auto simp: write_statement_defs Let_def split: if_splits sum.splits prod.splits)

text \<open>
  The interface of a task: whatever relation the writes of the keeper are in, the task stays in
  it as long as the other sessions do. The amounts that the milestone processor pays are those
  that it reads from the catalogue, so a bound on the catalogue bounds them.
\<close>

definition payable_list :: "(int \<Rightarrow> bool) \<Rightarrow> (string \<times> int \<times> int) list \<Rightarrow> bool" where
  "payable_list payable rewards \<longleftrightarrow> (\<forall>(slug, milestone_id, amount) \<in> set rewards. payable amount)"

locale keeper_session = rely_guarantee I R for I R +
  fixes pg :: "'w pg" and payable :: "int \<Rightarrow> bool"
  assumes in_relation: "I d \<Longrightarrow> keeper_write pg payable d e \<Longrightarrow> R d e"
    and catalogue_payable: "I d \<Longrightarrow> mr \<in> set (milestone_rewards d) \<Longrightarrow> payable (mr_rewardz_amount mr)"
begin

abbreviation keeper_only :: "('w app, 'a) prog \<Rightarrow> bool" where
  "keeper_only m \<equiv> guarantees I R pg m"

lemma keeper_only_execute:
  "(\<And>now d x e. I d \<Longrightarrow> f now d = Inr (x, e) \<Longrightarrow> keeper_write pg payable d e) \<Longrightarrow> keeper_only (execute pg f)"
  by (rule guarantees_execute) (blast intro: in_relation)

lemma keeper_only_execute_in:
  "(\<And>d x e. I d \<Longrightarrow> f now d = Inr (x, e) \<Longrightarrow> keeper_write pg payable d e) \<Longrightarrow> keeper_only (execute_in pg now f)"
  by (rule guarantees_execute_in) (blast intro: in_relation)

lemma keeper_only_reads [guarantee_intros]:
  "keeper_only (execute pg (\<lambda>now d. Inr (h now d, d)))"
  "keeper_only (execute pg (\<lambda>now d. Inl e))"
  "keeper_only (execute pg (\<lambda>now d. map_sum id (\<lambda>x. (x, d)) (g now d)))"
  by (rule guarantees_execute, auto simp: map_sum_def split: sum.splits)+

lemma keeper_only_clock [guarantee_intros]: "keeper_only (read_clock clock)"
  by (rule guarantees_leaves) (simp add: leaves_tables_def read_clock_def)

lemma keeper_only_or_fault [guarantee_intros]: "keeper_only (or_fault x)"
  by (rule guarantees_leaves) (simp add: leaves_tables_def or_fault_def split: sum.splits)

lemma keeper_only_ignoring [guarantee_intros]: "keeper_only m \<Longrightarrow> keeper_only (ignoring m)"
  unfolding ignoring_def by (intro guarantee_intros)

lemma keeper_only_send [guarantee_intros]: "keeper_only (send_instruction r signer ix)"
  unfolding send_instruction_def by (intro guarantee_intros)

subsubsection \<open>The crons of the league\<close>

lemma keeper_only_capacity_reset [guarantee_intros]: "keeper_only (start_capacity_reset_cron env pg n)"
proof -
  have reset: "keeper_only (reset_capacities env pg cfg)" if "override_secs env = Inr secs" for secs cfg
    unfolding reset_capacities_eq [OF that] by (rule keeper_only_execute) (rule keeper_write.reset)
  show ?thesis
    unfolding start_capacity_reset_cron_def
  proof (rule guarantees_with_config)
    fix cfg
    show "keeper_only (\<lambda>s. case override_secs env of Inl e \<Rightarrow> (Inl e, s)
        | Inr secs \<Rightarrow> turns (reset_capacities env pg cfg) n s)"
    proof (cases "override_secs env")
      case (Inl e)
      then show ?thesis by (simp add: guarantees_def)
    next
      case (Inr secs)
      have "keeper_only (turns (reset_capacities env pg cfg) n)"
        by (rule guarantees_turns) (rule reset [OF Inr])
      with Inr show ?thesis by simp
    qed
  qed
qed

lemma keeper_only_quality_score [guarantee_intros]: "keeper_only (start_quality_score_cron env pg n)"
proof -
  have reads: "keeper_only (execute pg (count_unique pg i w))" "keeper_only (execute pg (count_repeats pg i w g))" for i w g
    by (rule guarantees_execute, auto simp: count_unique_def count_repeats_def split: sum.splits)+
  have scores: "keeper_only (execute pg (set_quality_score pg q i))" for q i
    by (rule keeper_only_execute) (rule keeper_write.score)
  have "keeper_only (score_one pg cfg i)" for cfg i
    unfolding score_one_def compute_engagement_def compute_social_def Let_def
    by (intro guarantee_intros reads scores)
  then have "keeper_only (score_each pg cfg ids k)" for cfg ids k
    by (induction ids arbitrary: k) (auto intro!: guarantee_intros)
  then show ?thesis
    unfolding start_quality_score_cron_def quality_tick_def by (intro guarantee_intros)
qed

lemma keeper_only_anti_abuse [guarantee_intros]: "keeper_only (start_anti_abuse_cron env pg n)"
proof -
  have "keeper_only (detect_repetitive_self_use pg)" "keeper_only (detect_unused_issuance pg cfg)"
    "keeper_only (detect_daily_cap_self pg cfg)" for cfg
    unfolding detect_repetitive_self_use_def detect_unused_issuance_def detect_daily_cap_self_def
      repetitive_self_use_statement_def [abs_def] unused_issuance_statement_def [abs_def] daily_cap_statement_def [abs_def]
    by (rule keeper_only_execute, auto split: sum.splits intro: keeper_write.flag_raised)+
  then show ?thesis
    unfolding start_anti_abuse_cron_def anti_abuse_tick_def counted_def by (intro guarantee_intros)
qed

lemma keeper_only_visibility [guarantee_intros]: "keeper_only (start_visibility_tick_cron env pg n)"
proof -
  have "keeper_only (execute_in pg now (set_visibility i v))" "keeper_only (execute_in pg now (insert_event ev))" for now i v ev
    by (rule keeper_only_execute_in, (erule keeper_write.show_or_hide | erule keeper_write.timeline))+
  then have one: "keeper_only (apply_transition pg snap v)" for snap v
    unfolding apply_transition_def by (intro guarantee_intros)
  have each: "keeper_only (transition_each pg cfg snaps k)" for cfg snaps k
  proof (induction snaps arbitrary: k)
    case (Cons snap snaps)
    then show ?case unfolding transition_each.simps Let_def by (intro guarantee_intros one)
  qed (auto intro: guarantee_intros)
  show ?thesis
    unfolding start_visibility_tick_cron_def visibility_tick_def load_snapshots_def Let_def
    by (intro guarantee_intros each)
qed

lemma preset_bonus:
  "load_league_config env = Inr cfg \<Longrightarrow> 0 \<le> u64_as_i64 (lc_leaderboard_bonus_rewardz cfg)"
  by (drule load_league_config_cases) (auto simp: DEVNET_def MAINNET_def u64_as_i64_id)

lemma keeper_only_leaderboard [guarantee_intros]: "keeper_only (start_leaderboard_cron env pg n)"
proof -
  have "keeper_only (execute pg (snapshot_statement pg w top_n b))" for w top_n b
    by (rule keeper_only_execute) (rule keeper_write.ranking)
  moreover have "keeper_only (execute pg (bonus_statement pg (u64_as_i64 (lc_leaderboard_bonus_rewardz cfg))))"
    if "load_league_config env = Inr cfg" for cfg
    by (rule keeper_only_execute) (erule keeper_write.bonus, rule preset_bonus [OF that])
  ultimately show ?thesis
    unfolding start_leaderboard_cron_def leaderboard_tick_def write_snapshot_and_bonuses_def Let_def
    by (intro guarantee_intros) simp_all
qed

lemma rewards_payable:
  assumes "I (db s)" and "relies I R pg" and "load_milestone_rewards pg net s = (Inr rewards, t)"
  shows "payable_list payable rewards"
proof -
  obtain w where rewards: "rewards = map (\<lambda>(m, mr). (m_slug m, m_id m, mr_rewardz_amount mr))
      (filter (\<lambda>(m, mr). mr_milestone_id mr = m_id m \<and> mr_network mr = net)
        (List.product (milestones (pg_others pg w (db s))) (milestone_rewards (pg_others pg w (db s)))))"
    using assms(3) by (auto simp: load_milestone_rewards_def execute_def andThen_def round_trip_def see_others_def
        run_statement_def split: prod.splits option.splits)
  have "R (db s) (pg_others pg w (db s))" using assms(1,2) by (simp add: relies_def)
  then have "I (pg_others pg w (db s))" using assms(1) stable by blast
  then show ?thesis by (auto simp: rewards payable_list_def catalogue_payable)
qed

lemma keeper_only_milestones [guarantee_intros]: "keeper_only (start_milestone_processor_cron env pg n)"
proof -
  have one: "keeper_only (process_slug pg cfg slug i amount)"
    if cfg: "load_league_config env = Inr cfg" and amount: "payable amount" for cfg slug i amount
  proof (rule process_slug_rule [OF load_league_config_cases [OF cfg], of pg slug i amount])
    assume "process_slug pg cfg slug i amount = ret 0"
    then show ?thesis by (simp add: guarantee_intros)
  next
    assume run: "process_slug pg cfg slug i amount =
        execute pg (award_statement pg i amount (''milestone:'' @ slug) (milestone_rule cfg slug))"
    show ?thesis unfolding run by (rule keeper_only_execute) (erule keeper_write.award, rule amount)
  qed
  have each: "payable_list payable rewards \<Longrightarrow> keeper_only (process_each pg cfg rewards k)"
    if "load_league_config env = Inr cfg" for cfg rewards k
  proof (induction rewards arbitrary: k)
    case Nil
    show ?case by (simp add: guarantee_intros)
  next
    case (Cons r rewards)
    obtain slug i amount where r: "r = (slug, i, amount)" by (cases r)
    show ?case
      unfolding r process_each.simps
      using Cons r by (intro guarantee_intros one [OF that] Cons.IH) (auto simp: payable_list_def)
  qed
  have load: "keeper_only (load_milestone_rewards pg net)" for net
    unfolding load_milestone_rewards_def by (rule guarantee_intros)
  have "keeper_only (milestone_tick pg cfg)" if "load_league_config env = Inr cfg" for cfg
    unfolding milestone_tick_def
    by (rule guarantees_andThen_value [where Q = "payable_list payable", OF load each [OF that]]) (auto dest: rewards_payable)
  then show ?thesis unfolding start_milestone_processor_cron_def by (intro guarantee_intros)
qed

lemma keeper_only_stake_watcher [guarantee_intros]: "keeper_only (start_stake_watcher_cron env sdk r pg program_id n)"
proof -
  have "keeper_only (execute_in pg now (mirror_stake i n))" "keeper_only (execute_in pg now (unlock_capacity i n))"
    "keeper_only (execute_in pg now (insert_event ev))" for now i n ev
    by (rule keeper_only_execute_in, (erule keeper_write.mirror | erule keeper_write.unlock | erule keeper_write.timeline))+
  then have apply_one: "keeper_only (apply_sample pg cfg i stake prev already)" for cfg i stake prev already
    unfolding apply_sample_def Let_def by (intro guarantee_intros)
  have read_one: "keeper_only (read_active_stake sdk r program_id authority)" for authority
    unfolding read_active_stake_def by (intro guarantee_intros)
  have each: "keeper_only (sample_each sdk r pg cfg program_id protos counts)" for cfg protos counts
  proof (induction protos arbitrary: counts)
    case Nil
    show ?case by (simp add: guarantee_intros)
  next
    case (Cons proto protos)
    obtain a b where c: "counts = (a, b)" by (cases counts)
    show ?case unfolding c sample_each.simps by (intro guarantee_intros read_one apply_one Cons.IH)
  qed
  show ?thesis
    unfolding start_stake_watcher_cron_def stake_tick_def load_protocols_def by (intro guarantee_intros each)
qed

subsubsection \<open>The publishers and the subscriptions\<close>

lemma keeper_only_publisher [guarantee_intros]: "keeper_only (publisher_cron p sdk r pg signer program_id n)"
proof -
  have drop: "keeper_only (execute_in pg now (\<lambda>_ d. Inr ((), d\<lparr>merkle_proofs := filter keep (merkle_proofs d)\<rparr>)))"
    for now keep by (rule keeper_only_execute_in) (auto intro: keeper_write.drop_proofs)
  have save: "keeper_only (execute_in pg now (\<lambda>_ d. Inr ((), d\<lparr>merkle_proofs :=
      upsert same_epoch_authority m (merkle_proofs d)\<rparr>)))"
    for now m by (rule keeper_only_execute_in) (auto intro: keeper_write.save_proof)
  have each: "keeper_only (save_each pg now epoch root_hex proofs)" for now epoch root_hex proofs
  proof (induction proofs)
    case Nil
    show ?case by (simp add: guarantee_intros)
  next
    case (Cons x proofs)
    obtain a n h where x: "x = (a, n, h)" by (cases x)
    show ?case unfolding x save_each.simps by (intro guarantee_intros save Cons.IH)
  qed
  have load: "keeper_only (load_current_epoch sdk r program_id)"
    unfolding load_current_epoch_def by (intro guarantee_intros)
  have publish: "keeper_only (publish_root sdk r pg signer program_id epoch)" for epoch
    unfolding publish_root_def get_users_with_points_def save_merkle_proofs_def Let_def
    by (intro guarantee_intros drop each)
  have "keeper_only (publisher_turns p sdk r pg signer program_id n epoch)" for epoch
  proof (induction n arbitrary: epoch)
    case (Suc n)
    show ?case unfolding publisher_turns.simps by (intro guarantee_intros publish Suc.IH)
  qed (simp add: guarantee_intros)
  then show ?thesis unfolding publisher_cron_def by (intro guarantee_intros load)
qed

lemma keeper_only_earnings [guarantee_intros]: "keeper_only (get_rewardz_earnings_grouped pg)"
  unfolding get_rewardz_earnings_grouped_def by (intro guarantee_intros)

lemma keeper_only_publish_rewardz [guarantee_intros]:
  "keeper_only (publish_rewardz_root p env sdk api r pg signer program_id epoch)"
proof -
  have "keeper_only (execute_in pg now (insert_root_epoch row))"
    "keeper_only (execute_in pg now (stamp_earnings k authorities cutoff))" for now row k authorities cutoff
    by (rule keeper_only_execute_in, (erule keeper_write.root_published | erule keeper_write.stamp))+
  then show ?thesis
    unfolding publish_rewardz_root_def submit_and_record_def record_rewardz_root_publish_def read_on_chain_deny_list_def Let_def
    by (intro guarantee_intros)
qed

lemma keeper_only_rewardz_publisher [guarantee_intros]:
  "keeper_only (rewardz_turns p env sdk api r pg signer program_id n known)"
proof (induction n arbitrary: known)
  case (Suc n)
  have "keeper_only (rewardz_turn p env sdk api r pg signer program_id known)" for known
    unfolding rewardz_turn_def load_rewardz_epoch_def Let_def by (intro guarantee_intros)
  with Suc show ?case unfolding rewardz_turns.simps by (intro guarantee_intros)
qed (simp add: guarantee_intros)

lemma keeper_only_subscriptions [guarantee_intros]:
  "keeper_only (start_subscription_cron p pg post base_url key n)"
proof -
  have advance: "keeper_only (execute pg (advance_statement st lo mu iv i))" for st lo mu iv i
    by (rule keeper_only_execute) (erule keeper_write.move_on)
  have one: "keeper_only (execute_subscription p pg post base_url key sub)" for sub
    unfolding execute_subscription_def Let_def by (intro guarantee_intros advance)
  have each: "keeper_only (execute_each p pg post base_url key subs)" for subs
  proof (induction subs)
    case (Cons sub subs)
    show ?case unfolding execute_each.simps by (intro guarantee_intros one Cons.IH)
  qed (simp add: guarantee_intros)
  have "keeper_only (execute pg due_statement)"
    by (rule guarantees_execute) (auto simp: due_statement_def)
  then show ?thesis
    unfolding start_subscription_cron_def poll_subscriptions_def by (intro guarantee_intros each)
qed

subsubsection \<open>The crons of the chain and the handlers\<close>

lemma keeper_only_rental [guarantee_intros]: "keeper_only (start_rental_cron sdk r signer program_id n)"
proof -
  have each: "keeper_only (settle_each sdk r signer program_id pdas counts)" for pdas counts
  proof (induction pdas arbitrary: counts)
    case (Cons pda pdas)
    obtain a b where c: "counts = (a, b)" by (cases counts)
    show ?case
      unfolding c settle_each.simps settle_single_rental_def by (intro guarantee_intros Cons.IH)
  qed (simp add: guarantee_intros)
  show ?thesis unfolding start_rental_cron_def settle_rentals_def by (intro guarantee_intros each)
qed

lemma keeper_only_game_loop [guarantee_intros]:
  "keeper_only (turns (tick_game_loop sdk api r signer program_id) n)"
  unfolding tick_game_loop_def load_game_config_def load_game_round_def start_round_def settle_round_def
    load_deployments_def submit_start_round_def Let_def
  by (intro guarantee_intros)

lemma keeper_only_handlers [guarantee_intros]:
  "(\<And>y. keeper_only (k y)) \<Longrightarrow> keeper_only (require status msg x k)"
  "keeper_only m \<Longrightarrow> (\<And>z. keeper_only (f z)) \<Longrightarrow> keeper_only (or_reject status msg m f)"
  "keeper_only (reject status msg)"
  "(\<And>a. keeper_only (g a)) \<Longrightarrow> keeper_only (verify_wallet sdk wallet_text message signature_text g)"
  "keeper_only h \<Longrightarrow> keeper_only (check_fresh p now timestamp ttl h)"
  unfolding require_def or_reject_def verify_wallet_def check_fresh_def reject_def
  by (intro guarantee_intros; assumption)+

lemma keeper_only_award_points [guarantee_intros]: "keeper_only (award_points pg wallet)"
proof -
  have "keeper_only (execute_in pg now (insert_user wallet))" "keeper_only (execute_in pg now (insert_balance wallet))"
    for now by (rule keeper_only_execute_in, (erule keeper_write.new_user | erule keeper_write.new_balance))+
  then have body: "keeper_only (or_reject 500 ''Database error'' (execute_in pg now (insert_user wallet)) (\<lambda>rows_affected.
       if rows_affected = 0 then
         andThen (attempt (round_trip pg)) (\<lambda>_.
         reject 409 ''User already exists (bootstrap already applied or has points)'')
       else
         or_reject 500 ''Database error'' (execute_in pg now (insert_balance wallet)) (\<lambda>_.
         or_reject 500 ''Database error'' (commit pg) (\<lambda>_.
         ret (Inr ''Awarded 100 bootstrap points'')))))" (is "keeper_only (?body now)") for now
    unfolding commit_def by (intro guarantee_intros)
  let ?k = "\<lambda>r. case r of Inl e \<Rightarrow> reject 500 ''Database error''
    | Inr y \<Rightarrow> (case y of (now, d) \<Rightarrow> award_or_rollback d (?body now))"
  have kept: "R d (db (snd (award_or_rollback d (?body now) s)))"
    if "relies I R pg" "I d" "d = db s" for now d s
    using guaranteesD [OF body [of now] that(1), of s] that(2,3)
    by (auto simp: award_or_rollback_def split: prod.splits sum.splits)
  have attempted: "andThen (attempt (begin_tx pg)) ?k s =
      andThen (begin_tx pg) (\<lambda>(now, d). award_or_rollback d (?body now)) s
      \<or> db (snd (andThen (attempt (begin_tx pg)) ?k s)) = db (snd (begin_tx pg s))" for s
    by (auto simp: andThen_def attempt_def reject_def ret_def split: prod.splits sum.splits fault.splits)
  have whole: "keeper_only (andThen (begin_tx pg) (\<lambda>(now, d). award_or_rollback d (?body now)))"
    by (rule guarantees_rollback) (use kept in auto)
  show ?thesis
    unfolding award_points_def or_reject_def [of _ _ "begin_tx pg"]
  proof (rule guaranteesI)
    fix s :: "'w app"
    assume rely: "relies I R pg" and start: "I (db s)"
    show "R (db s) (db (snd (andThen (attempt (begin_tx pg)) ?k s)))"
      using attempted [of s] guaranteesD [OF whole rely start] guaranteesD [OF guarantees_begin_tx rely start]
      by auto
  qed
qed

lemma keeper_only_api [guarantee_intros]:
  "keeper_only (sign_receipt p sdk r pg clock state q)"
  "keeper_only (bootstrap_award p sdk r pg clock state req)"
  "keeper_only (get_rewardz_proof p sdk api r pg clock state wallet_text)"
  unfolding sign_receipt_def get_user_total_points_def fetch_current_epoch_def bootstrap_award_def user_stake_exists_def
    get_rewardz_proof_def proof_for_target_def read_onchain_rewardz_root_def Let_def
  by (intro guarantee_intros)+

lemma cron_task_guarantees: "dp_pg dp = pg \<Longrightarrow> keeper_only (cron_task dp c n)"
  by (cases c) (simp_all add: cron_task_def Let_def guarantee_intros)

lemma api_task_guarantees: "dp_pg dp = pg \<Longrightarrow> keeper_only (api_task dp q)"
  by (cases q) (simp_all add: api_task_def Let_def guarantee_intros)

lemma run_task_guarantees: "dp_pg dp = pg \<Longrightarrow> keeper_only (run_task dp t)"
  by (cases t) (simp_all add: run_task_def cron_task_guarantees api_task_guarantees)

end

end
