(* ===== verification/System.thy ===== *)
theory System
  imports Concurrency League "HOL-Library.Sublist"
begin

section \<open>What every interleaving keeps\<close>

text \<open>
  The invariants of the tables under any interleaving of the tasks of the keeper with each other
  and with sessions that keep them too: the tables that only grow, the keys that stay unique, and
  the totals of the earnings that never fall. Each is an instance of the locale
  \<open>keeper_session\<close>; what it takes is the case of each write.
\<close>

subsection \<open>What a write does\<close>

definition same_protocol :: "protocol \<Rightarrow> protocol \<Rightarrow> bool" where
  \<comment> \<open>the columns that the keeper reads and never writes, and the unlock that it never takes back\<close>
  "same_protocol p q \<longleftrightarrow>
     p_id q = p_id p \<and> p_admin_wallet q = p_admin_wallet p \<and> p_status q = p_status p
     \<and> p_referral_code q = p_referral_code p
     \<and> (p_capacity_unlocked_at p \<noteq> None \<longrightarrow> p_capacity_unlocked_at q \<noteq> None)"

definition stamped :: "earning \<Rightarrow> earning \<Rightarrow> bool" where
  \<comment> \<open>the one update of an earning: the first root that includes it\<close>
  "stamped a b \<longleftrightarrow>
     b = a \<or> re_included_in_root_epoch a = None \<and> (\<exists>k. b = a\<lparr>re_included_in_root_epoch := Some k\<rparr>)"

definition same_subscription :: "subscription \<Rightarrow> subscription \<Rightarrow> bool" where
  "same_subscription a b \<longleftrightarrow>
     su_subscription_id b = su_subscription_id a \<and> su_wallet_address b = su_wallet_address a
     \<and> su_intent_query b = su_intent_query a \<and> su_frequency b = su_frequency a \<and> su_status b = su_status a"

definition adds_to :: "('r \<Rightarrow> 'r \<Rightarrow> bool) \<Rightarrow> 'r list \<Rightarrow> 'r list \<Rightarrow> bool" where
  \<comment> \<open>rows are added that leave the index as it was: without conflicts\<close>
  "adds_to conflict xs ys \<longleftrightarrow>
     (\<exists>new. ys = xs @ new) \<and> (free_of_conflicts conflict xs \<longrightarrow> free_of_conflicts conflict ys)"

lemma adds_to_insert_rows: "adds_to conflict table (fst (insert_rows conflict rows table))"
  using insert_rows_appends [of conflict rows table] insert_rows_free [of conflict table rows]
  by (auto simp: adds_to_def)

lemma upsert_free:
  assumes "free_of_conflicts same_epoch_authority table"
  shows "free_of_conflicts same_epoch_authority (upsert same_epoch_authority m table)"
proof (cases "\<exists>t \<in> set table. same_epoch_authority t m")
  case True
  let ?f = "\<lambda>t. if same_epoch_authority t m then m else t"
  have "same_epoch_authority (?f a) (?f b) \<longleftrightarrow> same_epoch_authority a b" for a b
    by (auto simp: same_epoch_authority_def)
  then have "free_of_conflicts same_epoch_authority (map ?f table)"
    using assms unfolding free_of_conflicts_def sorted_wrt_map by simp
  with True show ?thesis by (simp add: upsert_def)
next
  case False
  with assms show ?thesis by (simp add: upsert_def)
qed

lemma flags_added_free:
  assumes "raise_flags kind crosses sev evidence now d = Inr (n, e)"
  obtains new where "e = d\<lparr>abuse_flags := abuse_flags d @ new\<rparr>"
    "distinct (map p_id (protocols d)) \<Longrightarrow> free_of_conflicts same_open_flag (abuse_flags d) \<Longrightarrow>
     free_of_conflicts same_open_flag (abuse_flags d @ new)"
proof -
  let ?hit = "filter (\<lambda>p. p_status p = ''active'' \<and> crosses p \<and> no_open_flag kind d p) (protocols d)"
  let ?flag = "\<lambda>p. \<lparr>af_protocol_id = p_id p, af_kind = kind, af_severity = sev p,
     af_evidence = evidence p, af_resolved_at = None\<rparr>"
  have e: "e = d\<lparr>abuse_flags := abuse_flags d @ map ?flag ?hit\<rparr>"
    using assms by (simp add: raise_flags_def Let_def)
  moreover have "free_of_conflicts same_open_flag (abuse_flags d @ map ?flag ?hit)"
    if "distinct (map p_id (protocols d))" "free_of_conflicts same_open_flag (abuse_flags d)"
  proof (rule free_of_conflicts_append [OF that(2)])
    have "distinct (map p_id ?hit)" using that(1) by (simp add: distinct_map_filter)
    then show "free_of_conflicts same_open_flag (map ?flag ?hit)"
      by (auto simp: free_of_conflicts_def sorted_wrt_map same_open_flag_def distinct_map sorted_wrt_iff_nth_less
          distinct_conv_nth)
    show "\<forall>x \<in> set (abuse_flags d). \<forall>y \<in> set (map ?flag ?hit). \<not> same_open_flag x y"
      by (auto simp: same_open_flag_def no_open_flag_def open_flags_def)
  qed
  ultimately show thesis by (rule that)
qed

lemma keeper_write_cases:
  assumes "keeper_write pg payable d e"
  obtains (protocols) f where "e = d\<lparr>protocols := map f (protocols d)\<rparr>" "\<And>p. same_protocol p (f p)"
  | (events) new where "e = d\<lparr>protocol_events := protocol_events d @ new\<rparr>"
  | (awards) new i amount where "e = d\<lparr>rewardz_earnings := rewardz_earnings d @ new\<rparr>"
      "adds_to same_milestone (rewardz_earnings d) (rewardz_earnings d @ new)" "payable amount"
      "\<And>r. r \<in> set new \<Longrightarrow> re_milestone_id r = Some i \<and> (\<exists>p \<in> set (protocols d). re_protocol_id r = p_id p
         \<and> re_protocol_authority r = p_admin_wallet p \<and> (\<exists>w \<in> set (weights_of d p). re_amount r = \<lfloor>of_int amount * w\<rfloor>))"
  | (bonuses) new amount where "e = d\<lparr>rewardz_earnings := rewardz_earnings d @ new\<rparr>"
      "adds_to same_bonus (rewardz_earnings d) (rewardz_earnings d @ new)" "0 \<le> amount"
      "\<And>r. r \<in> set new \<Longrightarrow> re_milestone_id r = None \<and> re_amount r = amount"
  | (stamps) f where "e = d\<lparr>rewardz_earnings := map f (rewardz_earnings d)\<rparr>" "\<And>r. stamped r (f r)"
  | (flags) new where "e = d\<lparr>abuse_flags := abuse_flags d @ new\<rparr>"
      "distinct (map p_id (protocols d)) \<Longrightarrow> free_of_conflicts same_open_flag (abuse_flags d) \<Longrightarrow>
       free_of_conflicts same_open_flag (abuse_flags d @ new)"
  | (snapshots) table where "e = d\<lparr>league_leaderboard_snapshots := table\<rparr>"
      "adds_to snapshot_conflict (league_leaderboard_snapshots d) table"
  | (subscriptions) f where "e = d\<lparr>subscriptions := map f (subscriptions d)\<rparr>" "\<And>su. same_subscription su (f su)"
  | (proofs) table where "e = d\<lparr>merkle_proofs := table\<rparr>"
      "free_of_conflicts same_epoch_authority (merkle_proofs d) \<Longrightarrow> free_of_conflicts same_epoch_authority table"
  | (roots) table where "e = d\<lparr>rewardz_root_epochs := table\<rparr>" "adds_to same_root_epoch (rewardz_root_epochs d) table"
  | (users) table where "e = d\<lparr>users := table\<rparr>" "adds_to same_user (users d) table"
  | (balances) table where "e = d\<lparr>user_balances := table\<rparr>" "adds_to same_balance (user_balances d) table"
  using assms
proof cases
  case (reset baseline cadence now n)
  let ?f = "\<lambda>p. if window_elapsed now (cadence * 1000000) p
     then p\<lparr>p_remaining_capacity := Some baseline, p_capacity_window_start := Some now\<rparr> else p"
  have "e = d\<lparr>protocols := map ?f (protocols d)\<rparr>"
    using reset by (auto simp: reset_statement_def Let_def split: if_splits)
  then show ?thesis by (rule protocols) (simp add: same_protocol_def)
next
  case (mirror i stake now x)
  then show ?thesis by (intro protocols) (auto simp: mirror_stake_def update_protocol_def same_protocol_def)
next
  case (unlock i capacity now x)
  then show ?thesis by (intro protocols) (auto simp: unlock_capacity_def update_protocol_def same_protocol_def)
next
  case (timeline ev now x)
  then show ?thesis by (intro events) (auto simp: insert_event_def)
next
  case (show_or_hide i v now x)
  then show ?thesis by (intro protocols) (auto simp: set_visibility_def update_protocol_def same_protocol_def)
next
  case (score q i now x)
  then have "e = d \<or> (\<exists>v. e = update_protocol i (\<lambda>p. p\<lparr>p_quality_score := Some v\<rparr>) d)"
    by (auto simp: set_quality_score_def split: if_splits sum.splits)
  then show ?thesis
  proof
    assume "e = d"
    then show ?thesis by (intro protocols [of id]) (simp_all add: same_protocol_def)
  next
    assume "\<exists>v. e = update_protocol i (\<lambda>p. p\<lparr>p_quality_score := Some v\<rparr>) d"
    then show ?thesis by (elim exE, intro protocols) (auto simp: update_protocol_def same_protocol_def)
  qed
next
  case (award i amount reason predicate now n)
  let ?rows = "concat (map (\<lambda>p. map (award_row i amount reason now p) (weights_of d p))
      (filter (eligible i predicate d) (protocols d)))"
  from insert_rows_appends [of same_milestone ?rows "rewardz_earnings d"]
  obtain new where new: "insert_rows same_milestone ?rows (rewardz_earnings d) = (rewardz_earnings d @ new, length new)"
    "set new \<subseteq> set ?rows" by blast
  with award have e: "e = d\<lparr>rewardz_earnings := rewardz_earnings d @ new\<rparr>"
    by (auto simp: award_statement_def Let_def split: if_splits)
  have "adds_to same_milestone (rewardz_earnings d) (rewardz_earnings d @ new)"
    using adds_to_insert_rows [of same_milestone "rewardz_earnings d" ?rows] by (simp add: new(1))
  with e show ?thesis
  proof (rule awards)
    show "payable amount" by (rule award)
    show "re_milestone_id r = Some i \<and> (\<exists>p \<in> set (protocols d). re_protocol_id r = p_id p
         \<and> re_protocol_authority r = p_admin_wallet p \<and> (\<exists>w \<in> set (weights_of d p). re_amount r = \<lfloor>of_int amount * w\<rfloor>))"
      if "r \<in> set new" for r using that new(2) by (force simp: award_row_def)
  qed
next
  case (flag_raised kind crosses sev evidence now n)
  then show ?thesis by (rule flags_added_free) (rule flags)
next
  case (ranking w top_n prize now n)
  then obtain window where "e = d\<lparr>league_leaderboard_snapshots := fst (insert_rows snapshot_conflict
      (snapshot_rows w (pg_current_date pg now) top_n prize window now d) (league_leaderboard_snapshots d))\<rparr>"
    by (auto simp: snapshot_statement_def split_beta split: sum.splits)
  then show ?thesis by (rule snapshots) (rule adds_to_insert_rows)
next
  case (bonus amount now n)
  from insert_rows_appends [of same_bonus "bonus_rows pg amount now d" "rewardz_earnings d"]
  obtain new where new: "insert_rows same_bonus (bonus_rows pg amount now d) (rewardz_earnings d) = (rewardz_earnings d @ new, length new)"
    "set new \<subseteq> set (bonus_rows pg amount now d)" by blast
  with bonus have e: "e = d\<lparr>rewardz_earnings := rewardz_earnings d @ new\<rparr>" by (simp add: bonus_statement_def)
  have "adds_to same_bonus (rewardz_earnings d) (rewardz_earnings d @ new)"
    using adds_to_insert_rows [of same_bonus "rewardz_earnings d" "bonus_rows pg amount now d"] by (simp add: new(1))
  with e show ?thesis
  proof (rule bonuses)
    show "0 \<le> amount" by (rule bonus)
    show "re_milestone_id r = None \<and> re_amount r = amount" if "r \<in> set new" for r
      using that new(2) by (auto simp: bonus_rows_def bonus_row_def)
  qed
next
  case (move_on st lo mu iv i now x)
  let ?f = "\<lambda>su. if su_subscription_id su = i
     then su\<lparr>su_streak_current := st, su_streak_longest := lo, su_multiplier := mu, su_last_executed_at := Some now,
             su_next_due_at := now + iv * 1000000, su_updated_at := now\<rparr> else su"
  from move_on have "e = d\<lparr>subscriptions := map ?f (subscriptions d)\<rparr>" by (simp add: advance_statement_def)
  then show ?thesis by (rule subscriptions) (simp add: same_subscription_def)
next
  case (drop_proofs keep)
  then show ?thesis by (rule proofs) (simp add: free_of_conflicts_def sorted_wrt_filter)
next
  case (save_proof m)
  then show ?thesis by (rule proofs) (rule upsert_free)
next
  case (root_published row now x)
  then have "e = d\<lparr>rewardz_root_epochs := fst (insert_rows same_root_epoch [row] (rewardz_root_epochs d))\<rparr>"
    by (simp add: insert_root_epoch_def)
  then show ?thesis by (rule roots) (rule adds_to_insert_rows)
next
  case (stamp epoch authorities cutoff now n)
  let ?f = "\<lambda>r. if backfilled authorities cutoff r then r\<lparr>re_included_in_root_epoch := Some epoch\<rparr> else r"
  from stamp have "e = d\<lparr>rewardz_earnings := map ?f (rewardz_earnings d)\<rparr>" by (simp add: stamp_earnings_def)
  then show ?thesis by (rule stamps) (auto simp: stamped_def backfilled_def)
next
  case (new_user wallet now n)
  then have "e = d\<lparr>users := fst (insert_rows same_user
      [\<lparr>u_wallet_address = wallet, u_total_points = bootstrap_amount\<rparr>] (users d))\<rparr>"
    by (auto simp: insert_user_def split_beta simp del: insert_rows.simps)
  then show ?thesis by (rule users) (rule adds_to_insert_rows)
next
  case (new_balance wallet now n)
  then have "e = d\<lparr>user_balances := fst (insert_rows same_balance
        [\<lparr>ub_wallet_address = wallet, ub_total_earned = bootstrap_amount, ub_total_pending = 0,
          ub_total_spent = 0, ub_total_reserved = 0\<rparr>] (user_balances d))\<rparr>"
    by (auto simp: insert_balance_def split_beta simp del: insert_rows.simps)
  then show ?thesis by (rule balances) (rule adds_to_insert_rows)
qed

subsection \<open>Unique keys\<close>

definition tables_inv :: "database \<Rightarrow> bool" where
  \<comment> \<open>the keys on which the statements rely, unique\<close>
  "tables_inv d \<longleftrightarrow>
     distinct (map p_id (protocols d))
     \<and> free_of_conflicts same_milestone (rewardz_earnings d)
     \<and> free_of_conflicts same_bonus (rewardz_earnings d)
     \<and> free_of_conflicts same_open_flag (abuse_flags d)
     \<and> free_of_conflicts snapshot_conflict (league_leaderboard_snapshots d)
     \<and> free_of_conflicts same_epoch_authority (merkle_proofs d)
     \<and> free_of_conflicts same_root_epoch (rewardz_root_epochs d)
     \<and> free_of_conflicts same_user (users d)
     \<and> free_of_conflicts same_balance (user_balances d)"

lemma free_of_other_index:
  \<comment> \<open>rows that an index leaves out do not disturb it\<close>
  assumes "free_of_conflicts conflict xs" and "\<And>a r. r \<in> set new \<Longrightarrow> \<not> conflict a r"
  shows "free_of_conflicts conflict (xs @ new)"
  using assms by (induction new rule: rev_induct) (auto simp flip: append_assoc)

lemma free_of_conflicts_map:
  assumes "\<And>a b. conflict (f a) (f b) \<longleftrightarrow> conflict a b"
  shows "free_of_conflicts conflict (map f xs) \<longleftrightarrow> free_of_conflicts conflict xs"
  by (simp add: free_of_conflicts_def sorted_wrt_map assms)

lemma stamped_keys:
  assumes "\<And>r. stamped r (f r)"
  shows "same_milestone (f a) (f b) \<longleftrightarrow> same_milestone a b" "same_bonus (f a) (f b) \<longleftrightarrow> same_bonus a b"
proof -
  have "re_milestone_id (f r) = re_milestone_id r \<and> re_protocol_id (f r) = re_protocol_id r \<and> re_reason (f r) = re_reason r"
    for r using assms [of r] by (auto simp: stamped_def)
  then show "same_milestone (f a) (f b) \<longleftrightarrow> same_milestone a b" "same_bonus (f a) (f b) \<longleftrightarrow> same_bonus a b"
    by (simp_all add: same_milestone_def same_bonus_def)
qed

lemma keeper_write_tables_inv:
  assumes "keeper_write pg payable d e" "tables_inv d"
  shows "tables_inv e"
  using assms(1)
proof (cases rule: keeper_write_cases)
  case (protocols f)
  have "p_id \<circ> f = p_id" using protocols(2) by (simp add: fun_eq_iff same_protocol_def)
  with protocols(1) assms(2) show ?thesis by (simp add: tables_inv_def)
next
  case (awards new i amount)
  have "free_of_conflicts same_bonus (rewardz_earnings d @ new)"
    using assms(2) awards(4) by (intro free_of_other_index) (auto simp: tables_inv_def same_bonus_def)
  with assms(2) awards(1,2) show ?thesis by (simp add: tables_inv_def adds_to_def)
next
  case (bonuses new amount)
  have "free_of_conflicts same_milestone (rewardz_earnings d @ new)"
    using assms(2) bonuses(4) by (intro free_of_other_index) (auto simp: tables_inv_def same_milestone_def)
  with assms(2) bonuses(1,2) show ?thesis by (simp add: tables_inv_def adds_to_def)
next
  case (stamps f)
  with assms(2) show ?thesis
    by (simp add: tables_inv_def free_of_conflicts_map stamped_keys [OF stamps(2)])
qed (use assms(2) in \<open>auto simp: tables_inv_def adds_to_def\<close>)

subsection \<open>Tables that only grow\<close>

definition ledger_grows :: "earning list \<Rightarrow> earning list \<Rightarrow> bool" where
  \<comment> \<open>earnings are added, and those there are keep their place and their amount\<close>
  "ledger_grows es fs \<longleftrightarrow> (\<exists>olds new. fs = olds @ new \<and> list_all2 stamped es olds)"

definition record_grows :: "database \<Rightarrow> database \<Rightarrow> bool" where
  \<comment> \<open>nothing of the record is lost or rewritten\<close>
  "record_grows d e \<longleftrightarrow>
     ledger_grows (rewardz_earnings d) (rewardz_earnings e)
     \<and> prefix (rewardz_root_epochs d) (rewardz_root_epochs e)
     \<and> prefix (league_leaderboard_snapshots d) (league_leaderboard_snapshots e)
     \<and> prefix (abuse_flags d) (abuse_flags e)
     \<and> prefix (protocol_events d) (protocol_events e)
     \<and> prefix (users d) (users e)
     \<and> prefix (user_balances d) (user_balances e)
     \<and> list_all2 same_protocol (protocols d) (protocols e)
     \<and> list_all2 same_subscription (subscriptions d) (subscriptions e)
     \<and> milestones e = milestones d \<and> milestone_rewards e = milestone_rewards d
     \<and> wallet_weights e = wallet_weights d \<and> point_events e = point_events d"

lemma row_relations_refl [simp]: "stamped r r" "same_protocol p p" "same_subscription su su"
  by (simp_all add: stamped_def same_protocol_def same_subscription_def)

lemma row_relations_trans:
  "stamped a b \<Longrightarrow> stamped b c \<Longrightarrow> stamped a c"
  "same_protocol p q \<Longrightarrow> same_protocol q r \<Longrightarrow> same_protocol p r"
  "same_subscription x y \<Longrightarrow> same_subscription y z \<Longrightarrow> same_subscription x z"
  by (auto simp: stamped_def same_protocol_def same_subscription_def)

lemma list_all2_map_self: "(\<And>x. P x (f x)) \<Longrightarrow> list_all2 P xs (map f xs)"
  by (simp add: list_all2_conv_all_nth)

lemma ledger_grows_append [simp]: "ledger_grows es (es @ new)"
  unfolding ledger_grows_def by (auto simp: list_all2_refl)

lemma ledger_grows_refl [simp]: "ledger_grows es es"
  using ledger_grows_append [of es "[]"] by simp

lemma ledger_grows_map: "(\<And>r. stamped r (f r)) \<Longrightarrow> ledger_grows es (map f es)"
  unfolding ledger_grows_def by (rule exI [of _ "map f es"], rule exI [of _ "[]"]) (simp add: list_all2_map_self)

lemma ledger_grows_trans:
  assumes "ledger_grows es fs" "ledger_grows fs gs"
  shows "ledger_grows es gs"
proof -
  from assms obtain o1 n1 o2 n2 where "fs = o1 @ n1" and es: "list_all2 stamped es o1"
    and gs: "gs = o2 @ n2" "list_all2 stamped (o1 @ n1) o2"
    unfolding ledger_grows_def by auto
  from gs(2) obtain a b where ab: "o2 = a @ b" "list_all2 stamped o1 a" by (auto simp: list_all2_append1)
  have "list_all2 stamped es a" by (rule list_all2_trans [OF row_relations_trans(1) es ab(2)])
  with gs(1) ab(1) show ?thesis unfolding ledger_grows_def by auto
qed

lemma record_grows_refl [simp]: "record_grows d d"
  by (simp add: record_grows_def list_all2_refl)

lemma record_grows_trans:
  assumes "record_grows d e" "record_grows e f"
  shows "record_grows d f"
proof -
  have "ledger_grows (rewardz_earnings d) (rewardz_earnings f)"
    using assms unfolding record_grows_def by (elim conjE) (rule ledger_grows_trans)
  moreover have "list_all2 same_protocol (protocols d) (protocols f)"
    using assms unfolding record_grows_def
    by (elim conjE) (rule list_all2_trans [OF row_relations_trans(2)])
  moreover have "list_all2 same_subscription (subscriptions d) (subscriptions f)"
    using assms unfolding record_grows_def
    by (elim conjE) (rule list_all2_trans [OF row_relations_trans(3)])
  ultimately show ?thesis
    using assms unfolding record_grows_def by (auto simp: prefix_def)
qed

lemma keeper_write_record_grows:
  assumes "keeper_write pg payable d e"
  shows "record_grows d e"
  using assms
  by (cases rule: keeper_write_cases)
    (auto simp: record_grows_def adds_to_def list_all2_refl list_all2_map_self ledger_grows_map)

subsection \<open>Totals that never fall\<close>

definition fair_rewards :: "database \<Rightarrow> bool" where
  \<comment> \<open>neither the catalogue of the milestones nor the weights of the wallets take anything away\<close>
  "fair_rewards d \<longleftrightarrow>
     (\<forall>mr \<in> set (milestone_rewards d). 0 \<le> mr_rewardz_amount mr) \<and> (\<forall>w \<in> set (wallet_weights d). 0 \<le> wt_weight w)"

definition totals_grow :: "database \<Rightarrow> database \<Rightarrow> bool" where
  "totals_grow d e \<longleftrightarrow> (\<forall>a. authority_total a (rewardz_earnings d) \<le> authority_total a (rewardz_earnings e))"

lemma weights_nonneg: "fair_rewards d \<Longrightarrow> w \<in> set (weights_of d p) \<Longrightarrow> 0 \<le> w"
  by (auto simp: fair_rewards_def weights_of_def filter_eq_Cons_iff split: list.splits)

lemma authority_total_stamped:
  assumes "\<And>r. stamped r (f r)"
  shows "authority_total a (map f es) = authority_total a es"
proof -
  have "re_protocol_authority (f r) = re_protocol_authority r \<and> re_amount (f r) = re_amount r" for r
    using assms [of r] by (auto simp: stamped_def)
  then show ?thesis by (induction es) (simp_all add: authority_total_def)
qed

lemma totals_grow_append:
  "(\<And>r. r \<in> set new \<Longrightarrow> 0 \<le> re_amount r) \<Longrightarrow> totals_grow d (d\<lparr>rewardz_earnings := rewardz_earnings d @ new\<rparr>)"
  by (simp add: totals_grow_def authority_total_append authority_total_nonneg)

lemma keeper_write_totals:
  assumes "keeper_write pg (\<lambda>amount. 0 \<le> amount) d e" "fair_rewards d"
  shows "fair_rewards e \<and> totals_grow d e"
proof (rule conjI)
  show "fair_rewards e" using keeper_write_keeps_catalogue [OF assms(1)] assms(2) by (simp add: fair_rewards_def)
  show "totals_grow d e" using assms(1)
  proof (cases rule: keeper_write_cases)
    case (awards new i amount)
    have "0 \<le> re_amount r" if "r \<in> set new" for r
    proof -
      from awards(4) [OF that] obtain p w where "w \<in> set (weights_of d p)" "re_amount r = \<lfloor>of_int amount * w\<rfloor>" by blast
      with weights_nonneg [OF assms(2)] awards(3) show ?thesis by simp
    qed
    with awards(1) totals_grow_append [of new d] show ?thesis by simp
  next
    case (bonuses new amount)
    with totals_grow_append [of new d] show ?thesis by simp
  next
    case (stamps f)
    with authority_total_stamped [OF stamps(2)] show ?thesis by (simp add: totals_grow_def)
  qed (simp_all add: totals_grow_def)
qed

lemma total_fits:
  assumes "select_rewardz_earnings pg d = Inr rows" "claimable sdk d a pk"
  shows "in_i64 (authority_total a (rewardz_earnings d))"
proof -
  have "a \<in> re_protocol_authority ` set (rewardz_earnings d)"
    using assms(2) authority_total_outside [of a "rewardz_earnings d"] by (auto simp: claimable_def)
  with assms(1) show ?thesis by (auto simp: select_rewardz_earnings_def Let_def split: if_splits)
qed

subsection \<open>The three sessions\<close>

interpretation keys: keeper_session tables_inv "\<lambda>d e. tables_inv d \<longrightarrow> tables_inv e" pg "\<lambda>_. True" for pg :: "'w pg"
  by unfold_locales (auto intro: keeper_write_tables_inv)

interpretation history: keeper_session "\<lambda>_. True" record_grows pg "\<lambda>_. True" for pg :: "'w pg"
  by unfold_locales (auto intro: record_grows_trans keeper_write_record_grows)

interpretation totals: keeper_session fair_rewards "\<lambda>d e. fair_rewards d \<longrightarrow> fair_rewards e \<and> totals_grow d e" pg
    "\<lambda>amount. 0 \<le> amount" for pg :: "'w pg"
proof
  show "fair_rewards d \<longrightarrow> fair_rewards f \<and> totals_grow d f"
    if "fair_rewards d \<longrightarrow> fair_rewards e \<and> totals_grow d e" "fair_rewards e \<longrightarrow> fair_rewards f \<and> totals_grow e f" for d e f
    using that unfolding totals_grow_def by (meson order_trans)
qed (auto simp: keeper_write_totals, auto simp: totals_grow_def fair_rewards_def)

interpretation closed: keeper_session "\<lambda>_. True" "(keeper_write pg (\<lambda>_. True))\<^sup>*\<^sup>*" pg "\<lambda>_. True" for pg :: "'w pg"
  by unfold_locales auto

lemma tasks_among_tasks:
  \<comment> \<open>tasks are what tasks rely on: a task among sessions that write as the keeper does writes as it does\<close>
  assumes "\<And>w d. (keeper_write (dp_pg dp) (\<lambda>_. True))\<^sup>*\<^sup>* d (pg_others (dp_pg dp) w d)"
  shows "(keeper_write (dp_pg dp) (\<lambda>_. True))\<^sup>*\<^sup>* (db s) (db (snd (run_task dp t s)))"
  using guaranteesD [OF closed.run_task_guarantees [OF refl], of dp s t] assms by (simp add: relies_def)

lemma keeper_writes_relied_on:
  assumes "\<And>w d. (keeper_write pg (\<lambda>_. True))\<^sup>*\<^sup>* d (pg_others pg w d)"
  shows "relies tables_inv (\<lambda>d e. tables_inv d \<longrightarrow> tables_inv e) pg" "relies (\<lambda>_. True) record_grows pg"
proof -
  have "tables_inv d \<longrightarrow> tables_inv e" "record_grows d e" if "(keeper_write pg (\<lambda>_. True))\<^sup>*\<^sup>* d e" for d e
    using that by (induction rule: rtranclp_induct)
      (auto intro: keeper_write_tables_inv record_grows_trans keeper_write_record_grows)
  with assms show "relies tables_inv (\<lambda>d e. tables_inv d \<longrightarrow> tables_inv e) pg" "relies (\<lambda>_. True) record_grows pg"
    unfolding relies_def by blast+
qed

subsection \<open>The properties\<close>

text \<open>
  C3: the keys stay unique under every interleaving. A task of the keeper, any cron for any number
  of turns or any request, that runs statement by statement among sessions that keep the keys of
  the tables unique keeps them unique: no protocol is paid a milestone twice or two bonuses for
  one reason, none has two open flags of a kind, no day of the leaderboard has two protocols of
  one rank or one protocol at two ranks, no epoch has two roots, no wallet two rows.
\<close>

theorem keys_stay_unique:
  assumes "relies tables_inv (\<lambda>d e. tables_inv d \<longrightarrow> tables_inv e) (dp_pg dp)" and "tables_inv (db s)"
  shows "tables_inv (db (snd (run_task dp t s)))"
  using guaranteesD [OF keys.run_task_guarantees [OF refl] assms] assms(2) by blast

text \<open>
  C5: the record is never rewritten. Among sessions that only add to the record, a task only adds
  to it: every earning keeps its place, its amount, its protocol and its reason, and the epoch of
  its root once it has one; published roots, snapshots, flags, the timeline, users and balances
  stay as they are with new rows after them; a protocol keeps its identity and an unlock of its
  capacity; and the catalogue, the weights and the events are not touched.
\<close>

theorem record_never_rewritten:
  assumes "relies (\<lambda>_. True) record_grows (dp_pg dp)"
  shows "record_grows (db s) (db (snd (run_task dp t s)))"
  using guaranteesD [OF history.run_task_guarantees [OF refl] assms] by simp

text \<open>
  C4: what an authority may claim never falls. While the catalogue and the weights take nothing
  away and the other sessions do not lower a total, whatever task runs: an authority that can
  claim before it can claim after it, and the amount for its key among the entries of a root built
  then is at least what it was. The chain pays out the difference to what it has paid.
\<close>

theorem claims_never_fall:
  assumes "relies fair_rewards (\<lambda>d e. fair_rewards d \<longrightarrow> fair_rewards e \<and> totals_grow d e) (dp_pg dp)"
    and "fair_rewards (db s)" and "u = snd (run_task dp t s)"
    and "claimable sdk (db s) a pk" and "select_rewardz_earnings pg (db s) = Inr rows"
    and "select_rewardz_earnings pg (db u) = Inr rows'"
  shows "claimable sdk (db u) a pk
    \<and> (\<exists>n n'. (pk, n) \<in> set (rewardz_entries sdk rows) \<and> (pk, n') \<in> set (rewardz_entries sdk rows') \<and> n \<le> n')"
proof -
  have "totals_grow (db s) (db u)"
    using guaranteesD [OF totals.run_task_guarantees [OF refl] assms(1,2)] assms(2,3) by blast
  then have le: "authority_total a (rewardz_earnings (db s)) \<le> authority_total a (rewardz_earnings (db u))"
    by (simp add: totals_grow_def)
  have pos: "0 < authority_total a (rewardz_earnings (db s))" using assms(4) by (simp add: claimable_def)
  with le assms(4) have claim: "claimable sdk (db u) a pk" by (simp add: claimable_def)
  have fits: "in_i64 (authority_total a (rewardz_earnings (db s)))" "in_i64 (authority_total a (rewardz_earnings (db u)))"
    using total_fits [OF assms(5,4)] total_fits [OF assms(6) claim] by blast+
  then have "i64_as_u64 (authority_total a (rewardz_earnings (db s))) \<le> i64_as_u64 (authority_total a (rewardz_earnings (db u)))"
    using le pos by (simp add: word_le_def uint_i64_as_u64)
  with rewardz_entries_member [OF assms(5,4)] rewardz_entries_member [OF assms(6) claim] claim show ?thesis by blast
qed

subsection \<open>Concrete runs\<close>

definition rival_pg :: "unit pg" where
  \<comment> \<open>another keeper pays a milestone before every statement of this one\<close>
  "rival_pg = quiet_pg\<lparr>pg_others := (\<lambda>w d.
     case award_statement quiet_pg 7 100 ''milestone:first_blink'' any_event 900 d of Inr (n, e) \<Rightarrow> e | Inl _ \<Rightarrow> d)\<rparr>"

definition deployment_on :: "unit pg \<Rightarrow> unit deployment" where
  "deployment_on pg =
     \<lparr>dp_profile = Release, dp_env = devnet_only, dp_sdk = key_sdk, dp_api = sample_api, dp_rpc = open_rpc Map.empty,
      dp_pg = pg, dp_http = (\<lambda>url key body w. (Inr 200, w)), dp_clock = (\<lambda>_. 1000), dp_keypair = replicate 32 8,
      dp_config = sample_keeper_config\<rparr>"

lemma rival_pg_relied_on:
  "relies tables_inv (\<lambda>d e. tables_inv d \<longrightarrow> tables_inv e) rival_pg" "relies (\<lambda>_. True) record_grows rival_pg"
proof -
  have eq: "award_statement quiet_pg = award_statement rival_pg"
    by (simp add: fun_eq_iff award_statement_def rival_pg_def)
  have "(keeper_write rival_pg (\<lambda>_. True))\<^sup>*\<^sup>* d (pg_others rival_pg w d)" for w d
  proof (cases "award_statement quiet_pg 7 100 ''milestone:first_blink'' any_event 900 d")
    case (Inl a)
    then show ?thesis by (simp add: rival_pg_def)
  next
    case (Inr b)
    obtain n e where b: "b = (n, e)" by (cases b)
    have "keeper_write rival_pg (\<lambda>_. True) d e"
      using Inr b eq by (intro keeper_write.award [where amount = 100]) auto
    with Inr b show ?thesis by (auto simp: rival_pg_def)
  qed
  from keeper_writes_relied_on [OF this] show "relies tables_inv (\<lambda>d e. tables_inv d \<longrightarrow> tables_inv e) rival_pg"
    "relies (\<lambda>_. True) record_grows rival_pg" by blast+
qed

theorem keys_stay_unique_witness:
  "tables_inv (db (snd (run_task (deployment_on rival_pg) (Cron MilestoneProcessorCron 3) (app_of () honest_and_abuser_db))))"
proof -
  have "tables_inv honest_and_abuser_db"
    by (simp add: tables_inv_def honest_and_abuser_db_def self_user_db_def one_protocol_def empty_db_def league_protocol_def)
  then show ?thesis
    using rival_pg_relied_on(1) by (intro keys_stay_unique) (simp_all add: deployment_on_def)
qed

theorem record_never_rewritten_witness:
  "record_grows honest_and_abuser_db
     (db (snd (run_task (deployment_on rival_pg) (Cron RewardzPublisherCron 3) (app_of () honest_and_abuser_db))))"
  using record_never_rewritten [of "deployment_on rival_pg" "app_of () honest_and_abuser_db"] rival_pg_relied_on(2)
  by (simp add: deployment_on_def)

definition earning_pg :: "unit pg" where
  \<comment> \<open>somebody else records an earning before every statement\<close>
  "earning_pg = quiet_pg\<lparr>pg_others := (\<lambda>w d.
     d\<lparr>rewardz_earnings := rewardz_earnings d @ [sample_earning (replicate 32 CHR ''B'') 5 30]\<rparr>)\<rparr>"

definition later_rows :: "rewardz_earnings_row list" where
  "later_rows =
     [\<lparr>er_protocol_authority = replicate 32 CHR ''A'', er_cumulative_amount = 30\<rparr>,
      \<lparr>er_protocol_authority = replicate 32 CHR ''B'', er_cumulative_amount = 17\<rparr>]"

theorem claims_never_fall_witness:
  "\<exists>n n'. (replicate 32 66, n) \<in> set (rewardz_entries key_sdk (two_rows 12))
     \<and> (replicate 32 66, n') \<in> set (rewardz_entries key_sdk later_rows) \<and> n \<le> n'"
proof -
  let ?s = "app_of () (two_earners 12)"
  let ?u = "snd (run_task (deployment_on earning_pg) (Cron MilestoneProcessorCron 1) ?s)"
  have rely: "relies fair_rewards (\<lambda>d e. fair_rewards d \<longrightarrow> fair_rewards e \<and> totals_grow d e) (dp_pg (deployment_on earning_pg))"
    using totals_grow_append [of "[sample_earning (replicate 32 CHR ''B'') 5 30]"]
    by (simp add: relies_def deployment_on_def earning_pg_def fair_rewards_def sample_earning_def)
  have "db ?u = pg_others earning_pg () (two_earners 12)"
    by (simp add: run_task_def cron_task_def deployment_on_def start_milestone_processor_cron_def league_cron_def
        with_config_def milestone_tick_def load_milestone_rewards_def execute_def round_trip_def see_others_def
        run_statement_def earning_pg_def two_earners_def empty_db_def prog_simps Let_def quiet_pg_def)
  moreover have "select_rewardz_earnings quiet_pg (pg_others earning_pg () (two_earners 12)) = Inr later_rows" by code_simp
  ultimately have rows: "select_rewardz_earnings quiet_pg (db ?u) = Inr later_rows" by simp
  have "fair_rewards (db ?s)" by (simp add: fair_rewards_def two_earners_def empty_db_def)
  moreover have "claimable key_sdk (db ?s) (replicate 32 CHR ''B'') (replicate 32 66)" by code_simp
  ultimately show ?thesis
    using claims_never_fall [OF rely _ refl _ _ rows, of key_sdk "replicate 32 CHR ''B''" "replicate 32 66"]
      two_earners_rows(1) by simp
qed

end
