(* ===== verification/Answers.thy ===== *)
theory Answers
  imports System
begin

section \<open>The answers of the API\<close>

text \<open>
  \<^verbatim>\<open>src/src/api.rs\<close>: what comes back for a request, as a status and the JSON value that the derived
  \<open>Serialize\<close> of the answer gives. The text of a moment under RFC 3339 is a parameter. A calculus
  of handlers shows that every request is answered and that a refusal writes nothing.
\<close>

subsection \<open>Statuses and bodies\<close>

definition json_of_error :: "string \<Rightarrow> json" where
  "json_of_error msg = JObj [(''error'', JStr msg)]"

definition json_of_receipt :: "receipt \<Rightarrow> json" where
  "json_of_receipt rc = JObj
     [(''prev_total'', json_u64 (rc_prev_total rc)), (''new_total'', json_u64 (rc_new_total rc)),
      (''epoch'', json_u64 (rc_epoch rc)), (''nonce'', json_u64 (rc_nonce rc)),
      (''expiry'', JInt (rc_expiry rc)), (''signature'', JStr (rc_signature rc))]"

definition json_of_sign_receipt_response :: "receipt option \<Rightarrow> json" where
  "json_of_sign_receipt_response rc =
     JObj [(''receipt'', case rc of None \<Rightarrow> JNull | Some rc \<Rightarrow> json_of_receipt rc)]"

definition json_of_bootstrap_award_response :: "string \<Rightarrow> json" where
  "json_of_bootstrap_award_response message = JObj [(''success'', JBool True), (''message'', JStr message)]"

definition json_of_health_response :: "health_response \<Rightarrow> json" where
  "json_of_health_response h = JObj [(''status'', JStr (hr_status h)), (''timestamp'', JStr (hr_timestamp h))]"

definition json_of_rewardz_proof_response :: "(int \<Rightarrow> string) \<Rightarrow> rewardz_proof_response \<Rightarrow> json" where
  "json_of_rewardz_proof_response to_rfc3339 rp = JObj
     [(''cumulative_amount'', json_u64 (rp_cumulative_amount rp)), (''epoch'', json_u64 (rp_onchain_epoch rp)),
      (''proof'', JArr (map JStr (rp_proof rp))), (''root'', JStr (rp_root_hex rp)),
      (''valid_until_next_publish_at'', JStr (to_rfc3339 (rp_valid_until rp)))]"

definition respond :: "('a \<Rightarrow> json) \<Rightarrow> ('w, 'a) handler \<Rightarrow> ('w app, nat \<times> json) prog" where
  \<comment> \<open>\<open>Result<Json<T>, (StatusCode, Json<ErrorResponse>)>\<close> as a response\<close>
  "respond body h =
     andThen h (\<lambda>r. ret (case r of Inl (status, msg) \<Rightarrow> (status, json_of_error msg) | Inr x \<Rightarrow> (200, body x)))"

definition answer :: "(int \<Rightarrow> string) \<Rightarrow> 'w deployment \<Rightarrow> api_request \<Rightarrow> ('w app, nat \<times> json) prog" where
  "answer to_rfc3339 dp req =
     (let p = dp_profile dp; sdk = dp_sdk dp; r = dp_rpc dp; pg = dp_pg dp; clock = dp_clock dp;
          state = api_state (dp_config dp) (dp_keypair dp) in
      case req of
        PostSignReceipt q \<Rightarrow> respond json_of_sign_receipt_response (sign_receipt p sdk r pg clock state q)
      | PostBootstrapAward q \<Rightarrow> respond json_of_bootstrap_award_response (bootstrap_award p sdk r pg clock state q)
      | GetRewardzProof a \<Rightarrow>
          respond (json_of_rewardz_proof_response to_rfc3339) (get_rewardz_proof p sdk (dp_api dp) r pg clock state a)
      | GetHealthz \<Rightarrow>
          andThen (read_clock clock) (\<lambda>now. ret (200, json_of_health_response (healthz to_rfc3339 now))))"

subsection \<open>Handlers that answer\<close>

definition refusals :: "nat set" where
  "refusals = {400, 401, 404, 409, 500, 503}"

definition debug_panic :: "profile \<Rightarrow> fault \<Rightarrow> bool" where
  "debug_panic p e \<longleftrightarrow> p = Debug \<and> (\<exists>msg. e = Panic msg)"

definition replies :: "profile \<Rightarrow> ('w, 'a) handler \<Rightarrow> bool" where
  \<comment> \<open>a debug build may panic; everything else is an answer, a refusal under one of the statuses\<close>
  "replies p h \<longleftrightarrow>
     (\<forall>s. case fst (h s) of
        Inl e \<Rightarrow> debug_panic p e
      | Inr (Inl (status, msg)) \<Rightarrow> status \<in> refusals
      | Inr (Inr x) \<Rightarrow> True)"

definition refuses_unwritten :: "('w, 'a) handler \<Rightarrow> bool" where
  "refuses_unwritten h \<longleftrightarrow> (\<forall>s. (\<exists>x. fst (h s) = Inr (Inr x)) \<or> db (snd (h s)) = db s)"

definition steps_in :: "profile \<Rightarrow> bool \<Rightarrow> ('w app, 'a) prog \<Rightarrow> bool" where
  \<comment> \<open>a step that writes nothing and panics in a debug build only; whether it may fail otherwise\<close>
  "steps_in p fallible m \<longleftrightarrow>
     (\<forall>s. db (snd (m s)) = db s \<and> (case fst (m s) of
        Inl (Fault e) \<Rightarrow> fallible | Inl (Panic e) \<Rightarrow> p = Debug | Inr x \<Rightarrow> True))"

named_theorems reply_intros \<open>handlers that answer\<close>

lemma replies_reject [reply_intros]: "status \<in> refusals \<Longrightarrow> replies p (reject status msg)"
  by (simp add: replies_def reject_def ret_def)

lemma unwritten_reject [reply_intros]: "refuses_unwritten (reject status msg)"
  by (simp add: refuses_unwritten_def reject_def ret_def)

lemma replies_ret [reply_intros]: "replies p (ret (Inr x))" "refuses_unwritten (ret (Inr x))"
  by (simp_all add: replies_def refuses_unwritten_def ret_def)

lemma replies_require [reply_intros]:
  "status \<in> refusals \<Longrightarrow> (\<And>y. replies p (k y)) \<Longrightarrow> replies p (require status msg x k)"
  "(\<And>y. refuses_unwritten (k y)) \<Longrightarrow> refuses_unwritten (require status msg x k)"
  by (auto simp: require_def reply_intros split: option.splits)

lemma replies_if [reply_intros]:
  "replies p a \<Longrightarrow> replies p b \<Longrightarrow> replies p (if c then a else b)"
  "refuses_unwritten a \<Longrightarrow> refuses_unwritten b \<Longrightarrow> refuses_unwritten (if c then a else b)"
  by simp_all

lemma steps_in_cases:
  assumes "steps_in p fallible m" and "m s = (res, t)"
  shows "db t = db s" and "res = Inl (Fault e) \<Longrightarrow> fallible" and "res = Inl (Panic e) \<Longrightarrow> p = Debug"
proof -
  from assms have "db t = db s \<and> (case res of
        Inl (Fault e) \<Rightarrow> fallible | Inl (Panic e) \<Rightarrow> p = Debug | Inr x \<Rightarrow> True)"
    unfolding steps_in_def by (metis fst_conv snd_conv)
  then show "db t = db s" "res = Inl (Fault e) \<Longrightarrow> fallible" "res = Inl (Panic e) \<Longrightarrow> p = Debug" by auto
qed

lemma replies_andThen:
  assumes "steps_in p False m" and "\<And>y. replies p (k y)"
  shows "replies p (andThen m k)"
  unfolding replies_def
proof
  fix s
  obtain res t where run: "m s = (res, t)" by (cases "m s")
  show "case fst (andThen m k s) of Inl e \<Rightarrow> debug_panic p e
      | Inr (Inl (status, msg)) \<Rightarrow> status \<in> refusals | Inr (Inr x) \<Rightarrow> True"
  proof (cases res)
    case (Inl e)
    with steps_in_cases(2,3) [OF assms(1) run] run show ?thesis
      by (cases e) (auto simp: andThen_def debug_panic_def)
  next
    case (Inr y)
    with assms(2) [of y] run show ?thesis by (simp add: andThen_def replies_def)
  qed
qed

lemma unwritten_andThen:
  assumes "\<And>s. db (snd (m s)) = db s" and "\<And>y. refuses_unwritten (k y)"
  shows "refuses_unwritten (andThen m k)"
  unfolding refuses_unwritten_def
proof
  fix s
  obtain res t where run: "m s = (res, t)" by (cases "m s")
  with assms(1) [of s] have t: "db t = db s" by simp
  show "(\<exists>x. fst (andThen m k s) = Inr (Inr x)) \<or> db (snd (andThen m k s)) = db s"
  proof (cases res)
    case (Inr y)
    with assms(2) [of y] run t show ?thesis by (auto simp: andThen_def refuses_unwritten_def)
  qed (use run t in \<open>simp add: andThen_def\<close>)
qed

lemma steps_in_attempt: "steps_in p True m \<Longrightarrow> steps_in p False (attempt m)"
  unfolding steps_in_def by (auto simp: attempt_def split: prod.splits sum.splits fault.splits)
    (metis (no_types, lifting) fst_conv snd_conv fault.case sum.case)+

definition panics_in :: "profile \<Rightarrow> ('s, 'a) prog \<Rightarrow> bool" where
  "panics_in p m \<longleftrightarrow> (\<forall>s e. fst (m s) = Inl (Panic e) \<longrightarrow> p = Debug)"

lemma steps_panics: "steps_in p fallible m \<Longrightarrow> panics_in p m"
  unfolding steps_in_def panics_in_def by (metis fault.simps(6) sum.case(1))

lemma replies_or_reject:
  assumes "status \<in> refusals" and "panics_in p m" and "\<And>y. replies p (k y)"
  shows "replies p (or_reject status msg m k)"
  unfolding replies_def
proof
  fix s
  obtain res t where run: "m s = (res, t)" by (cases "m s")
  have none: "res \<noteq> Inl (Panic e)" if "p \<noteq> Debug" for e
    using assms(2) that run unfolding panics_in_def by (metis fst_conv)
  show "case fst (or_reject status msg m k s) of Inl e \<Rightarrow> debug_panic p e
      | Inr (Inl (status, msg)) \<Rightarrow> status \<in> refusals | Inr (Inr x) \<Rightarrow> True"
  proof (cases res)
    case (Inl e)
    with none run assms(1) show ?thesis
      by (cases e) (auto simp: or_reject_def andThen_def attempt_def reject_def ret_def debug_panic_def)
  next
    case (Inr y)
    with assms(3) [of y] run show ?thesis by (simp add: or_reject_def andThen_def attempt_def replies_def)
  qed
qed

lemma unwritten_or_reject:
  assumes "\<And>s. db (snd (m s)) = db s" and "\<And>y. refuses_unwritten (k y)"
  shows "refuses_unwritten (or_reject status msg m k)"
proof -
  have "db (snd (attempt m s)) = db s" for s
    using assms(1) [of s] by (auto simp: attempt_def split: prod.splits sum.splits fault.splits)
  moreover have "refuses_unwritten (case r of Inl e \<Rightarrow> reject status msg | Inr y \<Rightarrow> k y)" for r
    using assms(2) by (cases r) (auto intro: unwritten_reject)
  ultimately show ?thesis unfolding or_reject_def by (rule unwritten_andThen)
qed

text \<open>The steps that the handlers take.\<close>

lemma panics_calls [reply_intros]:
  "panics_in p (ret x)" "panics_in p (throw e)" "panics_in p (call f)" "panics_in p (round_trip pg)"
  "panics_in p (commit pg)"
  by (auto simp: panics_in_def ret_def throw_def call_def round_trip_def commit_def
      split: prod.split_asm sum.split_asm option.split_asm)

lemma panics_andThen [reply_intros]:
  "panics_in p m \<Longrightarrow> (\<And>y. panics_in p (k y)) \<Longrightarrow> panics_in p (andThen m k)"
proof -
  assume m: "panics_in p m" and k: "\<And>y. panics_in p (k y)"
  show ?thesis
    unfolding panics_in_def
  proof (intro allI impI)
    fix s e
    assume out: "fst (andThen m k s) = Inl (Panic e)"
    obtain res t where run: "m s = (res, t)" by (cases "m s")
    show "p = Debug"
    proof (cases res)
      case (Inl x)
      then show ?thesis using m out run by (simp add: panics_in_def andThen_def) (metis fst_conv)
    next
      case (Inr y)
      then show ?thesis using k [of y] out run unfolding panics_in_def andThen_def by (metis (no_types, lifting) case_prod_conv sum.case(2))
    qed
  qed
qed

lemma panics_statements [reply_intros]:
  "panics_in p (see_others pg)" "panics_in p (run_statement now f)" "panics_in p (\<lambda>s. (Inr (g s), s))"
  by (auto simp: panics_in_def see_others_def run_statement_def split: prod.split_asm sum.split_asm)

lemma panics_database [reply_intros]:
  "panics_in p (begin_tx pg)" "panics_in p (execute pg f)" "panics_in p (execute_in pg now f)"
  unfolding begin_tx_def execute_def execute_in_def by (intro reply_intros)+

lemma panics_cases [reply_intros]:
  "panics_in p a \<Longrightarrow> (\<And>y. panics_in p (f y)) \<Longrightarrow> panics_in p (case x of None \<Rightarrow> a | Some y \<Rightarrow> f y)"
  "panics_in p a \<Longrightarrow> panics_in p b \<Longrightarrow> panics_in p (if c then a else b)"
  by (simp_all split: option.splits)

lemma steps_clock: "steps_in p fallible (read_clock clock)"
  by (simp add: steps_in_def read_clock_def)

lemma i64_result_release: "i64_result p x = None \<Longrightarrow> p = Debug"
  by (simp add: i64_result_def split: if_splits)

lemma steps_or_panic: "(x = None \<Longrightarrow> p = Debug) \<Longrightarrow> steps_in p fallible (or_panic msg x)"
  by (auto simp: steps_in_def or_panic_def panic_def ret_def split: option.splits)

lemma expired_release: "expired p now timestamp ttl = None \<Longrightarrow> p = Debug"
  by (auto simp: expired_def abs_i64_def bind_eq_None_conv dest: i64_result_release)

lemma steps_or_fault: "steps_in p fallible (or_fault (build_rewardz_tree p keccak entries))"
proof -
  have "p = Debug \<and> (\<exists>msg. e = Panic msg)" if "build_rewardz_tree p keccak entries = Inl e" for e
    using that by (auto simp: build_rewardz_tree_def Let_def split: if_splits option.splits)
  then show ?thesis by (auto simp: steps_in_def or_fault_def split: sum.splits)
qed

lemma steps_chain:
  "steps_in p fallible (fetch_current_epoch sdk r program_id)"
  "steps_in p fallible (user_stake_exists sdk r program_id authority)"
  by (auto simp: steps_in_def fetch_current_epoch_def user_stake_exists_def andThen_def attempt_def call_def ret_def
      split: prod.splits sum.splits fault.splits)

subsection \<open>The handlers\<close>

lemma replies_checks [reply_intros]:
  "(\<And>a. replies p (k a)) \<Longrightarrow> replies p (verify_wallet sdk authority message signature_text k)"
  "(\<And>a. refuses_unwritten (k a)) \<Longrightarrow> refuses_unwritten (verify_wallet sdk authority message signature_text k)"
  "replies p h \<Longrightarrow> replies p (check_fresh p now timestamp ttl h)"
  "refuses_unwritten h \<Longrightarrow> refuses_unwritten (check_fresh p now timestamp ttl h)"
proof -
  note steps = steps_or_panic [OF expired_release]
  have kept: "db (snd (or_panic msg x s)) = db s" for msg and x :: "bool option" and s :: "'w app"
    by (auto simp: or_panic_def panic_def ret_def split: option.splits)
  show "(\<And>a. replies p (k a)) \<Longrightarrow> replies p (verify_wallet sdk authority message signature_text k)"
    "(\<And>a. refuses_unwritten (k a)) \<Longrightarrow> refuses_unwritten (verify_wallet sdk authority message signature_text k)"
    unfolding verify_wallet_def by (intro reply_intros; simp add: refusals_def)+
  show "replies p h \<Longrightarrow> replies p (check_fresh p now timestamp ttl h)"
    unfolding check_fresh_def by (intro replies_andThen steps reply_intros) (simp_all add: refusals_def)
  show "refuses_unwritten h \<Longrightarrow> refuses_unwritten (check_fresh p now timestamp ttl h)"
    unfolding check_fresh_def by (intro unwritten_andThen reply_intros) (simp_all add: or_panic_def panic_def ret_def split: option.splits)
qed

lemma replies_award_or_rollback [reply_intros]: "replies p h \<Longrightarrow> replies p (award_or_rollback d h)"
proof -
  assume h: "replies p h"
  have "fst (award_or_rollback d h s) = fst (h s)" for s
    by (auto simp: award_or_rollback_def split: prod.splits sum.splits)
  with h show ?thesis by (simp add: replies_def)
qed

lemma replies_sign_receipt: "replies p (sign_receipt p sdk r pg clock state req)"
  unfolding sign_receipt_def get_user_total_points_def Let_def
  by (intro reply_intros replies_andThen steps_clock steps_chain steps_or_panic replies_or_reject)
    (simp_all add: refusals_def i64_result_release)

lemma replies_bootstrap_award: "replies p (bootstrap_award p sdk r pg clock state req)"
proof -
  have tail: "replies p (andThen (attempt (round_trip pg)) (\<lambda>_. reject 409 msg))" for msg
  proof (rule replies_andThen)
    show "steps_in p False (attempt (round_trip pg))"
      by (auto simp: steps_in_def attempt_def round_trip_def split: prod.splits option.splits)
  qed (simp add: reply_intros refusals_def)
  have award: "replies p (award_points pg wallet)" for wallet
    unfolding award_points_def
    by (rule replies_or_reject, simp add: refusals_def, rule reply_intros)
      (auto simp: refusals_def intro!: reply_intros replies_or_reject tail split: prod.splits)
  show ?thesis
    unfolding bootstrap_award_def
    by (intro reply_intros replies_andThen steps_clock steps_chain award) (simp_all add: refusals_def)
qed

lemma replies_get_rewardz_proof: "replies p (get_rewardz_proof p sdk api r pg clock state a)"
proof -
  have target: "replies p (proof_for_target clock state rt epoch entries tree target)" for rt epoch entries tree target
    unfolding proof_for_target_def
    by (auto simp: refusals_def intro!: reply_intros replies_andThen steps_clock split: option.splits)
  have root: "panics_in p (read_onchain_rewardz_root sdk api r program_id)" for program_id
    unfolding read_onchain_rewardz_root_def by (intro reply_intros)
  show ?thesis
    unfolding get_rewardz_proof_def get_rewardz_earnings_grouped_def Let_def
    by (auto simp: refusals_def intro!: reply_intros replies_andThen replies_or_reject steps_or_fault root target
        split: option.splits)
qed

lemma db_execute_read:
  assumes "no_other_writers pg" and "\<And>now d x e. f now d = Inr (x, e) \<Longrightarrow> e = d"
  shows "db (snd (execute pg f s)) = db s"
  using execute_outcome [OF assms(1), of f s] assms(2) by (metis surjective_pairing)

lemma unwritten_get_rewardz_proof:
  assumes "no_other_writers pg"
  shows "refuses_unwritten (get_rewardz_proof p sdk api r pg clock state a)"
proof -
  have target: "refuses_unwritten (proof_for_target clock state rt epoch entries tree target)" for rt epoch entries tree target
    unfolding proof_for_target_def
    by (auto intro!: reply_intros unwritten_andThen simp: read_clock_def split: option.splits)
  have rows: "db (snd (get_rewardz_earnings_grouped pg s)) = db s" for s
    unfolding get_rewardz_earnings_grouped_def
    by (rule db_execute_read [OF assms]) (auto simp: map_sum_def split: sum.split_asm)
  show ?thesis
    unfolding get_rewardz_proof_def Let_def
    by (auto intro!: reply_intros unwritten_andThen unwritten_or_reject target simp: rows or_fault_def
        split: option.splits sum.splits)
qed

lemma unwritten_sign_receipt:
  assumes "no_other_writers pg"
  shows "refuses_unwritten (sign_receipt p sdk r pg clock state req)"
proof -
  have total: "db (snd (get_user_total_points pg wallet s)) = db s" for wallet s
    unfolding get_user_total_points_def by (rule db_execute_read [OF assms]) auto
  have epoch: "db (snd (fetch_current_epoch sdk r program_id s)) = db s" for program_id and s :: "'a app"
    using steps_chain(1) [of Release True sdk r program_id] by (simp add: steps_in_def)
  show ?thesis
    unfolding sign_receipt_def Let_def
    by (auto intro!: reply_intros unwritten_andThen unwritten_or_reject
        simp: total epoch read_clock_def or_panic_def panic_def ret_def split: option.splits)
qed

lemma unwritten_award_points:
  assumes "no_other_writers pg"
  shows "refuses_unwritten (award_points pg wallet)"
  unfolding refuses_unwritten_def
proof
  fix s
  obtain res t where run: "begin_tx pg s = (res, t)" by (cases "begin_tx pg s")
  have began: "db t = db s \<and> (\<forall>now d. res = Inr (now, d) \<longrightarrow> d = db s)"
    using run assms by (auto simp: begin_tx_def round_trip_def see_others_def andThen_def no_other_writers_def
        split: prod.split_asm option.split_asm)
  have undone: "(\<exists>x. fst (award_or_rollback d h t) = Inr (Inr x)) \<or> db (snd (award_or_rollback d h t)) = d"
    for d and h :: "('a, string) handler"
    by (auto simp: award_or_rollback_def split: prod.splits sum.splits)
  show "(\<exists>x. fst (award_points pg wallet s) = Inr (Inr x)) \<or> db (snd (award_points pg wallet s)) = db s"
  proof (cases res)
    case (Inl e)
    with run began show ?thesis
      by (cases e) (auto simp: award_points_def or_reject_def andThen_def attempt_def reject_def ret_def)
  next
    case (Inr y)
    obtain now d where y: "y = (now, d)" by (cases y)
    from Inr y began have d: "d = db s" by simp
    show ?thesis
      unfolding award_points_def or_reject_def [of 500 _ "begin_tx pg"] andThen_def [of "attempt (begin_tx pg)"]
      using run Inr y undone [of d] unfolding d by (simp add: attempt_def)
  qed
qed

lemma unwritten_bootstrap_award:
  assumes "no_other_writers pg"
  shows "refuses_unwritten (bootstrap_award p sdk r pg clock state req)"
proof -
  have stake: "db (snd (user_stake_exists sdk r program_id a s)) = db s" for program_id a and s :: "'a app"
    using steps_chain(2) [of Release True sdk r program_id a] by (simp add: steps_in_def)
  show ?thesis
    unfolding bootstrap_award_def
    by (auto intro!: reply_intros unwritten_andThen unwritten_award_points [OF assms] simp: stake read_clock_def)
qed

subsection \<open>Every request is answered\<close>

lemma respond_answers:
  assumes "replies p h" and "refuses_unwritten h" and "respond body h s = (res, t)"
  shows "(\<exists>e. res = Inl e \<and> debug_panic p e \<and> db t = db s)
    \<or> (\<exists>x. res = Inr (200, body x))
    \<or> (\<exists>status msg. res = Inr (status, json_of_error msg) \<and> status \<in> refusals \<and> db t = db s)"
proof -
  obtain out u where run: "h s = (out, u)" by (cases "h s")
  have "case out of Inl e \<Rightarrow> debug_panic p e | Inr (Inl (status, msg)) \<Rightarrow> status \<in> refusals | Inr (Inr x) \<Rightarrow> True"
    using assms(1) run unfolding replies_def by (metis fst_conv)
  moreover have "(\<exists>x. out = Inr (Inr x)) \<or> db u = db s"
    using assms(2) run unfolding refuses_unwritten_def by (metis fst_conv snd_conv)
  ultimately show ?thesis
    using assms(3) run by (auto simp: respond_def andThen_def ret_def split: sum.splits prod.splits)
qed



end
