(* ===== verification/Spec2Isabelle.thy ===== *)
theory Spec2Isabelle
  imports Prelude Hex Rewardz_Merkle Game_Loop League_Config League_Json Unit_Tests Api Router Settlement Capacity Quality_Score
    Milestone_Processor Anti_Abuse Leaderboard League Subscriptions Rental Keeper_Main System Answers
begin

text \<open>
  A verification development of the keeper bot: the Rust service under \<^verbatim>\<open>src/src/\<close> that publishes
  Merkle roots to Solana, cranks a mining game, runs the crons of a league on a PostgreSQL
  database, and serves a small HTTP API.

  \<^bold>\<open>How the program is put together.\<close> \<^verbatim>\<open>main.rs\<close> reads \<^verbatim>\<open>config.rs\<close>, opens a connection pool, spawns
  one task for each cron and serves the API. The tasks share the pool and nothing else. Each
  cron is a loop around a tick whose failure is logged; a panic ends its task. Two publishers
  (\<^verbatim>\<open>publisher.rs\<close> for points, \<^verbatim>\<open>rewardz_publisher.rs\<close> for the settlement rail) read the database
  (\<^verbatim>\<open>db.rs\<close>), build a tree (\<^verbatim>\<open>merkle.rs\<close>, \<^verbatim>\<open>rewardz_merkle.rs\<close>), send its root to the chain and
  store what the API (\<^verbatim>\<open>api.rs\<close>) later serves. The crons of the league (\<^verbatim>\<open>capacity_reset.rs\<close>,
  \<^verbatim>\<open>stake_watcher.rs\<close>, \<^verbatim>\<open>visibility_tick.rs\<close>, \<^verbatim>\<open>quality_score.rs\<close>, \<^verbatim>\<open>milestone_processor.rs\<close>,
  \<^verbatim>\<open>anti_abuse.rs\<close>, \<^verbatim>\<open>leaderboard.rs\<close>) work on the same tables by SQL under the parameters of
  \<^verbatim>\<open>league_config.rs\<close>. \<^verbatim>\<open>game_loop.rs\<close> starts and settles rounds, \<^verbatim>\<open>rental.rs\<close> settles rentals,
  \<^verbatim>\<open>subscriptions.rs\<close> executes subscriptions.

  \<^bold>\<open>The layers of the model.\<close>
  \<^item> \<open>Prelude\<close>: machine integers with their checks and wraps, little-endian bytes, and programs
    with effects: a function of the state to a result or a fault and the state, where a fault is
    an \<open>Err\<close> or a panic. Locales \<open>invariant_system\<close> and \<open>ordered_system\<close> for step relations.
  \<^item> \<open>Chain\<close>: instructions, transactions, the crates outside the repository (\<open>sdk\<close>, \<open>mvp_api\<close>) and
    the RPC client (\<open>rpc\<close>) as parameters, the list of the transactions sent, and the calculus
    \<open>sends_only\<close> of what a program may send.
  \<^item> \<open>Float64\<close>: IEEE doubles as rationals with rounding to nearest even, for the scores,
    shares and thresholds.
  \<^item> \<open>Database\<close>, \<open>Engagement\<close>: rows and tables, statements with their moment, round trips that may
    fail, other sessions, transactions, \<open>ON CONFLICT DO NOTHING\<close> (locale \<open>unique_index\<close>), and the
    aggregates over events that the SQL of the league repeats. What the server decides (its clock,
    its collation, \<open>make_interval\<close> on a \<open>bigint\<close>, rounding to a decimal, the text of a date) is
    the record \<open>pg\<close>; a hypothesis of a theorem names what it relies on, such as \<open>quiet\<close>,
    \<open>no_other_writers\<close> or \<open>takes_bigint\<close>, and \<open>Db\<close> has a concrete server that meets them.
  \<^item> \<open>Text\<close>, \<open>Hex\<close>: decimal and hexadecimal text with its parsers, splitting and trimming.
  \<^item> \<open>Interleaving\<close>: what a program guarantees of the tables as long as the other sessions keep to
    a relation, statement by statement (locale \<open>rely_guarantee\<close>).
  \<^item> \<open>Concurrency\<close>: the tasks of the keeper as one type, its writes as one step relation
    (\<open>keeper_write\<close>, a rule for each statement that writes), and the locale \<open>keeper_session\<close>: every
    task keeps to any relation that its writes are in.

  \<^bold>\<open>Theories and source files.\<close> \<open>Hex\<close>, \<open>Merkle\<close>, \<open>Rewardz_Merkle\<close>, \<open>Game_Loop\<close>, \<open>League_Config\<close>, \<open>Db\<close>,
  \<open>Publisher\<close>, \<open>Rewardz_Publisher\<close>, \<open>Api\<close>, \<open>Stake_Watcher\<close>, \<open>Capacity_Reset\<close>, \<open>Visibility_Tick\<close>,
  \<open>Quality_Score\<close>, \<open>Milestone_Processor\<close>, \<open>Anti_Abuse\<close>, \<open>Leaderboard\<close>, \<open>Subscriptions\<close> and \<open>Rental\<close> model
  the file of their name; \<open>Keeper_Config\<close> models \<^verbatim>\<open>config.rs\<close> and \<open>Keeper_Main\<close> models \<^verbatim>\<open>main.rs\<close>. A function
  of the source is a definition of its name; a function called \<^verbatim>\<open>tick\<close> carries the name of its
  file, and a loop over rows is a recursive function ending in \<open>_each\<close>. \<open>Router\<close> has the router of
  \<^verbatim>\<open>api.rs\<close> and \<open>Answers\<close> its statuses and bodies, \<open>League_Json\<close> the JSON of \<^verbatim>\<open>league_config.rs\<close>, and \<open>Unit_Tests\<close> the test modules of
  \<^verbatim>\<open>merkle.rs\<close>, \<^verbatim>\<open>rewardz_merkle.rs\<close> and \<^verbatim>\<open>game_loop.rs\<close>. \<open>Capacity\<close>, \<open>League\<close>, \<open>Settlement\<close> and
  \<open>System\<close> hold what spans several parts.

  \<^bold>\<open>What the lemmas show.\<close>
  \<^item> Merkle: every entry has a proof that verifies, an accepted proof is of an entry unless Keccak
    collides, the level loop returns and proofs are logarithmic, and the tree of the settlement
    rail is the same tree.
  \<^item> Publishers: the instruction on the chain carries the root of exactly the entries that the API
    can prove, the right epoch, the capped total and the deny list; nothing is sent when a gate is
    closed; epochs increase, and a failed publish is tried again under the same epoch.
  \<^item> Game loop: a tick refines the decision on a consistent view of the chain; past the crank slot
    it does not rest.
  \<^item> Database and API: stamps, transactions, one bootstrap award a wallet, receipts of the stored
    total, proofs against the root on the chain, unambiguous signed texts. From publish to claim
    (\<open>Settlement\<close>): the root that a publish sends is the root that the endpoint proves. Every
    request is answered, and a refusal writes nothing (\<open>Answers\<close>).
  \<^item> System: over every interleaving of any number of keepers, statement by statement, the keys of
    the tables stay unique, the record of earnings, roots, flags and snapshots is only added to,
    and what an authority may claim never falls.
  \<^item> Capacity: unlocked once over every interleaving of one watcher, resets and unrelated writes,
    and unlocked twice by two watchers that overlap.
  \<^item> League: the visibility, the score, the flags, the milestones and the leaderboard follow rules
    over integers and exact rationals stated apart from the SQL; invariants that hold under any
    failures; what a failure between two statements costs; flags gate milestones.
  \<^item> Subscriptions and rentals: a poll moves what is due on once, streaks stay consistent, failing
    rows block the others; every rental is tried once.
  \<^item> Configuration and commands: what is written is read back, the JSON of the league's parameters
    determines them, the configured origins are the allowed ones, and what the default command
    starts.
  \<^item> Unit tests: the repository's own tests of the trees and of the round guard hold of the model.

  \<^bold>\<open>Bounds.\<close> Loops that do not end are run for any number of turns. The level loop of the tree
  takes fuel, and \<open>merkle_tree_total_logarithmic\<close> shows that it suffices. Floating point is
  exact where a theorem compares counts below \<open>2 ^ 51\<close>.

  \<^bold>\<open>Not modelled.\<close> Log lines and their set-up, the command line parser, the
  matching of a request against the routes, the decoding of its body, the layout of printed
  JSON, and the opening of a connection: they are the business of crates that the source calls,
  and where their result matters it is a parameter. The heartbeat of the cranker loop has no
  effect but log lines. Sessions take turns: a statement on the pool, and a transaction as a
  whole, is one step of the server, and what two statements at the very same moment do to each
  other below that is the server's. A NULL in a column that the keeper always finds set, the
  ways in which a driver may decode a row of an unexpected type, and moments out of the range of
  the calendar are left out. The time between two turns of a cron is left open.
\<close>

end
